(* ===== verification/Kernel_Prelude.thy ===== *)
theory Kernel_Prelude
  imports Main "HOL-Library.Word"
begin

text \<open>
  What every other theory of the development rests on: the machine integers of
  \<^verbatim>\<open>kernel/types.h\<close>, the computations in which the kernel's C functions are written,
  a small program logic for them, and the lemmas on words and lists that several
  components share.

  A C function is a value of type \<open>('s, 'a) K\<close>: given what the rest of the machine may
  do (\<open>'s env\<close>, below) and a state, it returns a value and a new state, or stops in a
  panic, or (\<open>None\<close>) never returns. \<open>bnd\<close> and \<open>thn\<close> are the semicolon; \<open>ret\<close>,
  \<open>gets\<close>, \<open>modify\<close>, \<open>panic\<close>, \<open>whenK\<close> and \<open>forK\<close> are the other statements.
\<close>

unbundle bit_operations_syntax

section \<open>Machine integers\<close>

text \<open>\<^verbatim>\<open>kernel/types.h\<close>\<close>

type_synonym uint8 = "8 word"
type_synonym uint16 = "16 word"
type_synonym uint32 = "32 word"
type_synonym uint64 = "64 word"

text \<open>A region of memory: a byte at every 64-bit address.\<close>

type_synonym memory = "uint64 \<Rightarrow> uint8"

lemma and_not_id: "x AND m = 0 \<Longrightarrow> x AND NOT m = (x :: 'a::len word)"
proof (rule bit_eqI)
  fix n
  assume "x AND m = 0"
  then have "\<not> bit (x AND m) n" by simp
  then show "bit (x AND NOT m) n \<longleftrightarrow> bit x n"
    by (auto simp: bit_and_iff bit_not_iff possible_bit_def dest: bit_imp_le_length)
qed

lemma and_not_or_id: "x AND m = m \<Longrightarrow> (x AND NOT m) OR m = (x :: 'a::len word)"
proof (rule bit_eqI)
  fix n
  assume "x AND m = m"
  then have "bit (x AND m) n = bit m n" by simp
  then show "bit ((x AND NOT m) OR m) n \<longleftrightarrow> bit x n"
    by (auto simp: bit_and_iff bit_or_iff bit_not_iff possible_bit_def dest: bit_imp_le_length)
qed

lemma find_SomeD: "find P xs = Some x \<Longrightarrow> x \<in> set xs \<and> P x"
  by (auto simp: find_Some_iff)

lemma unat_less32: "unat (a :: uint32) < 2 ^ 32"
  using unsigned_less [of a] by simp

lemma sint_cases32:
  "sint (xx :: uint32) = (if uint xx < 2 ^ 31 then uint xx else uint xx - 2 ^ 32)"
proof -
  have u: "uint xx < 2 ^ 32" "0 \<le> uint xx" using uint_bounded [of xx] by simp_all
  have "bit (uint xx) 31 \<longleftrightarrow> odd (uint xx div 2 ^ 31)" by (simp add: bit_iff_odd)
  also have "\<dots> \<longleftrightarrow> \<not> uint xx < 2 ^ 31"
  proof (cases "uint xx < 2 ^ 31")
    case True
    then show ?thesis using u by (simp add: div_pos_pos_trivial)
  next
    case False
    then have "uint xx div 2 ^ 31 = 1" using u by (intro int_div_pos_eq [where r = "uint xx - 2 ^ 31"]) auto
    then show ?thesis using False by simp
  qed
  finally have "bit (uint xx) 31 \<longleftrightarrow> \<not> uint xx < 2 ^ 31" .
  moreover have "take_bit 32 (uint xx) = uint xx" using u by (simp add: take_bit_int_eq_self)
  ultimately show ?thesis
    by (simp add: sint_uint signed_take_bit_eq_take_bit_minus)
qed

lemma sint32_unat: "sint (n :: uint32) = (if unat n < 2 ^ 31 then int (unat n) else int (unat n) - 2 ^ 32)"
  unfolding sint_cases32 uint_nat by (simp only: of_nat_less_numeral_power_cancel_iff)

lemma nat_sint32: "unat (n :: uint32) < 2 ^ 31 \<Longrightarrow> nat (sint n) = unat n"
  by (simp only: sint32_unat if_True nat_int)

lemma sint32_neg: "\<not> unat (n :: uint32) < 2 ^ 31 \<Longrightarrow> sint n < 0"
  using unat_less32 [of n] by (simp only: sint32_unat if_False diff_less_0_iff_less of_nat_less_numeral_power_cancel_iff)

lemma sint32_pos: "n \<noteq> 0 \<Longrightarrow> unat (n :: uint32) < 2 ^ 31 \<Longrightarrow> 0 < sint n"
  by (simp only: sint32_unat if_True of_nat_0_less_iff unat_gt_0 not_False_eq_True)

section \<open>Collections of facts\<close>

named_theorems kdefs \<open>the statements of the computation language\<close>
named_theorems krules \<open>rules of the program logic\<close>
named_theorems kwp \<open>what has to hold before a statement, for it to return with a postcondition\<close>

section \<open>Computations\<close>

text \<open>
  The outcome of a computation that stops: it panicked with a message, or it returned.
\<close>

datatype ('s, 'a) outcome = Panic string | Ret 'a 's

text \<open>
  The rest of the machine: other harts, other processes and the devices. A computation
  meets it at the points where C code gives way to it: while it waits for a spin lock
  (event \<open>AtLock\<close>, with the lock), while its thread is switched out (event
  \<open>AtSwtch\<close>), when it looks at a register of a device (event \<open>AtDev\<close>, with
  the address), which the device may change at any time, and while it waits for another
  hart to change a shared variable (event \<open>AtSpin\<close>). Between two such points the data
  a thread touches is protected by locks it holds. \<open>None\<close> says that the thread never
  gets to run again.
\<close>

datatype 'l event = AtLock 'l | AtSwtch | AtDev uint64 | AtSpin

type_synonym ('l, 's) env = "'l event \<Rightarrow> 's \<Rightarrow> 's option"

type_synonym ('l, 's, 'a) comp = "('l, 's) env \<Rightarrow> 's \<Rightarrow> ('s, 'a) outcome option"

definition ret :: "'a \<Rightarrow> ('l, 's, 'a) comp" where
  [kdefs]: "ret a E s = Some (Ret a s)"

definition panic :: "string \<Rightarrow> ('l, 's, 'a) comp" where
  [kdefs]: "panic msg E s = Some (Panic msg)"

text \<open>\<^verbatim>\<open>for(;;) ;\<close>\<close>

definition hang :: "('l, 's, 'a) comp" where
  [kdefs]: "hang E s = None"

definition gets :: "('s \<Rightarrow> 'a) \<Rightarrow> ('l, 's, 'a) comp" where
  [kdefs]: "gets f E s = Some (Ret (f s) s)"

definition modify :: "('s \<Rightarrow> 's) \<Rightarrow> ('l, 's, unit) comp" where
  [kdefs]: "modify f E s = Some (Ret () (f s))"

definition bnd :: "('l, 's, 'a) comp \<Rightarrow> ('a \<Rightarrow> ('l, 's, 'b) comp) \<Rightarrow> ('l, 's, 'b) comp" where
  [kdefs]: "bnd m f E s =
     (case m E s of
        None \<Rightarrow> None
      | Some (Panic msg) \<Rightarrow> Some (Panic msg)
      | Some (Ret a s') \<Rightarrow> f a E s')"

definition thn :: "('l, 's, 'a) comp \<Rightarrow> ('l, 's, 'b) comp \<Rightarrow> ('l, 's, 'b) comp" where
  [kdefs]: "thn m n = bnd m (\<lambda>_. n)"

definition whenK :: "bool \<Rightarrow> ('l, 's, unit) comp \<Rightarrow> ('l, 's, unit) comp" where
  [kdefs]: "whenK b m = (if b then m else ret ())"

text \<open>A \<^verbatim>\<open>for\<close> loop over known values, with no early exit.\<close>

fun forK :: "'x list \<Rightarrow> ('x \<Rightarrow> ('l, 's, unit) comp) \<Rightarrow> ('l, 's, unit) comp" where
  "forK [] body = ret ()"
| "forK (x # xs) body = thn (body x) (forK xs body)"

text \<open>A \<^verbatim>\<open>for\<close> loop whose body may leave it with a value.\<close>

fun findK :: "'x list \<Rightarrow> ('x \<Rightarrow> ('l, 's, 'a option) comp) \<Rightarrow> ('l, 's, 'a option) comp" where
  "findK [] body = ret None"
| "findK (x # xs) body =
     bnd (body x) (\<lambda>r. case r of Some a \<Rightarrow> ret (Some a) | None \<Rightarrow> findK xs body)"

text \<open>The environment's turn.\<close>

definition interfere :: "'l event \<Rightarrow> ('l, 's, unit) comp" where
  [kdefs]: "interfere e E s = (case E e s of None \<Rightarrow> None | Some s' \<Rightarrow> Some (Ret () s'))"

text \<open>
  Loops that wait are defined as least fixed points in the \<open>option\<close> ordering; these
  rules let \<^theory_text>\<open>partial_function\<close> look through a \<open>bnd\<close>.
\<close>

lemma bnd_mono [partial_function_mono]:
  fixes B :: "('x \<Rightarrow> 'y option) \<Rightarrow> ('l, 's, 'a) comp"
  assumes B: "mono_option (\<lambda>f. B f E s)"
    and C: "\<And>a s'. mono_option (\<lambda>f. C f a E s')"
  shows "mono_option (\<lambda>f. bnd (B f) (C f) E s)"
proof (rule monotoneI)
  fix f g :: "'x \<Rightarrow> 'y option"
  assume fg: "fun_ord option_ord f g"
  have "option_ord (B f E s) (B g E s)"
    using B fg by (rule monotoneD [of _ _ _ f g])
  then have le_B: "B f E s = None \<or> B g E s = B f E s"
    by (auto simp: flat_ord_def)
  have "option_ord (C f a E s') (C g a E s')" for a s'
    using C fg by (rule monotoneD [of _ _ _ f g])
  then have le_C: "C f a E s' = None \<or> C g a E s' = C f a E s'" for a s'
    unfolding flat_ord_def by metis
  have "bnd (B f) (C f) E s = None \<or> bnd (B g) (C g) E s = bnd (B f) (C f) E s"
    using le_B
  proof
    assume eq: "B g E s = B f E s"
    show ?thesis
      unfolding bnd_def eq using le_C by (simp split: option.split outcome.split)
  qed (simp add: bnd_def)
  then show "option_ord (bnd (B f) (C f) E s) (bnd (B g) (C g) E s)"
    by (auto simp: flat_ord_def)
qed

lemma thn_mono [partial_function_mono]:
  assumes "mono_option (\<lambda>f. B f E s)"
    and "\<And>s'. mono_option (\<lambda>f. C f E s')"
  shows "mono_option (\<lambda>f. thn (B f) (C f) E s)"
  unfolding thn_def by (intro bnd_mono assms)

lemma if_comp_mono [partial_function_mono]:
  assumes "mono_option (\<lambda>f. B f E s)" and "mono_option (\<lambda>f. C f E s)"
  shows "mono_option (\<lambda>f. (if b then B f else C f) E s)"
  using assms by (cases b) simp_all

lemma case_option_comp_mono [partial_function_mono]:
  assumes "mono_option (\<lambda>f. B f E s)" and "\<And>a. mono_option (\<lambda>f. C f a E s)"
  shows "mono_option (\<lambda>f. (case x of None \<Rightarrow> B f | Some a \<Rightarrow> C f a) E s)"
  using assms by (cases x) simp_all

lemma case_prod_comp_mono [partial_function_mono]:
  assumes "\<And>a b. mono_option (\<lambda>f. C f a b E s)"
  shows "mono_option (\<lambda>f. (case x of (a, b) \<Rightarrow> C f a b) E s)"
  using assms by (cases x) simp_all

lemma case_sum_comp_mono [partial_function_mono]:
  assumes "\<And>a. mono_option (\<lambda>f. B f a E s)" and "\<And>a. mono_option (\<lambda>f. C f a E s)"
  shows "mono_option (\<lambda>f. (case x of Inl a \<Rightarrow> B f a | Inr a \<Rightarrow> C f a) E s)"
  using assms by (cases x) simp_all

lemma let_comp_mono [partial_function_mono]:
  assumes "mono_option (\<lambda>f. B f x E s)"
  shows "mono_option (\<lambda>f. (let y = x in B f y) E s)"
  using assms by simp

lemma whenK_mono [partial_function_mono]:
  assumes "mono_option (\<lambda>f. B f E s)"
  shows "mono_option (\<lambda>f. whenK b (B f) E s)"
  unfolding whenK_def by (intro if_comp_mono assms) (simp add: monotone_def flat_ord_def)

lemma forK_mono [partial_function_mono]:
  assumes "\<And>x s. mono_option (\<lambda>f. B f x E s)"
  shows "mono_option (\<lambda>f. forK xs (B f) E s)"
proof (induction xs arbitrary: s)
  case (Cons x xs)
  then show ?case unfolding forK.simps by (intro thn_mono assms)
qed (simp add: monotone_def flat_ord_def)

lemma findK_mono [partial_function_mono]:
  assumes "\<And>x s. mono_option (\<lambda>f. B f x E s)"
  shows "mono_option (\<lambda>f. findK xs (B f) E s)"
proof (induction xs arbitrary: s)
  case (Cons x xs)
  show ?case unfolding findK.simps
    by (intro bnd_mono case_option_comp_mono assms Cons) (simp add: monotone_def flat_ord_def)
qed (simp add: monotone_def flat_ord_def)

lemma bnd_Ret: "m E s = Some (Ret a s') \<Longrightarrow> bnd m f E s = f a E s'"
  by (simp add: bnd_def)

lemma thn_Ret: "m E s = Some (Ret a s') \<Longrightarrow> thn m n E s = n E s'"
  by (simp add: thn_def bnd_Ret)

lemma bnd_ret [simp]: "bnd (ret a) f = f a"
  by (intro ext) (simp add: kdefs)

lemma thn_ret [simp]: "thn (ret a) n = n"
  by (simp add: thn_def)

lemma bnd_assoc: "bnd (bnd m f) g = bnd m (\<lambda>a. bnd (f a) g)"
  by (intro ext) (simp add: bnd_def split: option.split outcome.split)

lemma bnd_eq_RetD:
  "bnd m f E s = Some (Ret b t) \<Longrightarrow> \<exists>a s'. m E s = Some (Ret a s') \<and> f a E s' = Some (Ret b t)"
  by (auto simp: bnd_def split: option.splits outcome.splits)

lemma thn_eq_RetD:
  "thn m n E s = Some (Ret b t) \<Longrightarrow> \<exists>a s'. m E s = Some (Ret a s') \<and> n E s' = Some (Ret b t)"
  unfolding thn_def by (rule bnd_eq_RetD)

section \<open>A program logic\<close>

text \<open>
  \<open>safe E P m Q\<close>: started in a state that satisfies \<open>P\<close>, beside the environment
  \<open>E\<close>, the computation does not panic, and if it returns then \<open>Q\<close> holds of the
  value and the state. \<open>returns\<close> asks in addition that it returns.
\<close>

definition safe ::
  "('l, 's) env \<Rightarrow> ('s \<Rightarrow> bool) \<Rightarrow> ('l, 's, 'a) comp \<Rightarrow> ('a \<Rightarrow> 's \<Rightarrow> bool) \<Rightarrow> bool" where
  "safe E P m Q \<longleftrightarrow>
     (\<forall>s. P s \<longrightarrow> (case m E s of None \<Rightarrow> True | Some (Panic _) \<Rightarrow> False | Some (Ret a s') \<Rightarrow> Q a s'))"

definition returns ::
  "('l, 's) env \<Rightarrow> 's \<Rightarrow> ('l, 's, 'a) comp \<Rightarrow> ('a \<Rightarrow> 's \<Rightarrow> bool) \<Rightarrow> bool" where
  "returns E s m Q \<longleftrightarrow> (\<exists>a s'. m E s = Some (Ret a s') \<and> Q a s')"

lemma safeI:
  assumes "\<And>s msg. P s \<Longrightarrow> m E s = Some (Panic msg) \<Longrightarrow> False"
    and "\<And>s a s'. P s \<Longrightarrow> m E s = Some (Ret a s') \<Longrightarrow> Q a s'"
  shows "safe E P m Q"
  using assms by (fastforce simp: safe_def split: option.splits outcome.splits)

lemma safeD: "safe E P m Q \<Longrightarrow> P s \<Longrightarrow> m E s = Some (Ret a s') \<Longrightarrow> Q a s'"
  by (fastforce simp: safe_def)

lemma safe_no_panic: "safe E P m Q \<Longrightarrow> P s \<Longrightarrow> m E s \<noteq> Some (Panic msg)"
  by (fastforce simp: safe_def)

lemma safe_conseq:
  "safe E P' m Q' \<Longrightarrow> (\<And>s. P s \<Longrightarrow> P' s) \<Longrightarrow> (\<And>a s. Q' a s \<Longrightarrow> Q a s) \<Longrightarrow> safe E P m Q"
  by (fastforce simp: safe_def split: option.splits outcome.splits)

lemma safe_pre: "safe E P' m Q \<Longrightarrow> (\<And>s. P s \<Longrightarrow> P' s) \<Longrightarrow> safe E P m Q"
  by (rule safe_conseq)

lemma safe_post: "safe E P m Q' \<Longrightarrow> (\<And>a s. Q' a s \<Longrightarrow> Q a s) \<Longrightarrow> safe E P m Q"
  by (rule safe_conseq)

lemma safe_ret [krules]: "(\<And>s. P s \<Longrightarrow> Q a s) \<Longrightarrow> safe E P (ret a) Q"
  by (simp add: safe_def ret_def)

lemma safe_gets [krules]: "(\<And>s. P s \<Longrightarrow> Q (f s) s) \<Longrightarrow> safe E P (gets f) Q"
  by (simp add: safe_def gets_def)

lemma safe_modify [krules]: "(\<And>s. P s \<Longrightarrow> Q () (f s)) \<Longrightarrow> safe E P (modify f) Q"
  by (simp add: safe_def modify_def)

lemma safe_bnd:
  assumes "safe E P m R" and "\<And>a. safe E (R a) (f a) Q"
  shows "safe E P (bnd m f) Q"
  using assms by (fastforce simp: safe_def bnd_def split: option.splits outcome.splits)

lemma safe_thn:
  assumes "safe E P m (\<lambda>_. R)" and "safe E R n Q"
  shows "safe E P (thn m n) Q"
  unfolding thn_def by (rule safe_bnd [OF assms(1)]) (rule assms(2))

lemma safe_whenK:
  assumes "b \<Longrightarrow> safe E P m Q" and "\<And>s. \<not> b \<Longrightarrow> P s \<Longrightarrow> Q () s"
  shows "safe E P (whenK b m) Q"
  using assms by (simp add: whenK_def safe_ret)

lemma safe_case_option:
  assumes "x = None \<Longrightarrow> safe E P m Q" and "\<And>a. x = Some a \<Longrightarrow> safe E P (f a) Q"
  shows "safe E P (case x of None \<Rightarrow> m | Some a \<Rightarrow> f a) Q"
  using assms by (cases x) auto

lemma safe_pre_False: "(\<And>s. \<not> P s) \<Longrightarrow> safe E P m Q"
  by (simp add: safe_def)

lemma safe_interfere: "(\<And>s s'. P s \<Longrightarrow> E e s = Some s' \<Longrightarrow> Q () s') \<Longrightarrow> safe E P (interfere e) Q"
  by (auto simp: safe_def interfere_def split: option.splits)

lemma safe_forK:
  assumes "\<And>x. x \<in> set xs \<Longrightarrow> safe E I (body x) (\<lambda>_. I)"
  shows "safe E I (forK xs body) (\<lambda>_. I)"
  using assms
proof (induction xs)
  case Nil
  show ?case by (simp add: safe_ret)
next
  case (Cons x xs)
  have "safe E I (body x) (\<lambda>_. I)" "safe E I (forK xs body) (\<lambda>_. I)"
    using Cons by simp_all
  then show ?case by (simp add: safe_thn)
qed

subsection \<open>Weakest preconditions\<close>

text \<open>
  As equations, so that the simplifier walks through straight-line code statement by
  statement.
\<close>

lemma returns_ret [kwp]: "returns E s (ret a) Q = Q a s"
  by (simp add: returns_def ret_def)

lemma returns_gets [kwp]: "returns E s (gets f) Q = Q (f s) s"
  by (simp add: returns_def gets_def)

lemma returns_modify [kwp]: "returns E s (modify f) Q = Q () (f s)"
  by (simp add: returns_def modify_def)

lemma returns_panic [kwp]: "\<not> returns E s (panic msg) Q"
  by (simp add: returns_def panic_def)

lemma returns_hang [kwp]: "\<not> returns E s hang Q"
  by (simp add: returns_def hang_def)

lemma returns_bnd [kwp]: "returns E s (bnd m f) Q = returns E s m (\<lambda>a t. returns E t (f a) Q)"
  by (auto simp: returns_def bnd_def split: option.splits outcome.splits)

lemma returns_thn [kwp]: "returns E s (thn m n) Q = returns E s m (\<lambda>_ t. returns E t n Q)"
  by (simp add: thn_def returns_bnd)

lemma returns_if: "returns E s (if b then m else n) Q = (if b then returns E s m Q else returns E s n Q)"
  by simp

lemma returns_whenK [kwp]: "returns E s (whenK b m) Q = (if b then returns E s m Q else Q () s)"
  by (simp add: whenK_def returns_ret)

lemma returns_mono: "returns E s m Q \<Longrightarrow> (\<And>a t. Q a t \<Longrightarrow> R a t) \<Longrightarrow> returns E s m R"
  by (auto simp: returns_def)

lemma returns_interfere [kwp]:
  "returns E s (interfere e) Q = (case E e s of None \<Rightarrow> False | Some t \<Rightarrow> Q () t)"
  by (auto simp: returns_def interfere_def split: option.splits)

text \<open>A computation whose outcome is known.\<close>

lemma returns_det: "returns E s m (\<lambda>r t. r = a \<and> t = u) \<Longrightarrow> returns E s m Q = Q a u"
  by (auto simp: returns_def)

text \<open>For unfolding a loop once.\<close>

lemma returns_cong: "m E s = m' E s \<Longrightarrow> returns E s m Q = returns E s m' Q"
  by (simp add: returns_def)

text \<open>A loop whose body keeps an invariant.\<close>

lemma returns_forK:
  assumes "I s" "\<And>x t. x \<in> set xs \<Longrightarrow> I t \<Longrightarrow> returns E t (body x) (\<lambda>_. I)"
  shows "returns E s (forK xs body) (\<lambda>_. I)"
  using assms
proof (induction xs arbitrary: s)
  case (Cons x xs)
  then have "returns E s (body x) (\<lambda>_. I)" by simp
  then show ?case
    unfolding forK.simps returns_thn by (rule returns_mono) (simp add: Cons)
qed (simp add: returns_ret)

text \<open>The same with an invariant that counts the turns.\<close>

lemma returns_forK_upt:
  assumes "I 0 s" "\<And>i t. i < n \<Longrightarrow> I i t \<Longrightarrow> returns E t (body i) (\<lambda>_. I (Suc i))"
  shows "returns E s (forK [0..<n] body) (\<lambda>_. I n)"
proof -
  have "returns E t (forK [k..<n] body) (\<lambda>_. I n)" if "I k t" "k \<le> n" for k t
    using that
  proof (induction "n - k" arbitrary: k t)
    case 0
    then show ?case by (simp add: returns_ret)
  next
    case (Suc d)
    then have "[k..<n] = k # [Suc k..<n]" by (simp add: upt_conv_Cons)
    moreover have "returns E t (body k) (\<lambda>_. I (Suc k))" using Suc assms(2) by simp
    ultimately show ?case
      using Suc by (auto simp: returns_thn elim!: returns_mono)
  qed
  then show ?thesis using assms(1) by simp
qed

text \<open>Searching loops: turns that find nothing, and the turn that does.\<close>

lemma findK_skip:
  "(\<And>x. x \<in> set xs \<Longrightarrow> body x E s = Some (Ret None s)) \<Longrightarrow> findK (xs @ ys) body E s = findK ys body E s"
  by (induction xs) (simp_all add: bnd_def)

lemma findK_hit:
  assumes "\<And>j. j < i \<Longrightarrow> body j E s = Some (Ret None s)" "i < n"
    and "body i E s = Some (Ret (Some a) t)"
  shows "findK [0..<n] body E s = Some (Ret (Some a) t)"
proof -
  have "[0..<n] = [0..<i] @ i # [Suc i..<n]"
    using assms(2) upt_add_eq_append [of 0 i "n - i"] by (simp add: upt_conv_Cons)
  then have "findK [0..<n] body E s = findK (i # [Suc i..<n]) body E s"
    using findK_skip [of "[0..<i]" body E s] assms(1) by simp
  then show ?thesis using assms(3) by (simp add: bnd_def ret_def)
qed

lemma findK_none:
  "(\<And>x. x \<in> set xs \<Longrightarrow> body x E s = Some (Ret None s)) \<Longrightarrow> findK xs body E s = Some (Ret None s)"
  using findK_skip [of xs body E s "[]"] by (simp add: ret_def)

end
