(* ===== verification/Machine.thy ===== *)
theory Machine
  imports Kernel_Prelude
begin

text \<open>
  The RISC-V machine as the kernel sees it: the constants of \<^verbatim>\<open>kernel/param.h\<close>,
  \<^verbatim>\<open>kernel/memlayout.h\<close> and \<^verbatim>\<open>kernel/riscv.h\<close>, the control registers of a hart
  with the accessors of \<^verbatim>\<open>riscv.h\<close>, the per-CPU structure of \<^verbatim>\<open>proc.h\<close>, and
  names for the statically allocated objects whose addresses the kernel uses as identities
  (spin locks, sleep locks, sleep channels).
\<close>

section \<open>Parameters\<close>

text \<open>\<^verbatim>\<open>kernel/param.h\<close>\<close>

abbreviation (input) NPROC :: nat where "NPROC \<equiv> 64"
abbreviation (input) NCPU :: nat where "NCPU \<equiv> 8"
abbreviation (input) NOFILE :: nat where "NOFILE \<equiv> 16"
abbreviation (input) NFILE :: nat where "NFILE \<equiv> 100"
abbreviation (input) NINODE :: nat where "NINODE \<equiv> 50"
abbreviation (input) NDEV :: nat where "NDEV \<equiv> 10"
abbreviation (input) ROOTDEV :: uint32 where "ROOTDEV \<equiv> 1"
abbreviation (input) MAXARG :: nat where "MAXARG \<equiv> 32"
abbreviation (input) MAXOPBLOCKS :: nat where "MAXOPBLOCKS \<equiv> 10"
abbreviation (input) LOGSIZE :: nat where "LOGSIZE \<equiv> 30"
abbreviation (input) NBUF :: nat where "NBUF \<equiv> 30"
abbreviation (input) FSSIZE :: nat where "FSSIZE \<equiv> 1000"
abbreviation (input) MAXPATH :: nat where "MAXPATH \<equiv> 128"

text \<open>\<^verbatim>\<open>kernel/riscv.h\<close>: pages and page-table entries.\<close>

abbreviation (input) PGSIZE :: uint64 where "PGSIZE \<equiv> 4096"
abbreviation (input) PGSHIFT :: nat where "PGSHIFT \<equiv> 12"

definition PGROUNDUP :: "uint64 \<Rightarrow> uint64" where
  "PGROUNDUP sz = (sz + PGSIZE - 1) AND NOT (PGSIZE - 1)"

definition PGROUNDDOWN :: "uint64 \<Rightarrow> uint64" where
  "PGROUNDDOWN a = a AND NOT (PGSIZE - 1)"

abbreviation (input) PTE_V :: uint64 where "PTE_V \<equiv> 1"
abbreviation (input) PTE_R :: uint64 where "PTE_R \<equiv> 2"
abbreviation (input) PTE_W :: uint64 where "PTE_W \<equiv> 4"
abbreviation (input) PTE_X :: uint64 where "PTE_X \<equiv> 8"
abbreviation (input) PTE_U :: uint64 where "PTE_U \<equiv> 16"

definition PA2PTE :: "uint64 \<Rightarrow> uint64" where
  "PA2PTE pa = push_bit 10 (drop_bit 12 pa)"

definition PTE2PA :: "uint64 \<Rightarrow> uint64" where
  "PTE2PA pte = push_bit 12 (drop_bit 10 pte)"

definition PTE_FLAGS :: "uint64 \<Rightarrow> uint64" where
  "PTE_FLAGS pte = pte AND 0x3FF"

definition PX :: "nat \<Rightarrow> uint64 \<Rightarrow> uint64" where
  "PX level va = drop_bit (PGSHIFT + 9 * level) va AND 0x1FF"

definition MAXVA :: uint64 where
  "MAXVA = push_bit (9 + 9 + 9 + 12 - 1) 1"

definition MAKE_SATP :: "uint64 \<Rightarrow> uint64" where
  "MAKE_SATP pagetable = push_bit 60 8 OR drop_bit 12 pagetable"

text \<open>\<^verbatim>\<open>kernel/memlayout.h\<close>\<close>

abbreviation (input) UART0 :: uint64 where "UART0 \<equiv> 0x10000000"
abbreviation (input) VIRTIO0 :: uint64 where "VIRTIO0 \<equiv> 0x10001000"
abbreviation (input) CLINT :: uint64 where "CLINT \<equiv> 0x2000000"
abbreviation (input) PLIC :: uint64 where "PLIC \<equiv> 0x0c000000"
abbreviation (input) KERNBASE :: uint64 where "KERNBASE \<equiv> 0x80000000"

definition PHYSTOP :: uint64 where
  "PHYSTOP = KERNBASE + 128 * 1024 * 1024"

definition TRAMPOLINE :: uint64 where
  "TRAMPOLINE = MAXVA - PGSIZE"

definition TRAPFRAME :: uint64 where
  "TRAPFRAME = TRAMPOLINE - PGSIZE"

definition KSTACK :: "nat \<Rightarrow> uint64" where
  "KSTACK p = TRAMPOLINE - (of_nat p + 1) * 2 * PGSIZE"

section \<open>Names of kernel objects\<close>

text \<open>
  The kernel identifies a lock or a sleep channel by its address. The objects are members
  of static structures (or of a page that holds a pipe), so their addresses are distinct;
  a datatype with one constructor per kind of object stands for them.
\<close>

text \<open>A \<^verbatim>\<open>struct buf *\<close>: one of the list heads or one of the buffers of the cache.\<close>

datatype bufptr = BHead nat | BBuf nat

datatype sleepid = BufSleep bufptr | InodeSleep nat

datatype lockid =
    LockLocks | KmemLock nat | BcacheLock nat | SleepSpin sleepid | ProcLock nat
  | PidLock | WaitLock | TicksLock | ConsLock | UartTxLock | PrLock | FtableLock
  | ItableLock | LogLock | VdiskLock | StatsLock | PipeLock uint64

datatype chan =
    ChSleep sleepid | ChLog | ChProc nat | ChTicks | ChPipeRead uint64
  | ChPipeWrite uint64 | ChConsR | ChUartR | ChDiskFree | ChBuf bufptr

section \<open>The state of the machine\<close>

text \<open>The control and status registers of a hart that the kernel reads or writes.\<close>

record csrs =
  mhartid :: uint64
  mstatus :: uint64
  mepc :: uint64
  medeleg :: uint64
  mideleg :: uint64
  mie :: uint64
  mscratch :: uint64
  mtvec :: uint64
  pmpaddr0 :: uint64
  pmpcfg0 :: uint64
  satp :: uint64
  sstatus :: uint64
  sip :: uint64
  sie :: uint64
  sepc :: uint64
  stvec :: uint64
  scause :: uint64
  stval :: uint64
  mcounteren :: uint64
  sscratch :: uint64
  time :: uint64

text \<open>
  \<^verbatim>\<open>struct cpu\<close> of \<^verbatim>\<open>proc.h\<close> (a process is its index in the process table; the
  saved scheduler context belongs to \<^verbatim>\<open>swtch\<close>, which is assembly), and
  \<^verbatim>\<open>struct spinlock\<close> of \<^verbatim>\<open>spinlock.h\<close> with the counters that \<^verbatim>\<open>LAB_LOCK\<close>
  adds.
\<close>

record cpu =
  cproc :: "nat option"
  noff :: uint32
  intena :: bool

record spinlock =
  locked :: uint32
  lkname :: string
  lkcpu :: "nat option"
  nts :: uint32
  nacq :: uint32

text \<open>
  The part of the state every component needs. \<open>tp\<close> is the thread pointer of the hart
  that runs the thread: its hart id, which \<^verbatim>\<open>start()\<close> puts there. \<open>locktab\<close> is the array
  \<^verbatim>\<open>locks[NLOCK]\<close> of \<^verbatim>\<open>spinlock.c\<close>. Each component extends this record with its
  own variables, so that its functions also run on the states of the components above it.
\<close>

record machine =
  tp :: nat
  csr :: "nat \<Rightarrow> csrs"
  cpus :: "nat \<Rightarrow> cpu"
  locks :: "lockid \<Rightarrow> spinlock"
  locktab :: "nat \<Rightarrow> lockid option"

type_synonym ('s, 'a) K = "(lockid, 's, 'a) comp"

text \<open>The zero-initialised values a C program starts from.\<close>

definition zero_csrs :: csrs where
  "zero_csrs = \<lparr>mhartid = 0, mstatus = 0, mepc = 0, medeleg = 0, mideleg = 0, mie = 0,
     mscratch = 0, mtvec = 0, pmpaddr0 = 0, pmpcfg0 = 0, satp = 0, sstatus = 0, sip = 0,
     sie = 0, sepc = 0, stvec = 0, scause = 0, stval = 0, mcounteren = 0,
     sscratch = 0, time = 0\<rparr>"

definition zero_cpu :: cpu where
  "zero_cpu = \<lparr>cproc = None, noff = 0, intena = False\<rparr>"

definition zero_lock :: spinlock where
  "zero_lock = \<lparr>locked = 0, lkname = [], lkcpu = None, nts = 0, nacq = 0\<rparr>"

lemmas zero_defs = zero_csrs_def zero_cpu_def zero_lock_def

text \<open>
  Following a pointer: a null pointer is not mapped, so the access traps in supervisor mode
  and \<^verbatim>\<open>kerneltrap\<close> panics.
\<close>

definition deref :: "'a option \<Rightarrow> ('s, 'a) K" where
  [kdefs]: "deref p = (case p of Some a \<Rightarrow> ret a | None \<Rightarrow> panic ''kerneltrap'')"

section \<open>Register access\<close>

abbreviation (input) SSTATUS_SPP :: uint64 where "SSTATUS_SPP \<equiv> 0x100"
abbreviation (input) SSTATUS_SPIE :: uint64 where "SSTATUS_SPIE \<equiv> 0x20"
abbreviation (input) SSTATUS_SIE :: uint64 where "SSTATUS_SIE \<equiv> 0x2"

abbreviation mycsr :: "'z machine_scheme \<Rightarrow> csrs" where
  "mycsr s \<equiv> csr s (tp s)"

definition upd_csr :: "(csrs \<Rightarrow> csrs) \<Rightarrow> ('z machine_scheme, unit) K" where
  [kdefs]: "upd_csr f = modify (\<lambda>s. s\<lparr>csr := (csr s)(tp s := f (csr s (tp s)))\<rparr>)"

definition r_sstatus :: "('z machine_scheme, uint64) K" where
  [kdefs]: "r_sstatus = gets (\<lambda>s. sstatus (mycsr s))"

definition w_sstatus :: "uint64 \<Rightarrow> ('z machine_scheme, unit) K" where
  [kdefs]: "w_sstatus x = upd_csr (\<lambda>c. c\<lparr>sstatus := x\<rparr>)"

definition r_mhartid :: "('z machine_scheme, uint64) K" where
  [kdefs]: "r_mhartid = gets (\<lambda>s. mhartid (mycsr s))"

definition r_mstatus :: "('z machine_scheme, uint64) K" where
  [kdefs]: "r_mstatus = gets (\<lambda>s. mstatus (mycsr s))"

definition w_mstatus :: "uint64 \<Rightarrow> ('z machine_scheme, unit) K" where
  [kdefs]: "w_mstatus x = upd_csr (\<lambda>c. c\<lparr>mstatus := x\<rparr>)"

definition w_mepc :: "uint64 \<Rightarrow> ('z machine_scheme, unit) K" where
  [kdefs]: "w_mepc x = upd_csr (\<lambda>c. c\<lparr>mepc := x\<rparr>)"

definition r_sip :: "('z machine_scheme, uint64) K" where
  [kdefs]: "r_sip = gets (\<lambda>s. sip (mycsr s))"

definition w_sip :: "uint64 \<Rightarrow> ('z machine_scheme, unit) K" where
  [kdefs]: "w_sip x = upd_csr (\<lambda>c. c\<lparr>sip := x\<rparr>)"

definition r_sie :: "('z machine_scheme, uint64) K" where
  [kdefs]: "r_sie = gets (\<lambda>s. sie (mycsr s))"

definition w_sie :: "uint64 \<Rightarrow> ('z machine_scheme, unit) K" where
  [kdefs]: "w_sie x = upd_csr (\<lambda>c. c\<lparr>sie := x\<rparr>)"

definition r_mie :: "('z machine_scheme, uint64) K" where
  [kdefs]: "r_mie = gets (\<lambda>s. mie (mycsr s))"

definition w_mie :: "uint64 \<Rightarrow> ('z machine_scheme, unit) K" where
  [kdefs]: "w_mie x = upd_csr (\<lambda>c. c\<lparr>mie := x\<rparr>)"

definition w_sepc :: "uint64 \<Rightarrow> ('z machine_scheme, unit) K" where
  [kdefs]: "w_sepc x = upd_csr (\<lambda>c. c\<lparr>sepc := x\<rparr>)"

definition r_sepc :: "('z machine_scheme, uint64) K" where
  [kdefs]: "r_sepc = gets (\<lambda>s. sepc (mycsr s))"

definition r_medeleg :: "('z machine_scheme, uint64) K" where
  [kdefs]: "r_medeleg = gets (\<lambda>s. medeleg (mycsr s))"

definition w_medeleg :: "uint64 \<Rightarrow> ('z machine_scheme, unit) K" where
  [kdefs]: "w_medeleg x = upd_csr (\<lambda>c. c\<lparr>medeleg := x\<rparr>)"

definition r_mideleg :: "('z machine_scheme, uint64) K" where
  [kdefs]: "r_mideleg = gets (\<lambda>s. mideleg (mycsr s))"

definition w_mideleg :: "uint64 \<Rightarrow> ('z machine_scheme, unit) K" where
  [kdefs]: "w_mideleg x = upd_csr (\<lambda>c. c\<lparr>mideleg := x\<rparr>)"

definition w_stvec :: "uint64 \<Rightarrow> ('z machine_scheme, unit) K" where
  [kdefs]: "w_stvec x = upd_csr (\<lambda>c. c\<lparr>stvec := x\<rparr>)"

definition r_stvec :: "('z machine_scheme, uint64) K" where
  [kdefs]: "r_stvec = gets (\<lambda>s. stvec (mycsr s))"

definition w_mtvec :: "uint64 \<Rightarrow> ('z machine_scheme, unit) K" where
  [kdefs]: "w_mtvec x = upd_csr (\<lambda>c. c\<lparr>mtvec := x\<rparr>)"

definition w_pmpcfg0 :: "uint64 \<Rightarrow> ('z machine_scheme, unit) K" where
  [kdefs]: "w_pmpcfg0 x = upd_csr (\<lambda>c. c\<lparr>pmpcfg0 := x\<rparr>)"

definition w_pmpaddr0 :: "uint64 \<Rightarrow> ('z machine_scheme, unit) K" where
  [kdefs]: "w_pmpaddr0 x = upd_csr (\<lambda>c. c\<lparr>pmpaddr0 := x\<rparr>)"

definition w_satp :: "uint64 \<Rightarrow> ('z machine_scheme, unit) K" where
  [kdefs]: "w_satp x = upd_csr (\<lambda>c. c\<lparr>satp := x\<rparr>)"

definition r_satp :: "('z machine_scheme, uint64) K" where
  [kdefs]: "r_satp = gets (\<lambda>s. satp (mycsr s))"

definition w_sscratch :: "uint64 \<Rightarrow> ('z machine_scheme, unit) K" where
  [kdefs]: "w_sscratch x = upd_csr (\<lambda>c. c\<lparr>sscratch := x\<rparr>)"

definition w_mscratch :: "uint64 \<Rightarrow> ('z machine_scheme, unit) K" where
  [kdefs]: "w_mscratch x = upd_csr (\<lambda>c. c\<lparr>mscratch := x\<rparr>)"

definition r_scause :: "('z machine_scheme, uint64) K" where
  [kdefs]: "r_scause = gets (\<lambda>s. scause (mycsr s))"

definition r_stval :: "('z machine_scheme, uint64) K" where
  [kdefs]: "r_stval = gets (\<lambda>s. stval (mycsr s))"

definition w_mcounteren :: "uint64 \<Rightarrow> ('z machine_scheme, unit) K" where
  [kdefs]: "w_mcounteren x = upd_csr (\<lambda>c. c\<lparr>mcounteren := x\<rparr>)"

definition r_mcounteren :: "('z machine_scheme, uint64) K" where
  [kdefs]: "r_mcounteren = gets (\<lambda>s. mcounteren (mycsr s))"

definition r_time :: "('z machine_scheme, uint64) K" where
  [kdefs]: "r_time = gets (\<lambda>s. time (mycsr s))"

definition r_tp :: "('z machine_scheme, nat) K" where
  [kdefs]: "r_tp = gets tp"

definition intr_on :: "('z machine_scheme, unit) K" where
  [kdefs]: "intr_on = bnd r_sstatus (\<lambda>x. w_sstatus (x OR SSTATUS_SIE))"

definition intr_off :: "('z machine_scheme, unit) K" where
  [kdefs]: "intr_off = bnd r_sstatus (\<lambda>x. w_sstatus (x AND NOT SSTATUS_SIE))"

definition intr_get :: "('z machine_scheme, bool) K" where
  [kdefs]: "intr_get = bnd r_sstatus (\<lambda>x. ret (x AND SSTATUS_SIE \<noteq> 0))"

text \<open>\<^verbatim>\<open>proc.c\<close>: which CPU am I on? \<open>mycpu\<close> reads \<^verbatim>\<open>cpus[cpuid()]\<close>.\<close>

definition cpuid :: "('z machine_scheme, nat) K" where
  [kdefs]: "cpuid = r_tp"

definition mycpu :: "('z machine_scheme, nat) K" where
  [kdefs]: "mycpu = bnd cpuid (\<lambda>id. ret id)"

definition upd_cpu :: "nat \<Rightarrow> (cpu \<Rightarrow> cpu) \<Rightarrow> ('z machine_scheme, unit) K" where
  [kdefs]: "upd_cpu c f = modify (\<lambda>s. s\<lparr>cpus := (cpus s)(c := f (cpus s c))\<rparr>)"

definition upd_lock :: "lockid \<Rightarrow> (spinlock \<Rightarrow> spinlock) \<Rightarrow> ('z machine_scheme, unit) K" where
  [kdefs]: "upd_lock l f = modify (\<lambda>s. s\<lparr>locks := (locks s)(l := f (locks s l))\<rparr>)"

section \<open>Interrupt state\<close>

text \<open>\<open>NOT SSTATUS_SIE\<close> is the numeral \<open>- 3\<close>, which is how the simplifier writes it.\<close>

definition intr_enabled :: "'z machine_scheme \<Rightarrow> bool" where
  "intr_enabled s \<longleftrightarrow> sstatus (mycsr s) AND SSTATUS_SIE \<noteq> 0"

lemma sie_bit_off [simp]: "(x AND - 3) AND 2 = (0 :: uint64)"
  by (simp add: and.assoc)

lemma sie_bit_on [simp]: "(x OR 2) AND 2 = (2 :: uint64)"
  by (simp add: bit.conj_disj_distrib2)

lemma sie_cases: "x AND 2 = 0 \<or> x AND 2 = (2 :: uint64)"
proof (cases "bit x 1")
  case True
  have "x AND 2 = 2"
    by (rule bit_eqI) (use True in \<open>auto simp: bit_and_iff bit_2_iff\<close>)
  then show ?thesis ..
next
  case False
  have "x AND 2 = 0"
    by (rule bit_eqI) (use False in \<open>auto simp: bit_and_iff bit_2_iff\<close>)
  then show ?thesis ..
qed

text \<open>Turning the enable bit off and, when it was on, on again restores the register.\<close>

lemma sie_off_on [simp]: "x AND 2 \<noteq> 0 \<Longrightarrow> (x AND - 3) OR 2 = (x :: uint64)"
  using and_not_or_id [of x 2] sie_cases [of x] by auto

lemma sie_off_id [simp]: "x AND 2 = 0 \<Longrightarrow> x AND - 3 = (x :: uint64)"
  using and_not_id [of x 2] by simp

end
