(* ===== verification/Spinlock.thy ===== *)
theory Spinlock
  imports Machine
begin

text \<open>
  Spin locks, \<^verbatim>\<open>kernel/spinlock.c\<close>: the nesting of interrupt disabling
  (\<^verbatim>\<open>push_off\<close>, \<^verbatim>\<open>pop_off\<close>), \<^verbatim>\<open>acquire\<close>, \<^verbatim>\<open>release\<close>, \<^verbatim>\<open>holding\<close> and the
  table of locks that \<^verbatim>\<open>LAB_LOCK\<close> keeps for its statistics. The lemmas say what each
  call leaves of the state when no other hart competes for the lock, and under which
  conditions a call beside an arbitrary environment is safe; an interleaving of several
  harts is in \<^verbatim>\<open>Lock_Steps\<close>.
\<close>

section \<open>Operations\<close>

abbreviation (input) NLOCK :: nat where "NLOCK \<equiv> 500"

definition push_off :: "('z machine_scheme, unit) K" where
  "push_off =
     bnd intr_get (\<lambda>old.
     thn intr_off (
     bnd mycpu (\<lambda>c.
     bnd (gets (\<lambda>s. noff (cpus s c))) (\<lambda>n.
     thn (whenK (n = 0) (upd_cpu c (\<lambda>cp. cp\<lparr>intena := old\<rparr>))) (
     upd_cpu c (\<lambda>cp. cp\<lparr>noff := noff cp + 1\<rparr>))))))"

definition pop_off :: "('z machine_scheme, unit) K" where
  "pop_off =
     bnd mycpu (\<lambda>c.
     bnd intr_get (\<lambda>i.
     thn (whenK i (panic ''pop_off - interruptible'')) (
     bnd (gets (\<lambda>s. noff (cpus s c))) (\<lambda>n.
     thn (whenK (sint n < 1) (panic ''pop_off'')) (
     thn (upd_cpu c (\<lambda>cp. cp\<lparr>noff := noff cp - 1\<rparr>)) (
     bnd (gets (\<lambda>s. cpus s c)) (\<lambda>cp.
     whenK (noff cp = 0 \<and> intena cp) intr_on)))))))"

definition holding :: "lockid \<Rightarrow> ('z machine_scheme, bool) K" where
  "holding l =
     bnd (gets (\<lambda>s. locked (locks s l))) (\<lambda>lk.
     bnd (gets (\<lambda>s. lkcpu (locks s l))) (\<lambda>owner.
     bnd mycpu (\<lambda>c.
     ret (lk \<noteq> 0 \<and> owner = Some c))))"

text \<open>
  \<^verbatim>\<open>__sync_lock_test_and_set(&lk->locked, 1)\<close>, an atomic swap, and the loop around it.
  Every turn of the loop first lets the other harts run.
\<close>

definition test_and_set :: "lockid \<Rightarrow> ('z machine_scheme, uint32) K" where
  [kdefs]: "test_and_set l =
     bnd (gets (\<lambda>s. locked (locks s l))) (\<lambda>old.
     thn (upd_lock l (\<lambda>lk. lk\<lparr>locked := 1\<rparr>)) (ret old))"

partial_function (option) spin ::
  "lockid \<Rightarrow> (lockid, 'z machine_scheme) env \<Rightarrow> 'z machine_scheme \<Rightarrow>
     ('z machine_scheme, unit) outcome option" where
  "spin l E s =
     bnd (interfere (AtLock l)) (\<lambda>_.
     bnd (test_and_set l) (\<lambda>old.
     if old \<noteq> 0
     then thn (upd_lock l (\<lambda>lk. lk\<lparr>nts := nts lk + 1\<rparr>)) (spin l)
     else ret ())) E s"

definition acquire :: "lockid \<Rightarrow> ('z machine_scheme, unit) K" where
  "acquire l =
     thn push_off (
     bnd (holding l) (\<lambda>h.
     thn (whenK h (panic ''acquire'')) (
     thn (upd_lock l (\<lambda>lk. lk\<lparr>nacq := nacq lk + 1\<rparr>)) (
     thn (spin l) (
     bnd mycpu (\<lambda>c.
     upd_lock l (\<lambda>lk. lk\<lparr>lkcpu := Some c\<rparr>)))))))"

definition release :: "lockid \<Rightarrow> ('z machine_scheme, unit) K" where
  "release l =
     bnd (holding l) (\<lambda>h.
     thn (whenK (\<not> h) (panic ''release'')) (
     thn (upd_lock l (\<lambda>lk. lk\<lparr>lkcpu := None\<rparr>)) (
     thn (upd_lock l (\<lambda>lk. lk\<lparr>locked := 0\<rparr>)) (
     pop_off))))"

text \<open>The table of locks.\<close>

definition upd_locktab :: "nat \<Rightarrow> lockid option \<Rightarrow> ('z machine_scheme, unit) K" where
  [kdefs]: "upd_locktab i v = modify (\<lambda>s. s\<lparr>locktab := (locktab s)(i := v)\<rparr>)"

definition freelock :: "lockid \<Rightarrow> ('z machine_scheme, unit) K" where
  "freelock l =
     thn (acquire LockLocks) (
     thn (findK [0..<NLOCK] (\<lambda>i.
            bnd (gets (\<lambda>s. locktab s i)) (\<lambda>x.
            if x = Some l then thn (upd_locktab i None) (ret (Some ())) else ret None))) (
     release LockLocks))"

definition findslot :: "lockid \<Rightarrow> ('z machine_scheme, unit) K" where
  "findslot l =
     thn (acquire LockLocks) (
     bnd (findK [0..<NLOCK] (\<lambda>i.
            bnd (gets (\<lambda>s. locktab s i)) (\<lambda>x.
            if x = None
            then thn (upd_locktab i (Some l)) (thn (release LockLocks) (ret (Some ())))
            else ret None))) (\<lambda>r.
     case r of Some _ \<Rightarrow> ret () | None \<Rightarrow> panic ''findslot''))"

definition initlock :: "lockid \<Rightarrow> string \<Rightarrow> ('z machine_scheme, unit) K" where
  "initlock l name =
     thn (upd_lock l (\<lambda>lk. lk\<lparr>lkname := name\<rparr>)) (
     thn (upd_lock l (\<lambda>lk. lk\<lparr>locked := 0\<rparr>)) (
     thn (upd_lock l (\<lambda>lk. lk\<lparr>lkcpu := None\<rparr>)) (
     thn (upd_lock l (\<lambda>lk. lk\<lparr>nts := 0\<rparr>)) (
     thn (upd_lock l (\<lambda>lk. lk\<lparr>nacq := 0\<rparr>)) (
     findslot l)))))"

section \<open>What one call does to the state\<close>

text \<open>The effect of each call, as a function on states.\<close>

definition pushed :: "'z machine_scheme \<Rightarrow> 'z machine_scheme" where
  "pushed s = s\<lparr>
     csr := (csr s)(tp s := (mycsr s)\<lparr>sstatus := sstatus (mycsr s) AND NOT SSTATUS_SIE\<rparr>),
     cpus := (cpus s)(tp s := (cpus s (tp s))\<lparr>
       intena := (if noff (cpus s (tp s)) = 0 then intr_enabled s
                  else intena (cpus s (tp s))),
       noff := noff (cpus s (tp s)) + 1\<rparr>)\<rparr>"

definition popped :: "'z machine_scheme \<Rightarrow> 'z machine_scheme" where
  "popped s = s\<lparr>
     csr := (if noff (cpus s (tp s)) = 1 \<and> intena (cpus s (tp s))
             then (csr s)(tp s := (mycsr s)\<lparr>sstatus := sstatus (mycsr s) OR SSTATUS_SIE\<rparr>)
             else csr s),
     cpus := (cpus s)(tp s := (cpus s (tp s))\<lparr>noff := noff (cpus s (tp s)) - 1\<rparr>)\<rparr>"

definition held :: "'z machine_scheme \<Rightarrow> lockid \<Rightarrow> bool" where
  "held s l \<longleftrightarrow> locked (locks s l) \<noteq> 0 \<and> lkcpu (locks s l) = Some (tp s)"

text \<open>
  What \<^verbatim>\<open>spinlock.c\<close> keeps true of a CPU: interrupts are off inside a \<^verbatim>\<open>push_off\<close>, and the
  nesting depth, a 32-bit \<^verbatim>\<open>int\<close>, has room for \<open>n\<close> more calls. The kernel never nests deeper
  than a few calls; the depth is far from its bound in every state with \<open>cpu_ok\<close>.
\<close>

definition cpu_room :: "nat \<Rightarrow> 'z machine_scheme \<Rightarrow> bool" where
  "cpu_room n s \<longleftrightarrow> unat (noff (cpus s (tp s))) + n < 2 ^ 31 \<and> (noff (cpus s (tp s)) \<noteq> 0 \<longrightarrow> \<not> intr_enabled s)"

abbreviation cpu_ok :: "'z machine_scheme \<Rightarrow> bool" where
  "cpu_ok \<equiv> cpu_room 8"

lemma cpu_room_less [simp]:
  "cpu_room 8 s \<Longrightarrow> cpu_room 7 s" "cpu_room 7 s \<Longrightarrow> cpu_room 6 s" "cpu_room 6 s \<Longrightarrow> cpu_room 5 s"
  "cpu_room 5 s \<Longrightarrow> cpu_room 4 s" "cpu_room 4 s \<Longrightarrow> cpu_room 3 s" "cpu_room 3 s \<Longrightarrow> cpu_room 2 s"
  "cpu_room 2 s \<Longrightarrow> cpu_room (Suc 0) s" "cpu_room (Suc (Suc 0)) s = cpu_room 2 s"
  by (simp_all add: cpu_room_def numeral_2_eq_2)

lemma noff_Suc:
  assumes "cpu_room (Suc n) s"
  shows "unat (noff (cpus s (tp s)) + 1) = Suc (unat (noff (cpus s (tp s))))" "noff (cpus s (tp s)) + 1 \<noteq> 0"
    "0 < sint (noff (cpus s (tp s)) + 1)"
proof -
  let ?n = "noff (cpus s (tp s))"
  have b: "Suc (unat ?n) < 2 ^ 31" using assms by (simp add: cpu_room_def)
  then show u: "unat (?n + 1) = Suc (unat ?n)" by (simp add: unat_word_ariths)
  then show nz: "?n + 1 \<noteq> 0" by (metis nat.distinct(1) unat_0)
  show "0 < sint (?n + 1)" using nz u b by (intro sint32_pos) simp_all
qed

lemma push_off_eq: "push_off E s = Some (Ret () (pushed s))"
  by (auto simp: push_off_def kdefs pushed_def intr_enabled_def
      intro!: machine.equality cpu.equality)

lemma pop_off_eq:
  "\<not> intr_enabled s \<Longrightarrow> 0 < sint (noff (cpus s (tp s))) \<Longrightarrow> pop_off E s = Some (Ret () (popped s))"
  by (auto simp: pop_off_def kdefs popped_def intr_enabled_def
      intro!: machine.equality cpu.equality)

lemma holding_eq: "holding l E s = Some (Ret (held s l) s)"
  by (simp add: holding_def kdefs held_def)

lemma tp_pushed [simp]: "tp (pushed s) = tp s"
  and locks_pushed [simp]: "locks (pushed s) = locks s"
  and locktab_pushed [simp]: "locktab (pushed s) = locktab s"
  and noff_pushed [simp]: "noff (cpus (pushed s) (tp s)) = noff (cpus s (tp s)) + 1"
  and more_pushed [simp]: "machine.more (pushed s) = machine.more s"
  by (simp_all add: pushed_def)

lemma intr_enabled_pushed [simp]: "\<not> intr_enabled (pushed s)"
  by (simp add: intr_enabled_def pushed_def)

lemma held_pushed [simp]: "held (pushed s) = held s"
  by (rule ext) (simp add: held_def)

lemma cpu_room_pushed [simp]: "cpu_room (Suc n) s \<Longrightarrow> cpu_room n (pushed s)"
  using noff_Suc [of n s] by (simp add: cpu_room_def)

lemma tp_popped [simp]: "tp (popped s) = tp s"
  and locks_popped [simp]: "locks (popped s) = locks s"
  and locktab_popped [simp]: "locktab (popped s) = locktab s"
  and noff_popped [simp]: "noff (cpus (popped s) (tp s)) = noff (cpus s (tp s)) - 1"
  and more_popped [simp]: "machine.more (popped s) = machine.more s"
  by (simp_all add: popped_def)

text \<open>A matching pair gives the register back; only \<open>intena\<close> may have been rewritten.\<close>

lemma csr_popped_pushed: "cpu_room n s \<Longrightarrow> csr (popped (pushed s)) = csr s"
proof -
  assume ok: "cpu_room n s"
  show ?thesis
  proof (cases "noff (cpus s (tp s)) = 0 \<and> intr_enabled s")
    case True
    then show ?thesis
      by (simp add: popped_def pushed_def sie_off_on intr_enabled_def)
  next
    case False
    then have "\<not> intr_enabled s"
      using ok by (auto simp: cpu_room_def)
    with False ok show ?thesis
      by (auto simp: popped_def pushed_def sie_off_id intr_enabled_def cpu_room_def)
  qed
qed

section \<open>Acquire and release with no competition\<close>

text \<open>Nobody else moves while this hart waits for a lock.\<close>

definition uncontended :: "(lockid, 'z machine_scheme) env \<Rightarrow> bool" where
  "uncontended E \<longleftrightarrow> (\<forall>l s. E (AtLock l) s = Some s)"

definition acquired :: "lockid \<Rightarrow> 'z machine_scheme \<Rightarrow> 'z machine_scheme" where
  "acquired l s = (pushed s)\<lparr>locks := (locks s)(l := (locks s l)\<lparr>
     nacq := nacq (locks s l) + 1, locked := 1, lkcpu := Some (tp s)\<rparr>)\<rparr>"

definition released :: "lockid \<Rightarrow> 'z machine_scheme \<Rightarrow> 'z machine_scheme" where
  "released l s = popped (s\<lparr>locks := (locks s)(l := (locks s l)\<lparr>lkcpu := None, locked := 0\<rparr>)\<rparr>)"

lemmas lockfx = acquired_def released_def pushed_def popped_def

lemma spin_free:
  assumes "uncontended E" "locked (locks s l) = 0"
  shows "spin l E s = Some (Ret () (s\<lparr>locks := (locks s)(l := (locks s l)\<lparr>locked := 1\<rparr>)\<rparr>))"
  using assms by (subst spin.simps) (simp add: kdefs uncontended_def)

lemma acquire_eq:
  assumes "uncontended E" "locked (locks s l) = 0"
  shows "acquire l E s = Some (Ret () (acquired l s))"
  using assms
  by (simp add: acquire_def kdefs push_off_eq holding_eq held_def spin_free acquired_def)

lemma acquire_panic: "held s l \<Longrightarrow> acquire l E s = Some (Panic ''acquire'')"
  by (simp add: acquire_def kdefs push_off_eq holding_eq)

lemma release_eq:
  assumes "held s l" "\<not> intr_enabled s" "0 < sint (noff (cpus s (tp s)))"
  shows "release l E s = Some (Ret () (released l s))"
  using assms
  by (simp add: release_def kdefs holding_eq released_def pop_off_eq intr_enabled_def)

lemma release_panic: "\<not> held s l \<Longrightarrow> release l E s = Some (Panic ''release'')"
  by (simp add: release_def kdefs holding_eq)

lemma pop_off_panic:
  "pop_off E s = Some (Panic msg)"
  if "msg = (if intr_enabled s then ''pop_off - interruptible'' else ''pop_off'')"
    "intr_enabled s \<or> sint (noff (cpus s (tp s))) < 1" for msg
  using that by (auto simp: pop_off_def kdefs intr_enabled_def)

lemma release_pop_off:
  assumes "held s l"
  shows "release l E s =
    (if intr_enabled s then Some (Panic ''pop_off - interruptible'')
     else if sint (noff (cpus s (tp s))) < 1 then Some (Panic ''pop_off'')
     else Some (Ret () (released l s)))"
  using assms release_eq [of s l E]
  by (auto simp: release_def kdefs holding_eq pop_off_panic intr_enabled_def)

text \<open>Spinning on a lock that nobody releases never ends.\<close>

lemma spin_stuck:
  assumes "uncontended E" "locked (locks s l) \<noteq> 0"
  shows "spin l E s = None"
proof (rule ccontr)
  assume "spin l E s \<noteq> None"
  then obtain r where r: "spin l E s = Some r" by blast
  have "uncontended E \<longrightarrow> locked (locks s l) = 0"
  proof (rule spin.raw_induct
      [where P = "\<lambda>l E s r. uncontended E \<longrightarrow> locked (locks s l) = 0", OF _ r])
    fix f l E s r
    assume IH: "\<And>l E s r. f l E s = Some r \<Longrightarrow> uncontended E \<longrightarrow> locked (locks s l) = 0"
      and step: "bnd (interfere (AtLock l)) (\<lambda>_. bnd (test_and_set l) (\<lambda>old.
        if old \<noteq> 0 then thn (upd_lock l (\<lambda>lk. lk\<lparr>nts := nts lk + 1\<rparr>)) (f l) else ret ())) E s = Some r"
    show "uncontended E \<longrightarrow> locked (locks s l) = 0"
    proof (rule ccontr)
      assume "\<not> (uncontended E \<longrightarrow> locked (locks s l) = 0)"
      then have u: "uncontended E" and l: "locked (locks s l) \<noteq> 0" by auto
      then show False
        using step IH [of l E] by (fastforce simp: kdefs uncontended_def split: option.splits outcome.splits)
    qed
  qed
  with assms show False by simp
qed

lemma acquire_stuck:
  assumes "uncontended E" "locked (locks s l) \<noteq> 0" "\<not> held s l"
  shows "acquire l E s = None"
  using assms
  by (simp add: acquire_def kdefs push_off_eq holding_eq spin_stuck)

section \<open>Frames\<close>

text \<open>
  Two states whose locks and CPUs agree but for what a balanced use of locks may leave
  behind: lock statistics and the value of \<open>intena\<close> outside any \<^verbatim>\<open>push_off\<close>.
\<close>

definition lk_same :: "'z machine_scheme \<Rightarrow> 'z machine_scheme \<Rightarrow> bool" where
  "lk_same s t \<longleftrightarrow>
     tp t = tp s \<and> csr t = csr s \<and> locktab t = locktab s \<and>
     (\<forall>c. noff (cpus t c) = noff (cpus s c) \<and> cproc (cpus t c) = cproc (cpus s c) \<and>
          (noff (cpus s c) \<noteq> 0 \<longrightarrow> intena (cpus t c) = intena (cpus s c))) \<and>
     (\<forall>l. locked (locks t l) = locked (locks s l) \<and> lkname (locks t l) = lkname (locks s l) \<and>
          (locked (locks s l) \<noteq> 0 \<longrightarrow> lkcpu (locks t l) = lkcpu (locks s l)))"

lemma lk_same_refl [simp]: "lk_same s s"
  by (simp add: lk_same_def)

lemma lk_same_trans [trans]: "lk_same s t \<Longrightarrow> lk_same t u \<Longrightarrow> lk_same s u"
  by (simp add: lk_same_def)

lemma lk_same_tp: "lk_same s t \<Longrightarrow> tp t = tp s"
  by (simp add: lk_same_def)

lemma lk_same_locked: "lk_same s t \<Longrightarrow> locked (locks t l) = locked (locks s l)"
  by (simp add: lk_same_def)

lemma lk_same_held: "lk_same s t \<Longrightarrow> held t l = held s l"
  by (auto simp: lk_same_def held_def)

lemma lk_same_cproc: "lk_same s t \<Longrightarrow> cproc (cpus t c) = cproc (cpus s c)"
  by (simp add: lk_same_def)

lemma lk_same_noff: "lk_same s t \<Longrightarrow> noff (cpus t c) = noff (cpus s c)"
  by (simp add: lk_same_def)

lemma lk_same_intr: "lk_same s t \<Longrightarrow> intr_enabled t = intr_enabled s"
  by (simp add: lk_same_def intr_enabled_def)

lemma lk_same_cpu_ok: "lk_same s t \<Longrightarrow> cpu_room n s \<Longrightarrow> cpu_room n t"
  by (simp add: cpu_room_def lk_same_noff lk_same_tp lk_same_intr)

lemmas lk_same_simps = lk_same_tp lk_same_locked lk_same_held lk_same_cproc lk_same_noff
  lk_same_intr

lemma acquired_simps [simp]:
  "tp (acquired l s) = tp s" "held (acquired l s) l"
  "\<not> intr_enabled (acquired l s)" "locktab (acquired l s) = locktab s"
  "noff (cpus (acquired l s) (tp s)) = noff (cpus s (tp s)) + 1"
  "machine.more (acquired l s) = machine.more s"
  "k \<noteq> l \<Longrightarrow> locks (acquired l s) k = locks s k"
  by (simp_all add: lockfx held_def intr_enabled_def)

lemma cpu_ok_acquired: "cpu_room (Suc n) s \<Longrightarrow> cpu_room n (acquired l s)"
  using noff_Suc [of n s] by (simp add: cpu_room_def)

lemma acquired_other [simp]: "k \<noteq> l \<Longrightarrow> held (acquired l s) k = held s k"
  by (simp add: held_def)

lemma released_simps [simp]:
  "tp (released l s) = tp s" "locktab (released l s) = locktab s"
  "machine.more (released l s) = machine.more s"
  by (simp_all add: lockfx)

text \<open>Inside the critical section the lock can be released.\<close>

lemma release_acquired:
  assumes "lk_same (acquired l s) t" "cpu_room 1 s"
  shows "release l E t = Some (Ret () (released l t))"
  using assms noff_Suc [of 0 s] by (intro release_eq) (simp_all add: lk_same_simps)

text \<open>After it, the locks and the CPU are as they were before it.\<close>

lemma lk_same_released:
  assumes same: "lk_same (acquired l s) t" and ok: "cpu_room 1 s" and free: "locked (locks s l) = 0"
  shows "lk_same s (released l t)"
proof -
  let ?c = "cpus s (tp s)"
  have t: "tp t = tp s" "csr t = csr (pushed s)" "locktab t = locktab s"
    "\<And>c. noff (cpus t c) = noff (cpus (pushed s) c)"
    "\<And>c. cproc (cpus t c) = cproc (cpus (pushed s) c)"
    "\<And>c. noff (cpus (pushed s) c) \<noteq> 0 \<Longrightarrow> intena (cpus t c) = intena (cpus (pushed s) c)"
    using same by (simp_all add: lk_same_def acquired_def)
  have n: "noff (cpus t (tp s)) = noff ?c + 1" using t by simp
  have i: "intena (cpus t (tp s)) = intena (cpus (pushed s) (tp s))"
    using t(6) [of "tp s"] ok noff_Suc [of 0 s] by simp
  have "csr (released l t) = csr (popped (pushed s))"
    using n i t by (simp add: released_def popped_def)
  then have csr: "csr (released l t) = csr s"
    using csr_popped_pushed [OF ok] by simp
  have lk: "locked (locks (released l t) k) = locked (locks s k)
      \<and> lkname (locks (released l t) k) = lkname (locks s k)
      \<and> (locked (locks s k) \<noteq> 0 \<longrightarrow> lkcpu (locks (released l t) k) = lkcpu (locks s k))" for k
    using same free unfolding lk_same_def
    by (cases "k = l") (auto simp: released_def acquired_def dest: spec [where x = k])
  have cp: "noff (cpus (released l t) c) = noff (cpus s c)
      \<and> cproc (cpus (released l t) c) = cproc (cpus s c)
      \<and> (noff (cpus s c) \<noteq> 0 \<longrightarrow> intena (cpus (released l t) c) = intena (cpus s c))" for c
    using t(1,4,5) t(6) [of c] n noff_Suc(2) [of 0 s] ok by (auto simp: released_def popped_def pushed_def)
  show ?thesis
    unfolding lk_same_def using t csr lk cp by simp
qed

lemma cpus_popped_pushed:
  "noff (cpus (popped (pushed s)) c) = noff (cpus s c)"
  "cproc (cpus (popped (pushed s)) c) = cproc (cpus s c)"
  "noff (cpus s c) \<noteq> 0 \<Longrightarrow> intena (cpus (popped (pushed s)) c) = intena (cpus s c)"
  by (auto simp: popped_def pushed_def)

lemma lk_same_popped_pushed: "cpu_room n s \<Longrightarrow> lk_same s (popped (pushed s))"
  by (simp add: lk_same_def csr_popped_pushed cpus_popped_pushed)

lemma cpu_ok_popped_pushed: "cpu_room n s \<Longrightarrow> cpu_room n (popped (pushed s))"
  by (metis lk_same_popped_pushed lk_same_cpu_ok)

text \<open>Opening and closing a critical section, from any state with the same locks.\<close>

lemma lk_same_section:
  assumes "lk_same s s'" "cpu_room 1 s" "locked (locks s l) = 0" "lk_same (acquired l s') t"
  shows "lk_same s (released l t)"
proof -
  have "cpu_room 1 s'" "locked (locks s' l) = 0"
    using assms lk_same_cpu_ok by (auto simp: lk_same_simps)
  then show ?thesis
    using lk_same_released [OF assms(4)] lk_same_trans [OF assms(1)] by blast
qed

section \<open>Weakest preconditions\<close>

lemma returns_push_off [kwp]: "returns E s push_off Q = Q () (pushed s)"
  by (simp add: returns_def push_off_eq)

lemma returns_cpuid [kwp]: "returns E s cpuid Q = Q (tp s) s"
  by (simp add: cpuid_def r_tp_def kwp)

lemma returns_mycpu [kwp]: "returns E s mycpu Q = Q (tp s) s"
  by (simp add: mycpu_def kwp)

lemma returns_pop_off:
  "\<not> intr_enabled s \<Longrightarrow> 0 < sint (noff (cpus s (tp s))) \<Longrightarrow> returns E s pop_off Q = Q () (popped s)"
  by (simp add: returns_def pop_off_eq)

lemma returns_acquire:
  "uncontended E \<Longrightarrow> locked (locks s l) = 0 \<Longrightarrow> returns E s (acquire l) Q = Q () (acquired l s)"
  by (simp add: returns_def acquire_eq)

lemma returns_release:
  "lk_same (acquired l s) t \<Longrightarrow> cpu_room 1 s \<Longrightarrow> returns E t (release l) Q = Q () (released l t)"
  by (simp add: returns_def release_acquired)

text \<open>Reading \<^verbatim>\<open>cpuid()\<close> between \<^verbatim>\<open>push_off\<close> and \<^verbatim>\<open>pop_off\<close>.\<close>

lemma returns_pop_pushed:
  "cpu_room 1 s \<Longrightarrow> returns E (pushed s) pop_off Q = Q () (popped (pushed s))"
  using noff_Suc [of 0 s] by (intro returns_pop_off) simp_all

section \<open>The table of locks\<close>

text \<open>A lock was put into a slot of the table that was empty, and is free.\<close>

definition lock_inited :: "lockid \<Rightarrow> 'z machine_scheme \<Rightarrow> 'z machine_scheme \<Rightarrow> bool" where
  "lock_inited l s t \<longleftrightarrow>
     (\<exists>j lk. j < NLOCK \<and> locktab s j = None \<and> locked lk = 0 \<and>
        lk_same (s\<lparr>locks := (locks s)(l := lk), locktab := (locktab s)(j \<mapsto> l)\<rparr>) t) \<and>
     machine.more t = machine.more s"

lemma returns_findslot:
  assumes E: "uncontended E" and cpu: "cpu_room 1 s" and free: "locked (locks s LockLocks) = 0"
    and slot: "j < NLOCK" "locktab s j = None"
  shows "returns E s (findslot l) (\<lambda>_ t. machine.more t = machine.more s \<and>
    (\<exists>j<NLOCK. locktab s j = None \<and> lk_same (s\<lparr>locktab := (locktab s)(j \<mapsto> l)\<rparr>) t))"
proof -
  define i where "i = (LEAST j. locktab s j = None)"
  have i: "locktab s i = None" "i < NLOCK" and before: "\<And>k. k < i \<Longrightarrow> (locktab s k = None) = False"
    unfolding i_def using slot LeastI [of "\<lambda>j. locktab s j = None"] Least_le [of "\<lambda>j. locktab s j = None" j]
      not_less_Least by (blast, simp, blast)
  let ?s = "s\<lparr>locktab := (locktab s)(i \<mapsto> l)\<rparr>"
  let ?a = "acquired LockLocks s" and ?t = "acquired LockLocks s\<lparr>locktab := (locktab s)(i \<mapsto> l)\<rparr>"
  have eq: "?t = acquired LockLocks ?s" by (simp add: lockfx intr_enabled_def)
  have cpu': "cpu_room 1 ?s" "locked (locks ?s LockLocks) = 0"
    using cpu free by (simp_all add: cpu_room_def intr_enabled_def)
  have rel: "release LockLocks E ?t = Some (Ret () (released LockLocks ?t))"
    unfolding eq by (rule release_acquired [OF _ cpu'(1)]) simp
  have "findslot l E s = Some (Ret () (released LockLocks ?t))"
    unfolding findslot_def thn_def [of "acquire LockLocks"] bnd_def [of "acquire LockLocks"]
      acquire_eq [OF E free] option.case outcome.case
    unfolding bnd_def [of "findK _ _"]
    by (subst findK_hit [where i = i and a = "()" and t = "released LockLocks ?t"])
      (use i rel in \<open>simp_all add: kdefs before\<close>)
  moreover have "lk_same ?s (released LockLocks ?t)"
    unfolding eq by (rule lk_same_released [OF lk_same_refl cpu'])
  ultimately show ?thesis
    using i by (auto simp: returns_def)
qed

lemma returns_initlock:
  assumes E: "uncontended E" and cpu: "cpu_room 1 s" and free: "locked (locks s LockLocks) = 0"
    and slot: "j < NLOCK" "locktab s j = None" and l: "l \<noteq> LockLocks"
  shows "returns E s (initlock l name) (\<lambda>_ t. lock_inited l s t)"
proof -
  define lk where "lk = (locks s l)\<lparr>lkname := name, locked := 0, lkcpu := None, nts := 0, nacq := 0\<rparr>"
  define s' where "s' = s\<lparr>locks := (locks s)(l := lk)\<rparr>"
  have "returns E s (initlock l name) Q = returns E s' (findslot l) Q" for Q
    by (simp add: initlock_def kwp upd_lock_def s'_def lk_def)
  moreover have "returns E s' (findslot l) (\<lambda>_ t. lock_inited l s t)"
  proof (rule returns_mono [OF returns_findslot [of E s' j l]])
    show "uncontended E" "cpu_room 1 s'" "locked (locks s' LockLocks) = 0" "j < NLOCK" "locktab s' j = None"
      using assms by (simp_all add: s'_def cpu_room_def intr_enabled_def)
  next
    fix r t
    assume t: "machine.more t = machine.more s' \<and>
      (\<exists>j<NLOCK. locktab s' j = None \<and> lk_same (s'\<lparr>locktab := (locktab s')(j \<mapsto> l)\<rparr>) t)"
    then obtain j where "j < NLOCK" "locktab s j = None"
      "lk_same (s\<lparr>locks := (locks s)(l := lk), locktab := (locktab s)(j \<mapsto> l)\<rparr>) t"
      by (auto simp: s'_def)
    then show "lock_inited l s t"
      unfolding lock_inited_def using t
      by (intro conjI exI [of _ j] exI [of _ lk]) (simp_all add: s'_def lk_def)
  qed
  ultimately show ?thesis by simp
qed

section \<open>Nesting\<close>

lemma lk_same_popped:
  assumes same: "lk_same (pushed s) t" and ok: "cpu_room 1 s"
  shows "lk_same s (popped t)"
proof -
  have t: "tp t = tp s" "csr t = csr (pushed s)" "\<And>c. noff (cpus t c) = noff (cpus (pushed s) c)"
    "\<And>c. noff (cpus (pushed s) c) \<noteq> 0 \<Longrightarrow> intena (cpus t c) = intena (cpus (pushed s) c)"
    using same by (simp_all add: lk_same_def)
  have i: "intena (cpus t (tp s)) = intena (cpus (pushed s) (tp s))"
    using t(4) [of "tp s"] ok noff_Suc [of 0 s] by simp
  have "csr (popped t) = csr (popped (pushed s))"
    using t i by (simp add: popped_def)
  then have "csr (popped t) = csr s" using csr_popped_pushed [OF ok] by simp
  moreover have "noff (cpus (popped t) c) = noff (cpus s c)
      \<and> cproc (cpus (popped t) c) = cproc (cpus s c)
      \<and> (noff (cpus s c) \<noteq> 0 \<longrightarrow> intena (cpus (popped t) c) = intena (cpus s c))" for c
    using same t(1,3) t(4) [of c] noff_Suc(2) [of 0 s] ok by (auto simp: lk_same_def popped_def pushed_def)
  ultimately show ?thesis using same by (simp add: lk_same_def)
qed

lemma returns_pop_same:
  "lk_same (pushed s) t \<Longrightarrow> cpu_room 1 s \<Longrightarrow> returns E t pop_off Q = Q () (popped t)"
  using noff_Suc [of 0 s] by (intro returns_pop_off) (simp_all add: lk_same_simps)

lemma returns_forK_append: "returns E s (forK (xs @ ys) b) Q = returns E s (thn (forK xs b) (forK ys b)) Q"
  by (induction xs arbitrary: s) (simp_all add: kwp)

lemma nesting:
  assumes "cpu_room n s"
  shows "returns E s (thn (forK [0..<n] (\<lambda>_. push_off)) (forK [0..<n] (\<lambda>_. pop_off))) (\<lambda>_ t. lk_same s t)"
  using assms
proof (induction n arbitrary: s)
  case 0
  then show ?case by (simp add: kwp)
next
  case (Suc n)
  have room: "cpu_room 1 s" using Suc.prems by (simp add: cpu_room_def)
  have push: "returns E s (forK [0..<Suc n] (\<lambda>_. push_off)) Q
      = returns E (pushed s) (forK [0..<n] (\<lambda>_. push_off)) Q" for Q
  proof -
    have "returns E s (forK (map Suc xs) (\<lambda>_. push_off)) Q = returns E s (forK xs (\<lambda>_. push_off)) Q"
      for xs and s :: "'a machine_scheme"
      by (induction xs arbitrary: s) (simp_all add: kwp)
    then show ?thesis
      unfolding upt_conv_Cons [OF zero_less_Suc] map_Suc_upt [symmetric] by (simp add: kwp)
  qed
  have "returns E (pushed s) (thn (forK [0..<n] (\<lambda>_. push_off)) (forK [0..<n] (\<lambda>_. pop_off)))
      (\<lambda>_ t. lk_same (pushed s) t)"
    using Suc cpu_room_pushed by blast
  then show ?case
    unfolding returns_thn push
    by (rule returns_mono)
      (auto simp: returns_forK_append kwp returns_pop_same [OF _ room]
        elim!: returns_mono intro: lk_same_popped [OF _ room])
qed

section \<open>Properties\<close>

lemma spin_no_panic: "spin l E s \<noteq> Some (Panic msg)"
proof
  assume p: "spin l E s = Some (Panic msg)"
  have "(Panic msg :: ('a machine_scheme, unit) outcome) = Panic msg \<longrightarrow> False"
  proof (rule spin.raw_induct [where P = "\<lambda>l E s r. r = Panic msg \<longrightarrow> False", OF _ p])
    fix f l E s r
    assume IH: "\<And>l E s r. f l E s = Some r \<Longrightarrow> r = Panic msg \<longrightarrow> False"
      and step: "bnd (interfere (AtLock l)) (\<lambda>_. bnd (test_and_set l) (\<lambda>old.
        if old \<noteq> 0 then thn (upd_lock l (\<lambda>lk. lk\<lparr>nts := nts lk + 1\<rparr>)) (f l) else ret ())) E s = Some r"
    show "r = Panic msg \<longrightarrow> False"
      using step IH [of l E] by (fastforce simp: kdefs split: option.splits if_splits)
  qed
  then show False by simp
qed

text \<open>C6. \<^verbatim>\<open>push_off\<close> nests: after \<open>n\<close> calls and then \<open>n\<close> calls of \<^verbatim>\<open>pop_off\<close> the
  control registers (so the interrupt-enable bit), the nesting depth and every lock are as
  before, whether interrupts were on or off, from any depth to which \<open>n\<close> can be added without
  leaving the range of the 32-bit \<^verbatim>\<open>int\<close> that counts it. At the end of that range it is not so: one
  more \<^verbatim>\<open>push_off\<close> makes the depth negative, and the matching \<^verbatim>\<open>pop_off\<close> panics.\<close>

theorem push_pop_nesting:
  assumes "cpu_room n s"
  shows "returns E s (thn (forK [0..<n] (\<lambda>_. push_off)) (forK [0..<n] (\<lambda>_. pop_off))) (\<lambda>_ t.
      csr t = csr s \<and> noff (cpus t (tp s)) = noff (cpus s (tp s))
      \<and> intr_enabled t = intr_enabled s \<and> lk_same s t)
    \<and> thn push_off pop_off E (s\<lparr>cpus := (cpus s)(tp s := (cpus s (tp s))\<lparr>noff := 2 ^ 31 - 1\<rparr>)\<rparr>) = Some (Panic ''pop_off'')"
proof
  show "thn push_off pop_off E (s\<lparr>cpus := (cpus s)(tp s := (cpus s (tp s))\<lparr>noff := 2 ^ 31 - 1\<rparr>)\<rparr>) = Some (Panic ''pop_off'')"
    by (simp add: thn_def bnd_def push_off_eq pop_off_panic [where msg = "''pop_off''"] pushed_def intr_enabled_def)
qed (rule returns_mono [OF nesting [OF assms]], auto simp: lk_same_def intr_enabled_def)

text \<open>C7. \<^verbatim>\<open>acquire\<close> panics exactly when this CPU already holds the lock, whatever the other CPUs do and
  in every state. \<^verbatim>\<open>release\<close> panics with its own message exactly when this CPU does not hold the lock; if it does,
  the \<^verbatim>\<open>pop_off\<close> inside panics exactly when interrupts are on or the nesting depth is not positive.\<close>

theorem lock_misuse_panics:
  "((\<exists>msg. acquire l E s = Some (Panic msg)) \<longleftrightarrow> held s l)
    \<and> (acquire l E s = Some (Panic ''acquire'') \<longleftrightarrow> held s l)
    \<and> (release l E s = Some (Panic ''release'') \<longleftrightarrow> \<not> held s l)
    \<and> (release l E s = Some (Panic ''pop_off - interruptible'') \<longleftrightarrow> held s l \<and> intr_enabled s)
    \<and> (release l E s = Some (Panic ''pop_off'') \<longleftrightarrow> held s l \<and> \<not> intr_enabled s \<and> sint (noff (cpus s (tp s))) < 1)
    \<and> ((\<exists>t. release l E s = Some (Ret () t)) \<longleftrightarrow> held s l \<and> \<not> intr_enabled s \<and> 1 \<le> sint (noff (cpus s (tp s))))"
proof -
  have "acquire l E s \<noteq> Some (Panic msg)" if "\<not> held s l" for msg
    using that spin_no_panic [of l E]
    by (auto simp: acquire_def kdefs push_off_eq holding_eq split: option.splits outcome.splits)
  then show ?thesis
    using acquire_panic [of s l E] release_panic [of s l E] release_pop_off [of s l E]
    by (cases "held s l"; cases "intr_enabled s"; cases "sint (noff (cpus s (tp s))) < 1") auto
qed

text \<open>C8. A critical section: with the lock free, the code between \<^verbatim>\<open>acquire\<close> and
  \<^verbatim>\<open>release\<close> runs with the lock held and interrupts off, and if it leaves the locks alone
  then afterwards every lock, the nesting depth and the interrupt state are as before.\<close>

theorem critical_section:
  assumes "uncontended E" "cpu_room 1 s" "locked (locks s l) = 0"
    and body: "\<And>u. held u l \<Longrightarrow> \<not> intr_enabled u \<Longrightarrow> returns E u m (\<lambda>_ t. lk_same u t)"
  shows "returns E s (thn (acquire l) (thn m (release l))) (\<lambda>_ t. lk_same s t)"
proof -
  have "returns E (acquired l s) m (\<lambda>_ t. lk_same (acquired l s) t)" by (rule body) simp_all
  then show ?thesis
    unfolding returns_thn returns_acquire [OF assms(1,3)]
    by (rule returns_mono)
      (simp add: returns_release [OF _ assms(2)] lk_same_released [OF _ assms(2,3)])
qed

text \<open>C9. A CPU that waits for a lock nobody releases neither panics nor returns: it spins for
  ever.\<close>

theorem acquire_waits:
  assumes "uncontended E" "locked (locks s l) \<noteq> 0" "\<not> held s l"
  shows "acquire l E s = None"
  using assms by (rule acquire_stuck)

definition one_hart :: machine where
  "one_hart = \<lparr>tp = 0, csr = (\<lambda>_. zero_csrs\<lparr>sstatus := 2\<rparr>), cpus = (\<lambda>_. zero_cpu),
     locks = (\<lambda>_. zero_lock), locktab = (\<lambda>_. None)\<rparr>"

lemma one_hart_ok: "cpu_ok one_hart"
  by (simp add: one_hart_def cpu_room_def zero_defs)

theorem push_pop_nesting_witness:
  "intr_enabled one_hart \<and> returns (\<lambda>_ s. Some s) one_hart
     (thn (forK [0..<3] (\<lambda>_. push_off)) (forK [0..<3] (\<lambda>_. pop_off))) (\<lambda>_ t. intr_enabled t)"
proof -
  have "intr_enabled one_hart" "cpu_room 3 one_hart" using one_hart_ok by (simp_all add: one_hart_def intr_enabled_def)
  then show ?thesis
    using push_pop_nesting [of 3 one_hart "\<lambda>_ s. Some s"] by (auto elim: returns_mono)
qed

theorem critical_section_witness:
  "returns (\<lambda>_ s. Some s) one_hart (thn (acquire PidLock) (thn (gets tp) (release PidLock)))
     (\<lambda>_ t. lk_same one_hart t)"
  by (rule critical_section) (use one_hart_ok in \<open>simp_all add: uncontended_def kwp\<close>, simp add: one_hart_def zero_defs)

theorem acquire_waits_witness:
  "acquire PidLock (\<lambda>_ s. Some s) (acquired PidLock one_hart\<lparr>tp := 1\<rparr>) = None"
  by (rule acquire_waits) (simp_all add: uncontended_def held_def lockfx one_hart_def)

end
