(* ===== verification/Lock_Steps.thy ===== *)
theory Lock_Steps
  imports Spinlock
begin

text \<open>
  One spin lock and any number of harts, as a transition system at the granularity of the
  single memory accesses of \<^verbatim>\<open>acquire\<close>, \<^verbatim>\<open>release\<close> and \<^verbatim>\<open>holding\<close> in
  \<^verbatim>\<open>kernel/spinlock.c\<close>. Every hart runs \<^verbatim>\<open>acquire\<close>, its critical section and
  \<^verbatim>\<open>release\<close>, again and again; the steps of different harts interleave freely. The
  invariant gives mutual exclusion and that the checks of \<^verbatim>\<open>acquire\<close> and
  \<^verbatim>\<open>release\<close> never fire for harts that keep this discipline.
\<close>

section \<open>Program points and steps\<close>

text \<open>
  Where a hart is: outside; in \<^verbatim>\<open>acquire\<close> about to read \<^verbatim>\<open>lk->locked\<close> or \<^verbatim>\<open>lk->cpu\<close>
  in \<^verbatim>\<open>holding\<close>, to count the call, to swap, to count a failed swap, to record the holder; inside; in
  \<^verbatim>\<open>release\<close> about to read the two fields, to clear the holder, to store 0; or in one of
  the two panics.
\<close>

datatype lpc =
    Out | AcqRead | AcqCpu | AcqCount | AcqSwap | AcqSpin | AcqOwn | Inside
  | RelRead | RelCpu | RelClear | RelStore | PanicAcquire | PanicRelease

record lsys =
  lk :: spinlock
  pcs :: "nat \<Rightarrow> lpc"

definition goto :: "nat \<Rightarrow> lpc \<Rightarrow> lsys \<Rightarrow> lsys" where
  "goto h pc s = s\<lparr>pcs := (pcs s)(h := pc)\<rparr>"

definition upd_lk :: "(spinlock \<Rightarrow> spinlock) \<Rightarrow> lsys \<Rightarrow> lsys" where
  "upd_lk f s = s\<lparr>lk := f (lk s)\<rparr>"

inductive lstep :: "nat \<Rightarrow> lsys \<Rightarrow> lsys \<Rightarrow> bool" for h where
  enter: "pcs s h = Out \<Longrightarrow> lstep h s (goto h AcqRead s)"
| acq_read: "pcs s h = AcqRead \<Longrightarrow>
    lstep h s (goto h (if locked (lk s) \<noteq> 0 then AcqCpu else AcqCount) s)"
| acq_cpu: "pcs s h = AcqCpu \<Longrightarrow>
    lstep h s (goto h (if lkcpu (lk s) = Some h then PanicAcquire else AcqCount) s)"
| acq_count: "pcs s h = AcqCount \<Longrightarrow>
    lstep h s (goto h AcqSwap (upd_lk (\<lambda>l. l\<lparr>nacq := nacq l + 1\<rparr>) s))"
| acq_swap_busy: "pcs s h = AcqSwap \<Longrightarrow> locked (lk s) \<noteq> 0 \<Longrightarrow>
    lstep h s (goto h AcqSpin (upd_lk (\<lambda>l. l\<lparr>locked := 1\<rparr>) s))"
| acq_spin: "pcs s h = AcqSpin \<Longrightarrow>
    lstep h s (goto h AcqSwap (upd_lk (\<lambda>l. l\<lparr>nts := nts l + 1\<rparr>) s))"
| acq_swap_free: "pcs s h = AcqSwap \<Longrightarrow> locked (lk s) = 0 \<Longrightarrow>
    lstep h s (goto h AcqOwn (upd_lk (\<lambda>l. l\<lparr>locked := 1\<rparr>) s))"
| acq_own: "pcs s h = AcqOwn \<Longrightarrow>
    lstep h s (goto h Inside (upd_lk (\<lambda>l. l\<lparr>lkcpu := Some h\<rparr>) s))"
| leave: "pcs s h = Inside \<Longrightarrow> lstep h s (goto h RelRead s)"
| rel_read: "pcs s h = RelRead \<Longrightarrow>
    lstep h s (goto h (if locked (lk s) \<noteq> 0 then RelCpu else PanicRelease) s)"
| rel_cpu: "pcs s h = RelCpu \<Longrightarrow>
    lstep h s (goto h (if lkcpu (lk s) = Some h then RelClear else PanicRelease) s)"
| rel_clear: "pcs s h = RelClear \<Longrightarrow>
    lstep h s (goto h RelStore (upd_lk (\<lambda>l. l\<lparr>lkcpu := None\<rparr>) s))"
| rel_store: "pcs s h = RelStore \<Longrightarrow>
    lstep h s (goto h Out (upd_lk (\<lambda>l. l\<lparr>locked := 0\<rparr>) s))"

inductive_cases lstep_elim: "lstep h s t"

text \<open>All interleavings from a freshly initialised lock.\<close>

inductive lreach :: "lsys \<Rightarrow> bool" where
  init: "lreach \<lparr>lk = zero_lock\<lparr>lkname := name\<rparr>, pcs = (\<lambda>_. Out)\<rparr>"
| step: "lreach s \<Longrightarrow> lstep h s t \<Longrightarrow> lreach t"

section \<open>The invariant\<close>

text \<open>The hart's swap returned 0 and it has not stored 0 since; and: it is the recorded holder.\<close>

fun has_lock :: "lpc \<Rightarrow> bool" where
  "has_lock AcqOwn = True"
| "has_lock Inside = True"
| "has_lock RelRead = True"
| "has_lock RelCpu = True"
| "has_lock RelClear = True"
| "has_lock RelStore = True"
| "has_lock _ = False"

fun is_owner :: "lpc \<Rightarrow> bool" where
  "is_owner Inside = True"
| "is_owner RelRead = True"
| "is_owner RelCpu = True"
| "is_owner RelClear = True"
| "is_owner _ = False"

fun panicked :: "lpc \<Rightarrow> bool" where
  "panicked PanicAcquire = True"
| "panicked PanicRelease = True"
| "panicked _ = False"

definition linv :: "lsys \<Rightarrow> bool" where
  "linv s \<longleftrightarrow>
     (\<forall>h. \<not> panicked (pcs s h)) \<and>
     (\<forall>h k. has_lock (pcs s h) \<and> has_lock (pcs s k) \<longrightarrow> h = k) \<and>
     (locked (lk s) = 0 \<longleftrightarrow> (\<forall>h. \<not> has_lock (pcs s h))) \<and>
     (\<forall>h. lkcpu (lk s) = Some h \<longleftrightarrow> is_owner (pcs s h))"

lemma linv_init: "linv \<lparr>lk = zero_lock\<lparr>lkname := name\<rparr>, pcs = (\<lambda>_. Out)\<rparr>"
  by (simp add: linv_def zero_lock_def)

lemmas linv_simps = linv_def goto_def upd_lk_def

lemma owner_has_lock: "is_owner pc \<Longrightarrow> has_lock pc"
  by (cases pc) simp_all

lemma linv_other: "linv s \<Longrightarrow> has_lock (pcs s h) \<Longrightarrow> k \<noteq> h \<Longrightarrow> \<not> has_lock (pcs s k) \<and> \<not> is_owner (pcs s k)"
  unfolding linv_def using owner_has_lock by blast

lemma linv_locked: "linv s \<Longrightarrow> has_lock (pcs s h) \<Longrightarrow> locked (lk s) \<noteq> 0"
  unfolding linv_def by blast

text \<open>Steps that change neither the lock nor who has it.\<close>

lemma linv_goto:
  assumes "linv s" "has_lock pc = has_lock (pcs s h)" "is_owner pc = is_owner (pcs s h)" "\<not> panicked pc"
    and "locked (f (lk s)) = 0 \<longleftrightarrow> locked (lk s) = 0" "lkcpu (f (lk s)) = lkcpu (lk s)"
  shows "linv (goto h pc (upd_lk f s))"
  using assms by (simp add: linv_simps fun_upd_def) metis

lemma upd_lk_id: "upd_lk (\<lambda>l. l) s = s"
  by (simp add: upd_lk_def)

lemma goto_id: "goto h (pcs s h) s = s"
  by (simp add: goto_def)

lemmas linv_goto' = linv_goto [where f = "\<lambda>l. l", unfolded upd_lk_id, simplified]

lemma linv_step:
  assumes inv: "linv s" and step: "lstep h s t"
  shows "linv t"
  using step
proof cases
  case acq_cpu
  then have "lkcpu (lk s) \<noteq> Some h" using inv by (simp add: linv_def)
  then show ?thesis using acq_cpu inv by (simp add: linv_goto')
next
  case acq_swap_busy
  then show ?thesis using inv by (simp add: linv_goto)
next
  case acq_swap_free
  then have no: "\<not> has_lock (pcs s k)" "\<not> is_owner (pcs s k)" for k
    using inv owner_has_lock [of "pcs s k"] by (auto simp: linv_def)
  then show ?thesis using acq_swap_free inv by (simp add: linv_simps)
next
  case acq_own
  then have no: "\<not> has_lock (pcs s k)" "\<not> is_owner (pcs s k)" if "k \<noteq> h" for k
    using linv_other [OF inv, of h k] that by simp_all
  have "locked (lk s) \<noteq> 0" using linv_locked [OF inv, of h] acq_own by simp
  with no show ?thesis using acq_own inv by (auto simp: linv_simps)
next
  case rel_read
  then have "locked (lk s) \<noteq> 0" using linv_locked [OF inv, of h] by simp
  then show ?thesis using rel_read inv by (simp add: linv_goto')
next
  case rel_cpu
  then have "lkcpu (lk s) = Some h" using inv by (simp add: linv_def)
  then show ?thesis using rel_cpu inv by (simp add: linv_goto')
next
  case rel_clear
  then have no: "\<not> has_lock (pcs s k)" "\<not> is_owner (pcs s k)" if "k \<noteq> h" for k
    using linv_other [OF inv, of h k] that by simp_all
  have "locked (lk s) \<noteq> 0" using linv_locked [OF inv, of h] rel_clear by simp
  with no show ?thesis using rel_clear inv by (auto simp: linv_simps)
next
  case rel_store
  then have no: "\<not> has_lock (pcs s k)" "\<not> is_owner (pcs s k)" if "k \<noteq> h" for k
    using linv_other [OF inv, of h k] that by simp_all
  have "lkcpu (lk s) \<noteq> Some k" for k
    using inv rel_store no by (cases "k = h") (simp_all add: linv_def)
  with no show ?thesis using rel_store inv by (auto simp: linv_simps)
qed (use inv in \<open>simp_all add: linv_goto' linv_goto\<close>)

lemma linv_reach: "lreach s \<Longrightarrow> linv s"
  by (induction rule: lreach.induct) (auto intro: linv_init linv_step)

section \<open>Properties\<close>

text \<open>The hart's own steps from its critical section to the end of \<^verbatim>\<open>release\<close>.\<close>

lemma release_steps:
  assumes inv: "linv s" and h: "pcs s h = Inside"
  shows "\<exists>t. (lstep h ^^ 5) s t \<and> pcs t h = Out \<and> locked (lk t) = 0 \<and> lkcpu (lk t) = None \<and> (\<forall>k. k \<noteq> h \<longrightarrow> pcs t k = pcs s k)"
proof -
  have l: "locked (lk s) \<noteq> 0" "lkcpu (lk s) = Some h"
    using linv_locked [OF inv, of h] h inv by (simp_all add: linv_def)
  let ?a = "goto h RelRead s" and ?b = "goto h RelCpu (goto h RelRead s)"
  let ?c = "goto h RelClear ?b"
  let ?d = "goto h RelStore (upd_lk (\<lambda>l. l\<lparr>lkcpu := None\<rparr>) ?c)"
  let ?e = "goto h Out (upd_lk (\<lambda>l. l\<lparr>locked := 0\<rparr>) ?d)"
  note d = goto_def upd_lk_def
  have "lstep h s ?a" using h by (rule lstep.leave)
  moreover have "lstep h ?a ?b" using lstep.rel_read [of ?a h] l by (simp add: d)
  moreover have "lstep h ?b ?c" using lstep.rel_cpu [of ?b h] l by (simp add: d)
  moreover have "lstep h ?c ?d" by (rule lstep.rel_clear) (simp add: d)
  moreover have "lstep h ?d ?e" by (rule lstep.rel_store) (simp add: d)
  ultimately have "(lstep h ^^ 5) s ?e" by (auto simp: eval_nat_numeral relcompp_apply)
  then show ?thesis by (intro exI [of _ ?e]) (simp add: d)
qed

text \<open>C1. Mutual exclusion: in every state that an interleaving of the harts' memory accesses can reach,
  no check of \<^verbatim>\<open>acquire\<close> or \<^verbatim>\<open>release\<close> has panicked; at most one hart is past a successful swap
  and before the store of 0 in \<^verbatim>\<open>release\<close>; \<^verbatim>\<open>lk->locked\<close> is 0 exactly when there is no such hart;
  \<^verbatim>\<open>lk->cpu\<close> names a hart exactly from the end of its \<^verbatim>\<open>acquire\<close> until its \<^verbatim>\<open>release\<close> clears the
  field; and a hart in its critical section gets out of it and frees the lock with five steps of its own.\<close>

theorem spinlock_mutual_exclusion:
  assumes "lreach s"
  shows "(\<forall>h. \<not> panicked (pcs s h))
    \<and> (\<forall>h k. has_lock (pcs s h) \<and> has_lock (pcs s k) \<longrightarrow> h = k)
    \<and> (locked (lk s) = 0 \<longleftrightarrow> (\<forall>h. \<not> has_lock (pcs s h)))
    \<and> (\<forall>h. lkcpu (lk s) = Some h \<longleftrightarrow> is_owner (pcs s h))
    \<and> (\<forall>h. pcs s h = Inside \<longrightarrow> (\<exists>t. (lstep h ^^ 5) s t \<and> pcs t h = Out \<and> locked (lk t) = 0))"
proof -
  have inv: "linv s" using assms by (rule linv_reach)
  then have "\<forall>h. pcs s h = Inside \<longrightarrow> (\<exists>t. (lstep h ^^ 5) s t \<and> pcs t h = Out \<and> locked (lk t) = 0)"
    using release_steps [OF inv] by blast
  with inv show ?thesis by (simp add: linv_def)
qed

text \<open>Hart 1 enters while hart 2 spins.\<close>

lemma two_harts_run:
  "\<exists>s. lreach s \<and> pcs s 1 = Inside \<and> pcs s 2 = AcqSwap"
proof -
  have r0: "lreach \<lparr>lk = zero_lock, pcs = (\<lambda>_. Out)\<rparr>" (is "lreach ?s0")
    using lreach.init [of "[]"] by (simp add: zero_lock_def)
  let ?s1 = "goto 2 AcqCount (goto 2 AcqRead ?s0)"
  let ?s2 = "goto 2 AcqSwap (upd_lk (\<lambda>l. l\<lparr>nacq := nacq l + 1\<rparr>) ?s1)"
  let ?s3 = "goto 1 AcqCount (goto 1 AcqRead ?s2)"
  let ?s4 = "goto 1 AcqSwap (upd_lk (\<lambda>l. l\<lparr>nacq := nacq l + 1\<rparr>) ?s3)"
  let ?s5 = "goto 1 AcqOwn (upd_lk (\<lambda>l. l\<lparr>locked := 1\<rparr>) ?s4)"
  let ?s6 = "goto 1 Inside (upd_lk (\<lambda>l. l\<lparr>lkcpu := Some 1\<rparr>) ?s5)"
  note d = goto_def upd_lk_def zero_lock_def
  have "lreach (goto 2 AcqRead ?s0)" by (rule lreach.step [OF r0 lstep.enter]) simp
  from lreach.step [OF this lstep.acq_read [of _ 2]] have "lreach ?s1" by (simp add: d)
  from lreach.step [OF this lstep.acq_count [of _ 2]] have r2: "lreach ?s2" by (simp add: d)
  have "lreach (goto 1 AcqRead ?s2)" by (rule lreach.step [OF r2 lstep.enter]) (simp add: d)
  from lreach.step [OF this lstep.acq_read [of _ 1]] have "lreach ?s3" by (simp add: d)
  from lreach.step [OF this lstep.acq_count [of _ 1]] have "lreach ?s4" by (simp add: d)
  from lreach.step [OF this lstep.acq_swap_free [of _ 1]] have "lreach ?s5" by (simp add: d)
  from lreach.step [OF this lstep.acq_own [of _ 1]] have "lreach ?s6" by (simp add: d)
  moreover have "pcs ?s6 1 = Inside" "pcs ?s6 2 = AcqSwap" by (simp_all add: d)
  ultimately show ?thesis by blast
qed

theorem spinlock_mutual_exclusion_witness:
  "\<exists>s. lreach s \<and> pcs s 1 = Inside \<and> pcs s 2 = AcqSwap \<and> locked (lk s) \<noteq> 0 \<and> lkcpu (lk s) = Some 1
     \<and> (\<exists>t. (lstep 1 ^^ 5) s t \<and> pcs t 1 = Out)"
proof -
  obtain s where s: "lreach s" "pcs s 1 = Inside" "pcs s 2 = AcqSwap" using two_harts_run by blast
  then have "has_lock (pcs s 1)" "is_owner (pcs s 1)" by simp_all
  with s spinlock_mutual_exclusion [OF s(1)] show ?thesis by blast
qed

end
