(* ===== verification/Memory.thy ===== *)
theory Memory
  imports Machine
begin

text \<open>
  Bytes and words in memory. A \<open>memory\<close> gives a byte for every address; multi-byte
  integers are little-endian, as on RISC-V. \<open>copied\<close> is the effect of moving a run of
  bytes within one memory, \<open>blit\<close> from one object into another.
\<close>

section \<open>Little-endian integers\<close>

fun load_le :: "nat \<Rightarrow> memory \<Rightarrow> uint64 \<Rightarrow> nat" where
  "load_le 0 m a = 0"
| "load_le (Suc k) m a = unat (m a) + 256 * load_le k m (a + 1)"

fun store_le :: "nat \<Rightarrow> memory \<Rightarrow> uint64 \<Rightarrow> nat \<Rightarrow> memory" where
  "store_le 0 m a v = m"
| "store_le (Suc k) m a v = store_le k (m(a := of_nat (v mod 256))) (a + 1) (v div 256)"

definition load16 :: "memory \<Rightarrow> uint64 \<Rightarrow> uint16" where
  "load16 m a = of_nat (load_le 2 m a)"

definition load32 :: "memory \<Rightarrow> uint64 \<Rightarrow> uint32" where
  "load32 m a = of_nat (load_le 4 m a)"

definition load64 :: "memory \<Rightarrow> uint64 \<Rightarrow> uint64" where
  "load64 m a = of_nat (load_le 8 m a)"

definition store16 :: "memory \<Rightarrow> uint64 \<Rightarrow> uint16 \<Rightarrow> memory" where
  "store16 m a v = store_le 2 m a (unat v)"

definition store32 :: "memory \<Rightarrow> uint64 \<Rightarrow> uint32 \<Rightarrow> memory" where
  "store32 m a v = store_le 4 m a (unat v)"

definition store64 :: "memory \<Rightarrow> uint64 \<Rightarrow> uint64 \<Rightarrow> memory" where
  "store64 m a v = store_le 8 m a (unat v)"

section \<open>Moving bytes\<close>

definition copied :: "uint64 \<Rightarrow> uint64 \<Rightarrow> nat \<Rightarrow> memory \<Rightarrow> memory" where
  "copied dst src n m = (\<lambda>a. if unat (a - dst) < n then m (src + (a - dst)) else m a)"

definition blit :: "memory \<Rightarrow> uint64 \<Rightarrow> memory \<Rightarrow> uint64 \<Rightarrow> nat \<Rightarrow> memory" where
  "blit dm dst sm src n = (\<lambda>a. if unat (a - dst) < n then sm (src + (a - dst)) else dm a)"

text \<open>The bytes of a run, in order, and a run written from a list.\<close>

definition bytes_at :: "memory \<Rightarrow> uint64 \<Rightarrow> nat \<Rightarrow> uint8 list" where
  "bytes_at m a n = map (\<lambda>i. m (a + of_nat i)) [0..<n]"

definition write_bytes :: "memory \<Rightarrow> uint64 \<Rightarrow> uint8 list \<Rightarrow> memory" where
  "write_bytes m a bs = (\<lambda>x. if unat (x - a) < length bs then bs ! unat (x - a) else m x)"

text \<open>The object representation of an integer.\<close>

definition bytes16 :: "uint16 \<Rightarrow> uint8 list" where
  "bytes16 x = map (\<lambda>i. ucast (drop_bit (8 * i) x)) [0..<2]"

definition bytes32 :: "uint32 \<Rightarrow> uint8 list" where
  "bytes32 x = map (\<lambda>i. ucast (drop_bit (8 * i) x)) [0..<4]"

definition bytes64 :: "uint64 \<Rightarrow> uint8 list" where
  "bytes64 x = map (\<lambda>i. ucast (drop_bit (8 * i) x)) [0..<8]"

section \<open>Lemmas\<close>

lemma unat_of_nat64 [simp]: "n < 2 ^ 64 \<Longrightarrow> unat (of_nat n :: uint64) = n"
  by (simp add: unat_of_nat take_bit_nat_eq_self)

lemma unat_less64: "unat (a :: uint64) < 2 ^ 64"
  using unsigned_less [of a] by simp

lemma unat_less16: "unat (a :: uint16) < 2 ^ 16"
  using unsigned_less [of a] by simp

lemma unat_less8: "unat (a :: uint8) < 256"
  using unsigned_less [of a] by simp

lemma word64_eqI: "unat a = unat b \<Longrightarrow> a = (b :: uint64)"
  by (rule unsigned_word_eqI)

lemma unat_add64: "unat a + unat b < 2 ^ 64 \<Longrightarrow> unat (a + b :: uint64) = unat a + unat b"
  by (simp add: unat_word_ariths)

lemma offset_diff [simp]: "(a + d) - a = (d :: uint64)"
  by simp

lemma unat_diff_Suc:
  fixes x a :: uint64
  assumes "x \<noteq> a"
  shows "unat (x - a) = Suc (unat (x - (a + 1)))"
proof -
  have "x - a \<noteq> 0" using assms by simp
  then have "unat (x - a) = Suc (unat (x - a - 1))"
    by (metis Suc_pred' unat_gt_0 unat_minus_one)
  then show ?thesis by (simp add: diff_diff_eq)
qed

lemma unat_diff_self_Suc: "unat (a - (a + 1 :: uint64)) = 2 ^ 64 - 1"
  by (simp add: unsigned_minus_1_eq_mask mask_eq_exp_minus_1)

lemma load_le_cong:
  assumes "\<And>i. i < k \<Longrightarrow> m (a + of_nat i) = m' (a + of_nat i)"
  shows "load_le k m a = load_le k m' a"
  using assms
proof (induction k arbitrary: a)
  case (Suc k)
  have "load_le k m (a + 1) = load_le k m' (a + 1)"
  proof (rule Suc.IH)
    fix i assume "i < k"
    then show "m (a + 1 + of_nat i) = m' (a + 1 + of_nat i)"
      using Suc.prems [of "Suc i"] by (simp add: add.assoc)
  qed
  moreover have "m a = m' a"
    using Suc.prems [of 0] by simp
  ultimately show ?case by simp
qed simp

lemma store_le_other: "k \<le> unat (x - a) \<Longrightarrow> store_le k m a v x = m x"
proof (induction k arbitrary: m a v)
  case (Suc k)
  then have "x \<noteq> a" by auto
  then show ?case
    using Suc unat_diff_Suc [of x a] by simp
qed simp

lemma load_le_store_le:
  assumes "k \<le> 2 ^ 64"
  shows "load_le k (store_le k m a v) a = v mod 256 ^ k"
  using assms
proof (induction k arbitrary: m a v)
  case (Suc k)
  let ?m = "m(a := of_nat (v mod 256))"
  have "store_le k ?m (a + 1) (v div 256) a = of_nat (v mod 256)"
  proof (rule trans [OF store_le_other])
    show "k \<le> unat (a - (a + 1))"
      unfolding unat_diff_self_Suc using Suc.prems by simp
  qed simp
  moreover have "load_le k (store_le k ?m (a + 1) (v div 256)) (a + 1) = v div 256 mod 256 ^ k"
    using Suc by simp
  ultimately show ?case
    by (simp add: unat_of_nat take_bit_nat_eq_self mod_mult2_eq)
qed simp

lemma load_le_less: "load_le k m a < 256 ^ k"
proof (induction k arbitrary: a)
  case (Suc k)
  have "unat (m a) < 256" by (rule unat_less8)
  with Suc [of "a + 1"] show ?case by simp
qed simp

lemma load64_store64 [simp]: "load64 (store64 m a v) a = v"
proof -
  have "unat v < 256 ^ 8" using unat_less64 [of v] by simp
  then show ?thesis by (simp add: load64_def store64_def load_le_store_le)
qed

lemma load32_store32 [simp]: "load32 (store32 m a v) a = v"
proof -
  have "unat v < 256 ^ 4" using unat_less32 [of v] by simp
  then show ?thesis by (simp add: load32_def store32_def load_le_store_le)
qed

lemma load16_store16 [simp]: "load16 (store16 m a v) a = v"
proof -
  have "unat v < 256 ^ 2" using unat_less16 [of v] by simp
  then show ?thesis by (simp add: load16_def store16_def load_le_store_le)
qed

lemma load64_cong:
  "(\<And>i. i < 8 \<Longrightarrow> m (a + of_nat i) = m' (a + of_nat i)) \<Longrightarrow> load64 m a = load64 m' a"
  unfolding load64_def by (metis load_le_cong)

lemma store64_other: "8 \<le> unat (x - a) \<Longrightarrow> store64 m a v x = m x"
  by (simp add: store64_def store_le_other)

lemma store32_other: "4 \<le> unat (x - a) \<Longrightarrow> store32 m a v x = m x"
  by (simp add: store32_def store_le_other)

lemma store16_other: "2 \<le> unat (x - a) \<Longrightarrow> store16 m a v x = m x"
  by (simp add: store16_def store_le_other)

lemma length_bytes_at [simp]: "length (bytes_at m a n) = n"
  by (simp add: bytes_at_def)

lemma bytes_at_write_bytes:
  "length bs < 2 ^ 64 \<Longrightarrow> bytes_at (write_bytes m a bs) a (length bs) = bs"
  by (rule nth_equalityI) (simp_all add: bytes_at_def write_bytes_def)

section \<open>Pages\<close>

lemma and_not_mask_eq: "a AND NOT (mask n) = push_bit n (drop_bit n (a :: 'a::len word))"
  by (rule bit_eqI) (auto simp: bit_simps)

lemma page_round: "a AND - 4096 = push_bit 12 (drop_bit 12 (a :: uint64))"
  using and_not_mask_eq [of a 12] minus_exp_eq_not_mask [of 12, where 'a = uint64] by simp

lemma take_bit_unat64 [simp]: "take_bit 64 (unat (a :: uint64)) = unat a"
  using unat_less64 [of a] by (simp add: take_bit_nat_eq_self)

lemma unat_and_page: "unat (a AND - 4096 :: uint64) = unat a div 4096 * 4096"
proof -
  have "unat (push_bit 12 (drop_bit 12 a)) = take_bit 64 (push_bit 12 (drop_bit 12 (unat a)))"
    by (simp add: unsigned_push_bit_eq unsigned_drop_bit_eq)
  also have "\<dots> = take_bit 64 (unat a div 4096 * 4096)"
    by (simp add: push_bit_eq_mult drop_bit_eq_div)
  also have "\<dots> = unat a div 4096 * 4096"
  proof (rule take_bit_nat_eq_self)
    have "unat a div 4096 * 4096 \<le> unat a" by simp
    also have "unat a < 2 ^ 64" by (rule unat_less64)
    finally show "unat a div 4096 * 4096 < 2 ^ 64" .
  qed
  finally show ?thesis by (simp add: page_round)
qed

lemma unat_PGROUNDDOWN: "unat (PGROUNDDOWN a) = unat a div 4096 * 4096"
  by (simp add: PGROUNDDOWN_def unat_and_page)

lemma unat_PGROUNDUP:
  assumes "unat a + 4095 < 2 ^ 64"
  shows "unat (PGROUNDUP a) = (unat a + 4095) div 4096 * 4096"
proof -
  have "unat (a + 4095) = unat a + 4095"
    using assms unat_add64 [of a 4095] by simp
  moreover have "PGROUNDUP a = (a + 4095) AND - 4096"
    by (simp add: PGROUNDUP_def add.commute)
  ultimately show ?thesis by (simp add: unat_and_page)
qed

text \<open>The start of a page, and the page an address is in.\<close>

definition aligned :: "uint64 \<Rightarrow> bool" where
  "aligned p \<longleftrightarrow> p mod PGSIZE = 0"

lemma aligned_unat: "aligned p \<longleftrightarrow> unat p mod 4096 = 0"
proof -
  have "unat (p mod 4096) = unat p mod 4096" by (simp add: unat_mod)
  then show ?thesis by (metis aligned_def unat_0 unat_eq_zero)
qed

lemma aligned_PGROUNDDOWN [simp]: "aligned (PGROUNDDOWN a)"
  by (simp add: aligned_unat unat_PGROUNDDOWN)

lemma PGROUNDDOWN_aligned: "aligned p \<Longrightarrow> PGROUNDDOWN p = p"
  by (rule word64_eqI) (auto simp: aligned_unat unat_PGROUNDDOWN)

lemma PGROUNDDOWN_eq_iff: "aligned p \<Longrightarrow> PGROUNDDOWN a = p \<longleftrightarrow> unat (a - p) < 4096"
proof
  assume p: "aligned p" and eq: "PGROUNDDOWN a = p"
  have u: "unat p = unat a div 4096 * 4096" using eq unat_PGROUNDDOWN [of a] by simp
  have "unat p \<le> unat a" unfolding u by simp
  then have "unat (a - p) = unat a - unat p"
    by (simp add: unat_sub word_le_nat_alt)
  also have "\<dots> = unat a mod 4096"
    unfolding u by (simp add: minus_div_mult_eq_mod)
  finally show "unat (a - p) < 4096" by simp
next
  assume p: "aligned p" and lt: "unat (a - p) < 4096"
  obtain k where k: "unat p = 4096 * k"
    using p by (auto simp: aligned_unat)
  have "unat p < 2 ^ 64" by (rule unat_less64)
  with k have "k < 2 ^ 52" by simp
  then have "unat p + unat (a - p) < 2 ^ 64" using k lt by simp
  then have "unat (p + (a - p)) = unat p + unat (a - p)"
    by (rule unat_add64)
  then have "unat a div 4096 * 4096 = unat p"
    using k lt by simp
  then show "PGROUNDDOWN a = p"
    by (intro word64_eqI) (simp add: unat_PGROUNDDOWN)
qed

lemma page_offset [simp]: "aligned p \<Longrightarrow> i < 4096 \<Longrightarrow> PGROUNDDOWN (p + of_nat i) = p"
  by (simp add: PGROUNDDOWN_eq_iff)

text \<open>Two different pages share no address.\<close>

lemma pages_disjoint:
  assumes "aligned p" "aligned q" "p \<noteq> q" "i < 4096"
  shows "4096 \<le> unat ((p + of_nat i) - q)"
  using assms PGROUNDDOWN_eq_iff [of q "p + of_nat i"] by fastforce

section \<open>Signed 32-bit numbers\<close>

lemma sint_neg32:
  assumes "sint (xx :: uint32) < 0"
  shows "uint (- xx) = - sint xx"
proof -
  have u: "uint xx < 2 ^ 32" "0 \<le> uint xx" using uint_bounded [of xx] by simp_all
  then have big: "\<not> uint xx < 2 ^ 31" using assms by (auto simp: sint_cases32)
  have "uint (- xx) = (- uint xx) mod 2 ^ 32"
    by (simp add: uint_word_arith_bintrs(4) take_bit_eq_mod)
  also have "\<dots> = 2 ^ 32 - uint xx"
    using u big by (simp add: zmod_zminus1_eq_if)
  finally show ?thesis using big by (simp add: sint_cases32)
qed

lemma sint_nonneg32:
  assumes "\<not> sint (xx :: uint32) < 0"
  shows "uint xx = sint xx"
  using assms uint_bounded [of xx] by (auto simp: sint_cases32 split: if_splits)

lemma unat_minus_pos64:
  fixes a b :: uint64
  shows "a = b \<or> unat (a - b) + unat (b - a) = 2 ^ 64"
proof -
  let ?n = "unat (a - b) + unat (b - a)"
  have "unat ((a - b) + (b - a)) = ?n mod 2 ^ 64" by (simp only: unat_word_ariths) simp
  then have "2 ^ 64 dvd ?n" by (simp add: dvd_eq_mod_eq_0)
  moreover have "?n < 2 * 2 ^ 64" using unat_less64 [of "a - b"] unat_less64 [of "b - a"] by simp
  ultimately have "?n = 0 \<or> ?n = 2 ^ 64"
    by (elim dvdE) (simp, linarith)
  then show ?thesis by (auto simp: unat_eq_zero)
qed

end
