(* ===== verification/Assembly.thy ===== *)
theory Assembly
  imports Memory
begin

text \<open>
  The assembly code of the kernel (\<^verbatim>\<open>kernel/entry.S\<close>, \<^verbatim>\<open>kernel/swtch.S\<close>, \<^verbatim>\<open>kernel/trampoline.S\<close>,
  \<^verbatim>\<open>kernel/kernelvec.S\<close>) as lists of RISC-V instructions with a function that executes them on the
  registers and the memory of a hart. The address translation of the hart is a parameter \<open>tr\<close>: it takes
  the register \<^verbatim>\<open>satp\<close> and a virtual address.
\<close>

section \<open>Instructions\<close>

datatype reg =
    RA | SP | GP | TP | T0 | T1 | T2 | T3 | T4 | T5 | T6
  | S0 | S1 | S2 | S3 | S4 | S5 | S6 | S7 | S8 | S9 | S10 | S11
  | A0 | A1 | A2 | A3 | A4 | A5 | A6 | A7

datatype csrname = Sscratch | Satp | Mscratch | Sip | Mhartid

text \<open>
  The instructions the files use. A constant of \<open>LA\<close> is the address of a symbol; \<open>CALL f r\<close> jumps to
  \<open>f\<close> and leaves the address \<open>r\<close> behind the call in \<^verbatim>\<open>ra\<close>.
\<close>

datatype instr =
    SD reg nat reg | LD reg nat reg | LI reg uint64 | LA reg uint64
  | ADDI reg reg uint64 | ADD reg reg reg | MUL reg reg reg
  | CSRR reg csrname | CSRW csrname reg | CSRRW reg csrname reg | SFENCE
  | JR reg | CALL uint64 uint64 | RETURN | SRET | MRET

datatype mode = UMode | SMode | MMode

record hart =
  regs :: "reg \<Rightarrow> uint64"
  hcsr :: csrs
  hmem :: memory
  pc :: uint64
  mode :: mode

fun get_csr :: "csrname \<Rightarrow> csrs \<Rightarrow> uint64" where
  "get_csr Sscratch c = sscratch c"
| "get_csr Satp c = satp c"
| "get_csr Mscratch c = mscratch c"
| "get_csr Sip c = sip c"
| "get_csr Mhartid c = mhartid c"

fun set_csr :: "csrname \<Rightarrow> uint64 \<Rightarrow> csrs \<Rightarrow> csrs" where
  "set_csr Sscratch x c = c\<lparr>sscratch := x\<rparr>"
| "set_csr Satp x c = c\<lparr>satp := x\<rparr>"
| "set_csr Mscratch x c = c\<lparr>mscratch := x\<rparr>"
| "set_csr Sip x c = c\<lparr>sip := x\<rparr>"
| "set_csr Mhartid x c = c\<lparr>mhartid := x\<rparr>"

definition set_reg :: "reg \<Rightarrow> uint64 \<Rightarrow> hart \<Rightarrow> hart" where
  "set_reg r x h = h\<lparr>regs := (regs h)(r := x)\<rparr>"

text \<open>Machine mode uses physical addresses.\<close>

definition translate :: "(uint64 \<Rightarrow> uint64 \<Rightarrow> uint64) \<Rightarrow> hart \<Rightarrow> uint64 \<Rightarrow> uint64" where
  "translate tr h a = (if mode h = MMode then a else tr (satp (hcsr h)) a)"

text \<open>
  The return instructions of the privileged architecture: \<^verbatim>\<open>sret\<close> takes the mode from SPP (bit 8) and
  the interrupt enable SIE (bit 1) from SPIE (bit 5), \<^verbatim>\<open>mret\<close> the mode from MPP (bits 11 and 12) and
  MIE (bit 3) from MPIE (bit 7).
\<close>

definition sret :: "hart \<Rightarrow> hart" where
  "sret h =
     (let x = sstatus (hcsr h);
          sie = push_bit 1 (drop_bit 5 x AND 1)
      in h\<lparr>mode := if x AND 0x100 = 0 then UMode else SMode, pc := sepc (hcsr h),
           hcsr := (hcsr h)\<lparr>sstatus := (x AND NOT 0x122) OR sie OR 0x20\<rparr>\<rparr>)"

definition mret :: "hart \<Rightarrow> hart" where
  "mret h =
     (let x = mstatus (hcsr h);
          mpp = drop_bit 11 x AND 3;
          mie = push_bit 3 (drop_bit 7 x AND 1)
      in h\<lparr>mode := if mpp = 0 then UMode else if mpp = 1 then SMode else MMode, pc := mepc (hcsr h),
           hcsr := (hcsr h)\<lparr>mstatus := (x AND NOT 0x1888) OR mie OR 0x80\<rparr>\<rparr>)"

fun exec1 :: "(uint64 \<Rightarrow> uint64 \<Rightarrow> uint64) \<Rightarrow> instr \<Rightarrow> hart \<Rightarrow> hart" where
  "exec1 tr (SD r k b) h =
     h\<lparr>hmem := store64 (hmem h) (translate tr h (regs h b + of_nat k)) (regs h r)\<rparr>"
| "exec1 tr (LD r k b) h = set_reg r (load64 (hmem h) (translate tr h (regs h b + of_nat k))) h"
| "exec1 tr (LI r x) h = set_reg r x h"
| "exec1 tr (LA r x) h = set_reg r x h"
| "exec1 tr (ADDI r a x) h = set_reg r (regs h a + x) h"
| "exec1 tr (ADD r a b) h = set_reg r (regs h a + regs h b) h"
| "exec1 tr (MUL r a b) h = set_reg r (regs h a * regs h b) h"
| "exec1 tr (CSRR r c) h = set_reg r (get_csr c (hcsr h)) h"
| "exec1 tr (CSRW c r) h = h\<lparr>hcsr := set_csr c (regs h r) (hcsr h)\<rparr>"
| "exec1 tr (CSRRW r c a) h =
     set_reg r (get_csr c (hcsr h)) (h\<lparr>hcsr := set_csr c (regs h a) (hcsr h)\<rparr>)"
| "exec1 tr SFENCE h = h"
| "exec1 tr (JR r) h = h\<lparr>pc := regs h r\<rparr>"
| "exec1 tr (CALL f r) h = (set_reg RA r h)\<lparr>pc := f\<rparr>"
| "exec1 tr RETURN h = h\<lparr>pc := regs h RA\<rparr>"
| "exec1 tr SRET h = sret h"
| "exec1 tr MRET h = mret h"

definition run :: "(uint64 \<Rightarrow> uint64 \<Rightarrow> uint64) \<Rightarrow> instr list \<Rightarrow> hart \<Rightarrow> hart" where
  "run tr code h = fold (exec1 tr) code h"

section \<open>The code\<close>

text \<open>\<^verbatim>\<open>entry.S\<close>: \<open>stack0\<close> and \<open>start\<close> are addresses of C symbols, \<open>spin\<close> the label behind the call.\<close>

definition entry_code :: "uint64 \<Rightarrow> uint64 \<Rightarrow> uint64 \<Rightarrow> instr list" where
  "entry_code stack0 start spin = [
     LA SP stack0, LI A0 (1024 * 4), CSRR A1 Mhartid, ADDI A1 A1 1, MUL A0 A0 A1, ADD SP SP A0,
     CALL start spin]"

text \<open>\<^verbatim>\<open>swtch.S\<close>\<close>

definition swtch_code :: "instr list" where
  "swtch_code = [
     SD RA 0 A0, SD SP 8 A0, SD S0 16 A0, SD S1 24 A0, SD S2 32 A0, SD S3 40 A0, SD S4 48 A0,
     SD S5 56 A0, SD S6 64 A0, SD S7 72 A0, SD S8 80 A0, SD S9 88 A0, SD S10 96 A0, SD S11 104 A0,
     LD RA 0 A1, LD SP 8 A1, LD S0 16 A1, LD S1 24 A1, LD S2 32 A1, LD S3 40 A1, LD S4 48 A1,
     LD S5 56 A1, LD S6 64 A1, LD S7 72 A1, LD S8 80 A1, LD S9 88 A1, LD S10 96 A1, LD S11 104 A1,
     RETURN]"

text \<open>\<^verbatim>\<open>trampoline.S\<close>\<close>

definition uservec_code :: "instr list" where
  "uservec_code = [
     CSRRW A0 Sscratch A0,
     SD RA 40 A0, SD SP 48 A0, SD GP 56 A0, SD TP 64 A0, SD T0 72 A0, SD T1 80 A0, SD T2 88 A0,
     SD S0 96 A0, SD S1 104 A0, SD A1 120 A0, SD A2 128 A0, SD A3 136 A0, SD A4 144 A0,
     SD A5 152 A0, SD A6 160 A0, SD A7 168 A0, SD S2 176 A0, SD S3 184 A0, SD S4 192 A0,
     SD S5 200 A0, SD S6 208 A0, SD S7 216 A0, SD S8 224 A0, SD S9 232 A0, SD S10 240 A0,
     SD S11 248 A0, SD T3 256 A0, SD T4 264 A0, SD T5 272 A0, SD T6 280 A0,
     CSRR T0 Sscratch, SD T0 112 A0,
     LD SP 8 A0, LD TP 32 A0, LD T0 16 A0, LD T1 0 A0, CSRW Satp T1, SFENCE,
     JR T0]"

definition userret_code :: "instr list" where
  "userret_code = [
     CSRW Satp A1, SFENCE, LD T0 112 A0, CSRW Sscratch T0,
     LD RA 40 A0, LD SP 48 A0, LD GP 56 A0, LD TP 64 A0, LD T0 72 A0, LD T1 80 A0, LD T2 88 A0,
     LD S0 96 A0, LD S1 104 A0, LD A1 120 A0, LD A2 128 A0, LD A3 136 A0, LD A4 144 A0,
     LD A5 152 A0, LD A6 160 A0, LD A7 168 A0, LD S2 176 A0, LD S3 184 A0, LD S4 192 A0,
     LD S5 200 A0, LD S6 208 A0, LD S7 216 A0, LD S8 224 A0, LD S9 232 A0, LD S10 240 A0,
     LD S11 248 A0, LD T3 256 A0, LD T4 264 A0, LD T5 272 A0, LD T6 280 A0,
     CSRRW A0 Sscratch A0,
     SRET]"

text \<open>
  \<^verbatim>\<open>kernelvec.S\<close>: the code before and behind the call of \<^verbatim>\<open>kerneltrap\<close>, and the handler with the
  called function \<open>f\<close> as an argument.
\<close>

definition kernelvec_save :: "instr list" where
  "kernelvec_save = [
     ADDI SP SP (- 256),
     SD RA 0 SP, SD SP 8 SP, SD GP 16 SP, SD TP 24 SP, SD T0 32 SP, SD T1 40 SP, SD T2 48 SP,
     SD S0 56 SP, SD S1 64 SP, SD A0 72 SP, SD A1 80 SP, SD A2 88 SP, SD A3 96 SP, SD A4 104 SP,
     SD A5 112 SP, SD A6 120 SP, SD A7 128 SP, SD S2 136 SP, SD S3 144 SP, SD S4 152 SP,
     SD S5 160 SP, SD S6 168 SP, SD S7 176 SP, SD S8 184 SP, SD S9 192 SP, SD S10 200 SP,
     SD S11 208 SP, SD T3 216 SP, SD T4 224 SP, SD T5 232 SP, SD T6 240 SP]"

definition kernelvec_restore :: "instr list" where
  "kernelvec_restore = [
     LD RA 0 SP, LD SP 8 SP, LD GP 16 SP, LD T0 32 SP, LD T1 40 SP, LD T2 48 SP, LD S0 56 SP,
     LD S1 64 SP, LD A0 72 SP, LD A1 80 SP, LD A2 88 SP, LD A3 96 SP, LD A4 104 SP, LD A5 112 SP,
     LD A6 120 SP, LD A7 128 SP, LD S2 136 SP, LD S3 144 SP, LD S4 152 SP, LD S5 160 SP,
     LD S6 168 SP, LD S7 176 SP, LD S8 184 SP, LD S9 192 SP, LD S10 200 SP, LD S11 208 SP,
     LD T3 216 SP, LD T4 224 SP, LD T5 232 SP, LD T6 240 SP,
     ADDI SP SP 256,
     SRET]"

definition kernelvec :: "(uint64 \<Rightarrow> uint64 \<Rightarrow> uint64) \<Rightarrow> (hart \<Rightarrow> hart) \<Rightarrow> hart \<Rightarrow> hart" where
  "kernelvec tr f h = run tr kernelvec_restore (f (run tr kernelvec_save h))"

definition timervec_code :: "instr list" where
  "timervec_code = [
     CSRRW A0 Mscratch A0, SD A1 0 A0, SD A2 8 A0, SD A3 16 A0,
     LD A1 24 A0, LD A2 32 A0, LD A3 0 A1, ADD A3 A3 A2, SD A3 0 A1,
     LI A1 2, CSRW Sip A1,
     LD A3 16 A0, LD A2 8 A0, LD A1 0 A0, CSRRW A0 Mscratch A0,
     MRET]"

section \<open>Saving and restoring registers\<close>

text \<open>Two doublewords that do not overlap.\<close>

definition apart :: "uint64 \<Rightarrow> uint64 \<Rightarrow> bool" where
  "apart a b \<longleftrightarrow> 8 \<le> unat (a - b) \<and> 8 \<le> unat (b - a)"

lemma apart_commute: "apart a b \<longleftrightarrow> apart b a"
  by (auto simp: apart_def)

lemma load64_store64_apart:
  assumes "apart a b"
  shows "load64 (store64 m b v) a = load64 m a"
proof (rule load64_cong)
  fix i :: nat
  assume i: "i < 8"
  let ?d = "unat (a - b)"
  have "unat (a - b) + unat (b - a) = 2 ^ 64 \<or> a = b"
    using unat_minus_pos64 [of a b] by blast
  then have "?d + 8 \<le> 2 ^ 64" using assms by (auto simp: apart_def)
  then have "unat ((a - b) + of_nat i) = ?d + i" using i by (subst unat_add64) simp_all
  then have "8 \<le> unat (a + of_nat i - b)" using assms by (simp add: apart_def algebra_simps)
  then show "store64 m b v (a + of_nat i) = m (a + of_nat i)" by (rule store64_other)
qed

lemma apart_offset:
  assumes "i < 2 ^ 63" "j < 2 ^ 63" "i + 8 \<le> j \<or> j + 8 \<le> i"
  shows "apart (a + of_nat i) (a + of_nat j)"
proof -
  have *: "8 \<le> unat ((a + of_nat j) - (a + of_nat i)) \<and> 8 \<le> unat ((a + of_nat i) - (a + of_nat j))"
    if "i < 2 ^ 63" "j < 2 ^ 63" "i + 8 \<le> j" for i j
  proof -
    have "unat ((a + of_nat j) - (a + of_nat i)) = j - i"
      using that by (simp add: of_nat_diff [symmetric] del: of_nat_diff)
    then show ?thesis
      using that unat_minus_pos64 [of "a + of_nat j" "a + of_nat i"] by auto
  qed
  show ?thesis using assms * [of i j] * [of j i] by (auto simp: apart_def)
qed

lemma load64_same_area:
  assumes "\<forall>i < n. m (p + of_nat i) = m' (p + of_nat i)" "j + 8 \<le> n"
  shows "load64 m (p + of_nat j) = load64 m' (p + of_nat j)"
proof (rule load64_cong)
  fix i :: nat
  assume "i < 8"
  then show "m (p + of_nat j + of_nat i) = m' (p + of_nat j + of_nat i)"
    using assms(1) [rule_format, of "j + i"] assms(2) by (simp add: add.assoc)
qed

text \<open>
  A frame lists the registers of a save area with their offsets. \<open>saves\<close> and \<open>loads\<close> are the
  instructions that store and load a frame at the address in a base register.
\<close>

type_synonym frame = "(reg \<times> nat) list"

definition saves :: "reg \<Rightarrow> frame \<Rightarrow> instr list" where
  "saves b fr = map (\<lambda>(r, k). SD r k b) fr"

definition loads :: "reg \<Rightarrow> frame \<Rightarrow> instr list" where
  "loads b fr = map (\<lambda>(r, k). LD r k b) fr"

definition frame_ok :: "nat \<Rightarrow> frame \<Rightarrow> bool" where
  "frame_ok n fr \<longleftrightarrow> n \<le> 4096 \<and> distinct (map fst fr) \<and> sorted_wrt (\<lambda>j k. j + 8 \<le> k) (map snd fr)
     \<and> list_all (\<lambda>k. k + 8 \<le> n) (map snd fr)"

text \<open>The registers \<open>f\<close> with those of a frame read from memory.\<close>

definition restored :: "memory \<Rightarrow> uint64 \<Rightarrow> frame \<Rightarrow> (reg \<Rightarrow> uint64) \<Rightarrow> reg \<Rightarrow> uint64" where
  "restored m p fr f r = (case map_of fr r of Some k \<Rightarrow> load64 m (p + of_nat k) | None \<Rightarrow> f r)"

text \<open>The \<open>n\<close> bytes at the virtual address \<open>a\<close> are physical memory from \<open>p\<close> on.\<close>

definition maps_area :: "(uint64 \<Rightarrow> uint64 \<Rightarrow> uint64) \<Rightarrow> hart \<Rightarrow> nat \<Rightarrow> uint64 \<Rightarrow> uint64 \<Rightarrow> bool" where
  "maps_area tr h n a p \<longleftrightarrow> (\<forall>k < n. translate tr h (a + of_nat k) = p + of_nat k)"

lemma run_simps [simp]:
  "run tr [] h = h"
  "run tr (i # is) h = run tr is (exec1 tr i h)"
  "run tr (is @ js) h = run tr js (run tr is h)"
  by (simp_all add: run_def)

lemma set_reg_simps [simp]:
  "regs (set_reg r x h) = (regs h)(r := x)" "hcsr (set_reg r x h) = hcsr h" "hmem (set_reg r x h) = hmem h"
  "pc (set_reg r x h) = pc h" "mode (set_reg r x h) = mode h" "translate tr (set_reg r x h) = translate tr h"
  by (auto simp: set_reg_def translate_def)

lemma translate_simps [simp]:
  "translate tr (h\<lparr>hmem := m\<rparr>) = translate tr h"
  "translate tr (h\<lparr>regs := f\<rparr>) = translate tr h"
  "translate tr (h\<lparr>pc := x\<rparr>) = translate tr h"
  "satp c = satp (hcsr h) \<Longrightarrow> translate tr (h\<lparr>hcsr := c\<rparr>) = translate tr h"
  by (auto simp: translate_def)

lemma run_saves:
  assumes "maps_area tr h n (regs h b) p" "frame_ok n fr"
  shows "\<exists>m. run tr (saves b fr) h = h\<lparr>hmem := m\<rparr>
    \<and> (\<forall>(r, k) \<in> set fr. load64 m (p + of_nat k) = regs h r)
    \<and> (\<forall>a. (\<forall>(r, k) \<in> set fr. apart a (p + of_nat k)) \<longrightarrow> load64 m a = load64 (hmem h) a)"
  using assms
proof (induction fr arbitrary: h)
  case Nil
  then show ?case by (auto simp: saves_def intro: exI [of _ "hmem h"])
next
  case (Cons x fr)
  obtain r k where x: "x = (r, k)" by (cases x)
  let ?h = "h\<lparr>hmem := store64 (hmem h) (p + of_nat k) (regs h r)\<rparr>"
  have k: "k + 8 \<le> n" "n \<le> 4096" and fr: "frame_ok n fr" and later: "\<forall>(r', j) \<in> set fr. j + 8 \<le> n \<and> k + 8 \<le> j"
    using Cons.prems(2) by (auto simp: frame_ok_def x list_all_iff)
  have step: "exec1 tr (SD r k b) h = ?h" using Cons.prems(1) k by (simp add: maps_area_def)
  have "maps_area tr ?h n (regs ?h b) p" using Cons.prems(1) by (simp add: maps_area_def)
  from Cons.IH [OF this fr] obtain m where
    m: "run tr (saves b fr) ?h = ?h\<lparr>hmem := m\<rparr>" "\<forall>(r, k) \<in> set fr. load64 m (p + of_nat k) = regs h r"
      "\<forall>a. (\<forall>(r, k) \<in> set fr. apart a (p + of_nat k)) \<longrightarrow> load64 m a = load64 (hmem ?h) a"
    by auto
  have "\<forall>(r', j) \<in> set fr. apart (p + of_nat k) (p + of_nat j)"
    using later k by (fastforce intro!: apart_offset)
  then have "load64 m (p + of_nat k) = regs h r" using m(3) by simp
  moreover have "run tr (saves b (x # fr)) h = h\<lparr>hmem := m\<rparr>"
    using m(1) step by (simp add: saves_def x)
  ultimately show ?case
    using m(2,3) by (intro exI [of _ m]) (auto simp: x load64_store64_apart)
qed

lemma run_loads:
  assumes "maps_area tr h n (regs h b) p" "frame_ok n fr"
    and "\<forall>k. (b, k) \<in> set fr \<longrightarrow> load64 (hmem h) (p + of_nat k) = regs h b"
  shows "run tr (loads b fr) h =
    h\<lparr>regs := restored (hmem h) p fr (regs h)\<rparr>"
  using assms
proof (induction fr arbitrary: h)
  case Nil
  have "restored (hmem h) p [] (regs h) = regs h" by (simp add: restored_def fun_eq_iff)
  then show ?case by (simp add: loads_def)
next
  case (Cons x fr)
  obtain r k where x: "x = (r, k)" by (cases x)
  let ?h = "set_reg r (load64 (hmem h) (p + of_nat k)) h"
  have k: "k + 8 \<le> n" "n \<le> 4096" and fr: "frame_ok n fr" and r: "r \<notin> fst ` set fr"
    using Cons.prems(2) by (auto simp: frame_ok_def x list_all_iff)
  have step: "exec1 tr (LD r k b) h = ?h" using Cons.prems(1) k by (simp add: maps_area_def)
  have b: "regs ?h b = regs h b" using Cons.prems(3) by (auto simp: x)
  then have "maps_area tr ?h n (regs ?h b) p" using Cons.prems(1) by (simp add: maps_area_def)
  moreover have "\<forall>k. (b, k) \<in> set fr \<longrightarrow> load64 (hmem ?h) (p + of_nat k) = regs ?h b"
    unfolding b using Cons.prems(3) by (simp add: x)
  ultimately have "run tr (loads b fr) ?h =
    ?h\<lparr>regs := restored (hmem ?h) p fr (regs ?h)\<rparr>"
    by (rule Cons.IH [OF _ fr])
  moreover have "map_of fr r = None" using r by (simp add: map_of_eq_None_iff)
  ultimately show ?case
    using step by (auto simp: loads_def x set_reg_def restored_def fun_eq_iff split: option.splits)
qed

lemma restored_eq:
  assumes "r \<in> fst ` set fr" "\<And>k. (r, k) \<in> set fr \<Longrightarrow> load64 m (p + of_nat k) = x"
  shows "restored m p fr f r = x"
proof -
  obtain k where "map_of fr r = Some k"
    using assms(1) by (cases "map_of fr r") (simp_all add: map_of_eq_None_iff)
  then show ?thesis using assms(2) by (simp add: restored_def map_of_SomeD)
qed

section \<open>Context switches\<close>

definition swtch_frame :: frame where
  "swtch_frame = [(RA, 0), (SP, 8), (S0, 16), (S1, 24), (S2, 32), (S3, 40), (S4, 48), (S5, 56), (S6, 64),
     (S7, 72), (S8, 80), (S9, 88), (S10, 96), (S11, 104)]"

lemma swtch_code_eq: "swtch_code = saves A0 swtch_frame @ loads A1 swtch_frame @ [RETURN]"
  by (simp add: swtch_code_def saves_def loads_def swtch_frame_def)

lemma swtch_frame_ok: "frame_ok 112 swtch_frame"
  by (simp add: frame_ok_def swtch_frame_def)

text \<open>Two areas of \<open>n\<close> bytes that do not overlap.\<close>

definition disjoint_areas :: "nat \<Rightarrow> uint64 \<Rightarrow> uint64 \<Rightarrow> bool" where
  "disjoint_areas n a b \<longleftrightarrow> n \<le> unat (a - b) \<and> n \<le> unat (b - a)"

lemma disjoint_apart:
  assumes "disjoint_areas n a b" "i + 8 \<le> n" "j + 8 \<le> n"
  shows "apart (a + of_nat i) (b + of_nat j)"
proof -
  have *: "8 \<le> unat ((a + of_nat i) - (b + of_nat j))"
    if ab: "n \<le> unat (a - b)" "n \<le> unat (b - a)" and ij: "i + 8 \<le> n" "j + 8 \<le> n" for a b :: uint64 and i j
  proof -
    let ?d = "unat (a - b)"
    have d: "?d + n \<le> 2 ^ 64" using ab ij unat_minus_pos64 [of a b] by auto
    have "(a + of_nat i) - (b + of_nat j) = (a - b) + of_nat i - of_nat j" by simp
    also have "\<dots> = of_nat (?d + i - j)" using ab ij by (simp add: of_nat_diff)
    finally have "unat ((a + of_nat i) - (b + of_nat j)) = ?d + i - j"
      using d ij by simp
    then show ?thesis using ab ij by simp
  qed
  show ?thesis using assms * [of a b i j] * [of b a j i] by (simp add: apart_def disjoint_areas_def)
qed

lemma run_swtch:
  assumes old: "maps_area tr h 112 (regs h A0) c" and new: "maps_area tr h 112 (regs h A1) d"
    and dis: "disjoint_areas 112 c d"
  shows "\<exists>m. run tr swtch_code h =
      h\<lparr>hmem := m, regs := restored (hmem h) d swtch_frame (regs h), pc := load64 (hmem h) d\<rparr>
    \<and> (\<forall>(r, k) \<in> set swtch_frame. load64 m (c + of_nat k) = regs h r)"
proof -
  obtain m where m: "run tr (saves A0 swtch_frame) h = h\<lparr>hmem := m\<rparr>"
      "\<forall>(r, k) \<in> set swtch_frame. load64 m (c + of_nat k) = regs h r"
      "\<forall>a. (\<forall>(r, k) \<in> set swtch_frame. apart a (c + of_nat k)) \<longrightarrow> load64 m a = load64 (hmem h) a"
    using run_saves [OF old swtch_frame_ok] by blast
  have same: "load64 m (d + of_nat k) = load64 (hmem h) (d + of_nat k)" if "(r, k) \<in> set swtch_frame" for r k
  proof -
    have "k + 8 \<le> 112" using that swtch_frame_ok by (auto simp: frame_ok_def list_all_iff)
    then have "\<forall>(r, j) \<in> set swtch_frame. apart (d + of_nat k) (c + of_nat j)"
      using swtch_frame_ok dis
      by (auto simp: frame_ok_def list_all_iff apart_commute [of "d + _"] intro!: disjoint_apart)
    then show ?thesis using m(3) by blast
  qed
  have "run tr (loads A1 swtch_frame) (h\<lparr>hmem := m\<rparr>) = h\<lparr>hmem := m, regs := restored m d swtch_frame (regs h)\<rparr>"
    using new by (subst run_loads [OF _ swtch_frame_ok])
      (auto simp: maps_area_def swtch_frame_def)
  also have "restored m d swtch_frame (regs h)
    = restored (hmem h) d swtch_frame (regs h)"
    by (auto simp: fun_eq_iff restored_def same dest: map_of_SomeD split: option.split)
  finally have "run tr swtch_code h =
      h\<lparr>hmem := m, regs := restored (hmem h) d swtch_frame (regs h), pc := load64 (hmem h) d\<rparr>"
    by (simp add: swtch_code_eq m(1)) (simp add: restored_def swtch_frame_def)
  then show ?thesis using m(2) by blast
qed

section \<open>Traps\<close>

definition user_frame :: frame where
  "user_frame = [(RA, 40), (SP, 48), (GP, 56), (TP, 64), (T0, 72), (T1, 80), (T2, 88), (S0, 96), (S1, 104),
     (A1, 120), (A2, 128), (A3, 136), (A4, 144), (A5, 152), (A6, 160), (A7, 168), (S2, 176), (S3, 184),
     (S4, 192), (S5, 200), (S6, 208), (S7, 216), (S8, 224), (S9, 232), (S10, 240), (S11, 248), (T3, 256),
     (T4, 264), (T5, 272), (T6, 280)]"

lemma user_frame_ok: "frame_ok 288 user_frame"
  by (simp add: frame_ok_def user_frame_def)

lemma uservec_code_eq:
  "uservec_code = CSRRW A0 Sscratch A0 # saves A0 user_frame @
     [CSRR T0 Sscratch, SD T0 112 A0, LD SP 8 A0, LD TP 32 A0, LD T0 16 A0, LD T1 0 A0, CSRW Satp T1, SFENCE, JR T0]"
  by (simp add: uservec_code_def saves_def user_frame_def)

lemma userret_code_eq:
  "userret_code = [CSRW Satp A1, SFENCE, LD T0 112 A0, CSRW Sscratch T0] @ loads A0 user_frame @ [CSRRW A0 Sscratch A0, SRET]"
  by (simp add: userret_code_def loads_def user_frame_def)

lemma run_uservec:
  assumes area: "maps_area tr h 288 (sscratch (hcsr h)) tf"
  shows "let h' = run tr uservec_code h in
    (\<forall>(r, k) \<in> set user_frame. load64 (hmem h') (tf + of_nat k) = regs h r)
    \<and> load64 (hmem h') (tf + 112) = regs h A0
    \<and> regs h' SP = load64 (hmem h) (tf + 8) \<and> regs h' TP = load64 (hmem h) (tf + 32)
    \<and> pc h' = load64 (hmem h) (tf + 16) \<and> satp (hcsr h') = load64 (hmem h) tf"
proof -
  let ?h0 = "exec1 tr (CSRRW A0 Sscratch A0) h"
  have h0: "regs ?h0 A0 = sscratch (hcsr h)" "translate tr ?h0 = translate tr h" "hmem ?h0 = hmem h"
    by simp_all
  have area0: "maps_area tr ?h0 288 (regs ?h0 A0) tf" using area by (simp add: maps_area_def h0)
  obtain m where m: "run tr (saves A0 user_frame) ?h0 = ?h0\<lparr>hmem := m\<rparr>"
      "\<forall>(r, k) \<in> set user_frame. load64 m (tf + of_nat k) = regs ?h0 r"
      "\<forall>a. (\<forall>(r, k) \<in> set user_frame. apart a (tf + of_nat k)) \<longrightarrow> load64 m a = load64 (hmem h) a"
    using run_saves [OF area0 user_frame_ok] by (auto simp: h0(3))
  have at: "translate tr h (sscratch (hcsr h) + of_nat k) = tf + of_nat k" if "k < 288" for k
    using area that by (simp add: maps_area_def)
  have off: "apart (tf + of_nat i) (tf + of_nat j)" if "i < 288" "j < 288" "i + 8 \<le> j \<or> j + 8 \<le> i" for i j
    using that by (intro apart_offset) auto
  have kernel: "load64 m (tf + of_nat i) = load64 (hmem h) (tf + of_nat i)" if "i \<in> {0, 8, 16, 32}" for i
    using that by (intro m(3) [rule_format]) (auto simp: user_frame_def intro!: off)
  have saved: "load64 (store64 m (tf + of_nat 112) x) (tf + of_nat k) = load64 m (tf + of_nat k)"
    if "k \<in> {0, 8, 16, 32} \<union> snd ` set user_frame" for k x
    using that by (intro load64_store64_apart off) (auto simp: user_frame_def)
  have A0: "A0 \<notin> fst ` set user_frame" by (simp add: user_frame_def)
  have user: "\<forall>(r, k) \<in> set user_frame. load64 (store64 m (tf + of_nat 112) x) (tf + of_nat k) = regs h r" for x
  proof clarify
    fix r k
    assume rk: "(r, k) \<in> set user_frame"
    then have "load64 (store64 m (tf + of_nat 112) x) (tf + of_nat k) = load64 m (tf + of_nat k)"
      by (intro saved) force
    also have "\<dots> = regs ?h0 r" using m(2) rk by blast
    finally show "load64 (store64 m (tf + of_nat 112) x) (tf + of_nat k) = regs h r"
      using rk A0 by (auto simp: image_iff)
  qed
  have run: "run tr uservec_code h = run tr [CSRR T0 Sscratch, SD T0 112 A0, LD SP 8 A0, LD TP 32 A0, LD T0 16 A0,
      LD T1 0 A0, CSRW Satp T1, SFENCE, JR T0] (?h0\<lparr>hmem := m\<rparr>)"
    by (simp only: uservec_code_eq run_simps m(1))
  show ?thesis
    unfolding run
    using at [of 112] at [of 8] at [of 32] at [of 16] at [of 0] kernel [of 0] kernel [of 8] kernel [of 16] kernel [of 32]
      saved [of 0] saved [of 8] saved [of 16] saved [of 32] user
    by (simp add: Let_def)
qed

lemma run_userret:
  assumes area: "maps_area tr (h\<lparr>hcsr := (hcsr h)\<lparr>satp := regs h A1\<rparr>\<rparr>) 288 (regs h A0) tf"
  shows "let h' = run tr userret_code h in
    (\<forall>(r, k) \<in> set user_frame. regs h' r = load64 (hmem h) (tf + of_nat k))
    \<and> regs h' A0 = load64 (hmem h) (tf + 112) \<and> sscratch (hcsr h') = regs h A0 \<and> satp (hcsr h') = regs h A1
    \<and> pc h' = sepc (hcsr h) \<and> (mode h' = UMode \<longleftrightarrow> sstatus (hcsr h) AND 0x100 = 0)"
proof -
  let ?h0 = "run tr [CSRW Satp A1, SFENCE, LD T0 112 A0, CSRW Sscratch T0] h"
  let ?h1 = "?h0\<lparr>regs := restored (hmem ?h0) tf user_frame (regs ?h0)\<rparr>"
  have at: "translate tr (h\<lparr>hcsr := (hcsr h)\<lparr>satp := regs h A1\<rparr>\<rparr>) (regs h A0 + 112) = tf + 112"
    using area [unfolded maps_area_def, rule_format, of 112] by simp
  have h0: "regs ?h0 A0 = regs h A0" "hmem ?h0 = hmem h" "sscratch (hcsr ?h0) = load64 (hmem h) (tf + 112)"
    "satp (hcsr ?h0) = regs h A1" "sepc (hcsr ?h0) = sepc (hcsr h)" "sstatus (hcsr ?h0) = sstatus (hcsr h)"
    using at by simp_all
  have area0: "maps_area tr ?h0 288 (regs ?h0 A0) tf"
    using area by (simp add: maps_area_def)
  have A0: "\<forall>k. (A0, k) \<notin> set user_frame" by (simp add: user_frame_def)
  have "run tr (loads A0 user_frame) ?h0 = ?h1"
    using A0 by (intro run_loads [OF area0 user_frame_ok]) blast
  then have run: "run tr userret_code h = run tr [CSRRW A0 Sscratch A0, SRET] ?h1"
    by (simp only: userret_code_eq run_simps)
  have "distinct (map fst user_frame)" using user_frame_ok by (simp add: frame_ok_def)
  then have fr: "restored m tf user_frame f r = load64 m (tf + of_nat k)" if "(r, k) \<in> set user_frame" for m f r k
    using that by (simp add: restored_def)
  have "restored m tf user_frame f A0 = f A0" for m f
    by (simp add: restored_def user_frame_def)
  then show ?thesis
    unfolding run using A0 h0 by (auto simp: sret_def Let_def fr split: prod.splits)
qed

definition kernel_frame :: frame where
  "kernel_frame = [(RA, 0), (SP, 8), (GP, 16), (TP, 24), (T0, 32), (T1, 40), (T2, 48), (S0, 56), (S1, 64),
     (A0, 72), (A1, 80), (A2, 88), (A3, 96), (A4, 104), (A5, 112), (A6, 120), (A7, 128), (S2, 136), (S3, 144),
     (S4, 152), (S5, 160), (S6, 168), (S7, 176), (S8, 184), (S9, 192), (S10, 200), (S11, 208), (T3, 216),
     (T4, 224), (T5, 232), (T6, 240)]"

definition kernel_frame_back :: frame where
  "kernel_frame_back = filter (\<lambda>(r, k). r \<noteq> TP) kernel_frame"

lemma kernel_frame_ok: "frame_ok 256 kernel_frame" "frame_ok 256 kernel_frame_back"
  by (simp_all add: frame_ok_def kernel_frame_def kernel_frame_back_def)

lemma kernelvec_code_eq:
  "kernelvec_save = ADDI SP SP (- 256) # saves SP kernel_frame"
  "kernelvec_restore = loads SP kernel_frame_back @ [ADDI SP SP 256, SRET]"
  by (simp_all add: kernelvec_save_def kernelvec_restore_def saves_def loads_def kernel_frame_def kernel_frame_back_def)

section \<open>Properties\<close>

text \<open>C27. A trap from user space and the return to it (\<^verbatim>\<open>trampoline.S\<close>). \<^verbatim>\<open>uservec\<close> continues in the
  kernel with the stack, hart number, page table and entry point that the trapframe holds. Whatever the
  kernel does then, on whatever hart, as long as it leaves the saved registers in the trapframe alone,
  \<^verbatim>\<open>userret\<close> gives the user program back every register as it was at the trap, except \<^verbatim>\<open>a0\<close>, which
  takes the value of its trapframe slot (the result of a system call); it continues at \<^verbatim>\<open>sepc\<close> in user
  mode and \<^verbatim>\<open>sscratch\<close> again holds the address of the trapframe for the next trap.\<close>

theorem trampoline_roundtrip:
  assumes "maps_area tr h 288 (sscratch (hcsr h)) tf"
    and "maps_area tr (g\<lparr>hcsr := (hcsr g)\<lparr>satp := regs g A1\<rparr>\<rparr>) 288 (regs g A0) tf"
    and "\<forall>(r, k) \<in> set user_frame. load64 (hmem g) (tf + of_nat k) = load64 (hmem (run tr uservec_code h)) (tf + of_nat k)"
    and "sstatus (hcsr g) AND 0x100 = 0"
  shows "let k = run tr uservec_code h; u = run tr userret_code g in
    regs k SP = load64 (hmem h) (tf + 8) \<and> regs k TP = load64 (hmem h) (tf + 32)
    \<and> pc k = load64 (hmem h) (tf + 16) \<and> satp (hcsr k) = load64 (hmem h) tf
    \<and> load64 (hmem k) (tf + 112) = regs h A0
    \<and> (\<forall>r. r \<noteq> A0 \<longrightarrow> regs u r = regs h r) \<and> regs u A0 = load64 (hmem g) (tf + 112)
    \<and> pc u = sepc (hcsr g) \<and> mode u = UMode \<and> sscratch (hcsr u) = regs g A0"
proof -
  have all: "r \<in> fst ` set user_frame" if "r \<noteq> A0" for r
    using that by (cases r) (simp_all add: user_frame_def)
  have "regs (run tr userret_code g) r = regs h r" if r: "r \<noteq> A0" for r
  proof -
    obtain k where k: "(r, k) \<in> set user_frame" using all [OF r] by force
    then have "regs (run tr userret_code g) r = load64 (hmem g) (tf + of_nat k)"
      using run_userret [OF assms(2)] by (auto simp: Let_def)
    also have "\<dots> = load64 (hmem (run tr uservec_code h)) (tf + of_nat k)" using assms(3) k by blast
    also have "\<dots> = regs h r" using run_uservec [OF assms(1)] k by (auto simp: Let_def)
    finally show ?thesis .
  qed
  then show ?thesis
    using run_uservec [OF assms(1)] run_userret [OF assms(2)] assms(4) by (simp add: Let_def)
qed

text \<open>C28. A context switch (\<^verbatim>\<open>swtch.S\<close>). A thread calls \<^verbatim>\<open>swtch\<close> with its own context at \<open>c\<close>. When
  later, possibly on another hart and after any other computation, somebody else switches to \<open>c\<close>, that
  call returns to where the thread called \<^verbatim>\<open>swtch\<close>, with the stack pointer and all callee-saved
  registers of the thread. The hart number in \<^verbatim>\<open>tp\<close> is the one of the hart that now runs the thread.\<close>

theorem swtch_resumes:
  assumes "maps_area tr h 112 (regs h A0) c" "maps_area tr h 112 (regs h A1) d" "disjoint_areas 112 c d"
    and "maps_area tr g 112 (regs g A0) e" "maps_area tr g 112 (regs g A1) c" "disjoint_areas 112 e c"
    and "\<forall>k < 112. hmem g (c + of_nat k) = hmem (run tr swtch_code h) (c + of_nat k)"
  shows "let t = run tr swtch_code g in
    pc t = regs h RA \<and> (\<forall>r \<in> fst ` set swtch_frame. regs t r = regs h r) \<and> regs t TP = regs g TP"
proof -
  have saved: "load64 (hmem g) (c + of_nat k) = regs h r" if rk: "(r, k) \<in> set swtch_frame" for r k
  proof -
    have "k + 8 \<le> 112" using rk swtch_frame_ok by (auto simp: frame_ok_def list_all_iff)
    then show ?thesis using run_swtch [OF assms(1-3)] load64_same_area [OF assms(7), of k] rk by (auto split: prod.splits)
  qed
  have frame: "restored (hmem g) c swtch_frame (regs g) r = regs h r" if "r \<in> fst ` set swtch_frame" for r
    using that by (rule restored_eq) (rule saved)
  have "load64 (hmem g) c = regs h RA" using saved [of RA 0] by (simp add: swtch_frame_def)
  moreover have "restored (hmem g) c swtch_frame (regs g) TP = regs g TP"
    by (simp add: restored_def swtch_frame_def)
  ultimately show ?thesis
    using run_swtch [OF assms(4-6)] frame by (auto simp: Let_def intro!: frame rev_image_eqI)
qed

text \<open>C29. A trap in the kernel (\<^verbatim>\<open>kernelvec\<close> of \<^verbatim>\<open>kernelvec.S\<close>) is transparent to the interrupted code. The
  frame of 256 bytes below the stack pointer is ordinary memory, and the C handler, called with the
  registers saved there, keeps to the calling convention: it returns with the same stack pointer and has
  not touched the frame of its caller. Then the interrupted code continues at \<^verbatim>\<open>sepc\<close> with every register
  as before, except that \<^verbatim>\<open>tp\<close> names the hart on which the handler returned.\<close>

theorem kernelvec_transparent:
  assumes frame: "maps_area tr h 256 (regs h SP - 256) p"
    and conv: "regs (f k) SP = regs k SP" "maps_area tr (f k) 256 (regs k SP) p"
      "\<forall>i < 256. hmem (f k) (p + of_nat i) = hmem k (p + of_nat i)"
    and k: "k = run tr kernelvec_save h"
  shows "let u = kernelvec tr f h in
    (\<forall>r. r \<noteq> TP \<longrightarrow> regs u r = regs h r) \<and> regs u TP = regs (f k) TP \<and> pc u = sepc (hcsr (f k))
      \<and> hmem u = hmem (f k)"
proof -
  let ?h0 = "set_reg SP (regs h SP - 256) h"
  have "maps_area tr ?h0 256 (regs ?h0 SP) p" using frame by (simp add: maps_area_def)
  from run_saves [OF this kernel_frame_ok(1)] obtain m where
    m: "run tr (saves SP kernel_frame) ?h0 = ?h0\<lparr>hmem := m\<rparr>"
      "\<forall>(r, k) \<in> set kernel_frame. load64 m (p + of_nat k) = regs ?h0 r"
    by blast
  have k': "k = ?h0\<lparr>hmem := m\<rparr>" by (simp add: k kernelvec_code_eq m(1))
  have sp: "regs (f k) SP = regs h SP - 256" using conv(1) by (simp add: k')
  have same: "load64 (hmem (f k)) (p + of_nat j) = load64 m (p + of_nat j)" if "j + 8 \<le> 256" for j
    using load64_same_area [OF conv(3) that] by (simp add: k')
  have saved: "load64 (hmem (f k)) (p + of_nat j) = regs ?h0 r" if "(r, j) \<in> set kernel_frame" for r j
  proof -
    have "j + 8 \<le> 256" using that kernel_frame_ok(1) by (auto simp: frame_ok_def list_all_iff)
    then show ?thesis using same [of j] bspec [OF m(2) that] by simp
  qed
  have sub: "set kernel_frame_back \<subseteq> set kernel_frame" by (auto simp: kernel_frame_back_def)
  have "run tr (loads SP kernel_frame_back) (f k) =
      (f k)\<lparr>regs := restored (hmem (f k)) p kernel_frame_back (regs (f k))\<rparr>"
  proof (rule run_loads [OF _ kernel_frame_ok(2)])
    show "maps_area tr (f k) 256 (regs (f k) SP) p" using conv(1,2) by simp
    show "\<forall>j. (SP, j) \<in> set kernel_frame_back \<longrightarrow> load64 (hmem (f k)) (p + of_nat j) = regs (f k) SP"
      using saved [of SP] sub sp by auto
  qed
  then have run: "kernelvec tr f h = run tr [ADDI SP SP 256, SRET]
      ((f k)\<lparr>regs := restored (hmem (f k)) p kernel_frame_back (regs (f k))\<rparr>)"
    by (simp add: kernelvec_def kernelvec_code_eq(2) flip: k)
  have kept: "restored (hmem (f k)) p kernel_frame_back (regs (f k)) r = regs ?h0 r" if "r \<noteq> TP" for r
  proof -
    have "r \<in> fst ` set kernel_frame_back"
      using that by (cases r) (simp_all add: kernel_frame_def kernel_frame_back_def)
    then show ?thesis by (rule restored_eq) (use saved sub in blast)
  qed
  have "restored (hmem (f k)) p kernel_frame_back (regs (f k)) TP = regs (f k) TP"
    by (simp add: restored_def kernel_frame_back_def kernel_frame_def)
  then show ?thesis
    unfolding run using kept by (auto simp: Let_def sret_def)
qed

text \<open>C30. A timer interrupt in machine mode (\<^verbatim>\<open>timervec\<close> of \<^verbatim>\<open>kernelvec.S\<close>), with \<^verbatim>\<open>mscratch\<close> pointing to the
  scratch area that \<^verbatim>\<open>timerinit\<close> prepared: the handler moves the hart's next timer event on by the interval,
  raises a supervisor software interrupt, and returns to the interrupted code with all registers, and
  \<^verbatim>\<open>mscratch\<close>, as they were.\<close>

theorem timervec_rearms:
  assumes "mode h = MMode" "mscratch (hcsr h) = scr" "load64 (hmem h) (scr + 24) = cmp" "load64 (hmem h) (scr + 32) = interval"
    and apart: "apart cmp scr" "apart cmp (scr + 8)" "apart cmp (scr + 16)" "apart cmp (scr + 24)" "apart cmp (scr + 32)"
  shows "let u = run tr timervec_code h in
    regs u = regs h \<and> mscratch (hcsr u) = scr \<and> sip (hcsr u) = 2 \<and> pc u = mepc (hcsr h)
    \<and> load64 (hmem u) cmp = load64 (hmem h) cmp + interval
    \<and> load64 (hmem u) (scr + 24) = cmp \<and> load64 (hmem u) (scr + 32) = interval"
proof -
  have off: "apart (scr + of_nat i) (scr + of_nat j)" if "i \<in> {0, 8, 16, 24, 32}" "j \<in> {0, 8, 16, 24, 32}" "i \<noteq> j" for i j
    using that by (intro apart_offset) auto
  note offs = off [of 0 8] off [of 0 16] off [of 8 0] off [of 8 16] off [of 16 0] off [of 16 8]
    off [of 24 0] off [of 24 8] off [of 24 16] off [of 32 0] off [of 32 8] off [of 32 16]
  note apart' = apart apart [THEN apart_commute [THEN iffD1]]
  show ?thesis
    using assms(1-4) apart' offs
    by (simp add: timervec_code_def translate_def load64_store64_apart mret_def Let_def fun_eq_iff)
qed

text \<open>
  The entry of a hart: \<^verbatim>\<open>start\<close> runs on the hart's own page of \<^verbatim>\<open>stack0\<close>.
\<close>

lemma entry_stack:
  "let u = run tr (entry_code stack0 start spin) h in
     regs u SP = stack0 + 4096 * (mhartid (hcsr h) + 1) \<and> pc u = start \<and> hmem u = hmem h"
  by (simp add: entry_code_def)

section \<open>Witnesses\<close>

definition demo_csrs :: csrs where
  "demo_csrs = zero_csrs\<lparr>mstatus := 0x800, mepc := 0x80000100, mscratch := 0x80008000, satp := 5, sstatus := 0x20,
     sepc := 0x40, scause := 8, sscratch := 0x3fffffe000\<rparr>"

text \<open>A hart whose registers hold 7, and the translation of the trapframe page.\<close>

definition demo_hart :: hart where
  "demo_hart = \<lparr>regs = (\<lambda>_. 7), hcsr = demo_csrs, hmem = (\<lambda>_. 0), pc = 0x44, mode = SMode\<rparr>"

definition demo_tr :: "uint64 \<Rightarrow> uint64 \<Rightarrow> uint64" where
  "demo_tr x a = a - 0x3fffffe000 + 0x87000000"

theorem trampoline_roundtrip_witness:
  "let k = run demo_tr uservec_code demo_hart;
       u = run demo_tr userret_code (k\<lparr>regs := (\<lambda>_. 0)(A0 := 0x3fffffe000, A1 := 5)\<rparr>)
   in regs k SP = 0 \<and> regs u S3 = 7 \<and> regs u TP = 7 \<and> mode u = UMode \<and> regs u A0 = 7"
proof -
  let ?k = "run demo_tr uservec_code demo_hart"
  have area: "maps_area demo_tr h 288 0x3fffffe000 0x87000000" if "mode h \<noteq> MMode" for h
    using that by (simp add: maps_area_def translate_def demo_tr_def)
  have csr: "sstatus (hcsr ?k) AND 0x100 = 0" "mode ?k \<noteq> MMode"
    by (simp_all add: uservec_code_def demo_hart_def demo_csrs_def zero_csrs_def)
  have load: "load64 (hmem demo_hart) (0x87000000 + 8) = 0"
    by (simp add: demo_hart_def load64_def eval_nat_numeral)
  show ?thesis
    using trampoline_roundtrip [of demo_tr demo_hart "0x87000000" "?k\<lparr>regs := (\<lambda>_. 0)(A0 := 0x3fffffe000, A1 := 5)\<rparr>"]
      area csr load
    by (simp add: Let_def) (simp add: demo_hart_def demo_csrs_def zero_csrs_def)
qed

theorem swtch_resumes_witness:
  "let h = demo_hart\<lparr>regs := (regs demo_hart)(A0 := 0x80001000, A1 := 0x80002000, TP := 1)\<rparr>;
       g = (run (\<lambda>_ a. a) swtch_code h)\<lparr>regs := (\<lambda>_. 0)(A0 := 0x80003000, A1 := 0x80001000, TP := 2)\<rparr>;
       t = run (\<lambda>_ a. a) swtch_code g
   in pc t = 7 \<and> regs t SP = 7 \<and> regs t S11 = 7 \<and> regs t TP = 2"
proof -
  let ?h = "demo_hart\<lparr>regs := (regs demo_hart)(A0 := 0x80001000, A1 := 0x80002000, TP := 1)\<rparr>"
  have area: "maps_area (\<lambda>_ a. a) h n a a" for h n a
    by (simp add: maps_area_def translate_def)
  show ?thesis
    using swtch_resumes [of "\<lambda>_ a. a" ?h "0x80001000" "0x80002000"
        "(run (\<lambda>_ a. a) swtch_code ?h)\<lparr>regs := (\<lambda>_. 0)(A0 := 0x80003000, A1 := 0x80001000, TP := 2)\<rparr>" "0x80003000"]
    by (simp add: area disjoint_areas_def Let_def) (simp add: swtch_frame_def demo_hart_def)
qed

theorem kernelvec_transparent_witness:
  "let u = kernelvec (\<lambda>_ a. a) (\<lambda>k. k\<lparr>regs := (\<lambda>_. 0)(SP := regs k SP, TP := 2)\<rparr>) demo_hart
   in regs u A5 = 7 \<and> regs u SP = 7 \<and> regs u TP = 2"
proof -
  have area: "maps_area (\<lambda>_ a. a) h n a a" for h n a
    by (simp add: maps_area_def translate_def)
  have sp: "regs (run (\<lambda>_ a. a) kernelvec_save demo_hart) SP = 7 - 256"
    by (simp add: kernelvec_save_def demo_hart_def)
  show ?thesis
    using kernelvec_transparent [OF _ _ _ _ refl, of "\<lambda>_ a. a" demo_hart "7 - 256"
        "\<lambda>k. k\<lparr>regs := (\<lambda>_. 0)(SP := regs k SP, TP := 2)\<rparr>"]
    by (simp add: area sp Let_def) (simp add: demo_hart_def area)
qed

theorem timervec_rearms_witness:
  "let h = demo_hart\<lparr>mode := MMode, hmem := store64 (store64 (\<lambda>_. 0) 0x80008018 0x2004000) 0x80008020 1000000\<rparr>;
       u = run (\<lambda>_ a. a) timervec_code h
   in regs u = regs demo_hart \<and> load64 (hmem u) 0x2004000 = 1000000 \<and> sip (hcsr u) = 2"
proof -
  let ?m = "store64 (store64 (\<lambda>_. 0) 0x80008018 0x2004000) 0x80008020 1000000"
  have "load64 ?m 0x80008018 = 0x2004000" "load64 ?m 0x80008020 = 1000000" "load64 ?m 0x2004000 = load64 (\<lambda>_. 0) 0x2004000"
    by (simp_all add: load64_store64_apart apart_def)
  moreover have "load64 (\<lambda>_. 0) 0x2004000 = 0" by (simp add: load64_def eval_nat_numeral)
  ultimately show ?thesis
    using timervec_rearms [of "demo_hart\<lparr>mode := MMode, hmem := ?m\<rparr>" "0x80008000" "0x2004000" "1000000" "\<lambda>_ a. a"]
    by (simp add: Let_def apart_def demo_hart_def demo_csrs_def zero_csrs_def)
qed

end
