(* ===== verification/Kstring.thy ===== *)
theory Kstring
  imports Memory
begin

text \<open>
  \<^verbatim>\<open>kernel/string.c\<close>. A \<^verbatim>\<open>char *\<close> is an address into a \<open>memory\<close>; the functions that
  take two pointers into objects that may differ take two memories. The lemmas give each
  loop a reference definition: \<open>memmove\<close> is the simultaneous copy \<open>copied\<close> whether the
  two ranges overlap or not, and the string functions are described by \<open>cstr\<close>, the
  characters before the terminating NUL.
\<close>

section \<open>The functions\<close>

function memset_from :: "memory \<Rightarrow> uint64 \<Rightarrow> uint8 \<Rightarrow> nat \<Rightarrow> nat \<Rightarrow> memory" where
  "memset_from m dst c i n =
     (if i < n then memset_from (m(dst + of_nat i := c)) dst c (i + 1) n else m)"
  by auto
termination
  by (relation "measure (\<lambda>(m, dst, c, i, n). n - i)") auto

definition memset :: "memory \<Rightarrow> uint64 \<Rightarrow> uint8 \<Rightarrow> uint32 \<Rightarrow> memory" where
  "memset m dst c n = memset_from m dst c 0 (unat n)"

fun memcmp_loop :: "memory \<Rightarrow> uint64 \<Rightarrow> memory \<Rightarrow> uint64 \<Rightarrow> nat \<Rightarrow> int" where
  "memcmp_loop m s1 m' s2 0 = 0"
| "memcmp_loop m s1 m' s2 (Suc n) =
     (if m s1 \<noteq> m' s2 then uint (m s1) - uint (m' s2)
      else memcmp_loop m (s1 + 1) m' (s2 + 1) n)"

definition memcmp :: "memory \<Rightarrow> uint64 \<Rightarrow> memory \<Rightarrow> uint64 \<Rightarrow> uint32 \<Rightarrow> int" where
  "memcmp m v1 m' v2 n = memcmp_loop m v1 m' v2 (unat n)"

text \<open>The two loops of \<^verbatim>\<open>memmove\<close>: \<^verbatim>\<open>*--d = *--s\<close> and \<^verbatim>\<open>*d++ = *s++\<close>.\<close>

fun move_down :: "nat \<Rightarrow> memory \<Rightarrow> uint64 \<Rightarrow> uint64 \<Rightarrow> memory" where
  "move_down 0 m d s = m"
| "move_down (Suc n) m d s = move_down n (m(d - 1 := m (s - 1))) (d - 1) (s - 1)"

fun move_up :: "nat \<Rightarrow> memory \<Rightarrow> uint64 \<Rightarrow> uint64 \<Rightarrow> memory" where
  "move_up 0 m d s = m"
| "move_up (Suc n) m d s = move_up n (m(d := m s)) (d + 1) (s + 1)"

definition memmove :: "memory \<Rightarrow> uint64 \<Rightarrow> uint64 \<Rightarrow> uint32 \<Rightarrow> memory" where
  "memmove m dst src n =
     (if n = 0 then m
      else if src < dst \<and> src + ucast n > dst
      then move_down (unat n) m (dst + ucast n) (src + ucast n)
      else move_up (unat n) m dst src)"

definition memcpy :: "memory \<Rightarrow> uint64 \<Rightarrow> uint64 \<Rightarrow> uint32 \<Rightarrow> memory" where
  "memcpy m dst src n = memmove m dst src n"

fun strncmp_loop :: "memory \<Rightarrow> uint64 \<Rightarrow> memory \<Rightarrow> uint64 \<Rightarrow> nat \<Rightarrow> int" where
  "strncmp_loop m p m' q 0 = 0"
| "strncmp_loop m p m' q (Suc n) =
     (if m p \<noteq> 0 \<and> m p = m' q then strncmp_loop m (p + 1) m' (q + 1) n
      else uint (m p) - uint (m' q))"

definition strncmp :: "memory \<Rightarrow> uint64 \<Rightarrow> memory \<Rightarrow> uint64 \<Rightarrow> uint32 \<Rightarrow> int" where
  "strncmp m p m' q n = strncmp_loop m p m' q (unat n)"

text \<open>\<^verbatim>\<open>while(n-- > 0) *s++ = 0;\<close>, the padding of \<^verbatim>\<open>strncpy\<close>.\<close>

fun zero_pad :: "memory \<Rightarrow> uint64 \<Rightarrow> nat \<Rightarrow> memory" where
  "zero_pad m s 0 = m"
| "zero_pad m s (Suc n) = zero_pad (m(s := 0)) (s + 1) n"

fun strncpy_loop :: "memory \<Rightarrow> uint64 \<Rightarrow> memory \<Rightarrow> uint64 \<Rightarrow> nat \<Rightarrow> memory" where
  "strncpy_loop m s m' t 0 = m"
| "strncpy_loop m s m' t (Suc n) =
     (if m' t \<noteq> 0 then strncpy_loop (m(s := m' t)) (s + 1) m' (t + 1) n
      else zero_pad (m(s := m' t)) (s + 1) n)"

text \<open>The bound is an \<^verbatim>\<open>int\<close>: a 32-bit word, read with its sign.\<close>

definition strncpy :: "memory \<Rightarrow> uint64 \<Rightarrow> memory \<Rightarrow> uint64 \<Rightarrow> uint32 \<Rightarrow> memory" where
  "strncpy m s m' t n = strncpy_loop m s m' t (nat (sint n))"

fun safestrcpy_loop :: "memory \<Rightarrow> uint64 \<Rightarrow> memory \<Rightarrow> uint64 \<Rightarrow> nat \<Rightarrow> memory" where
  "safestrcpy_loop m s m' t 0 = m(s := 0)"
| "safestrcpy_loop m s m' t (Suc n) =
     (if m' t \<noteq> 0 then safestrcpy_loop (m(s := m' t)) (s + 1) m' (t + 1) n
      else (m(s := m' t))(s + 1 := 0))"

definition safestrcpy :: "memory \<Rightarrow> uint64 \<Rightarrow> memory \<Rightarrow> uint64 \<Rightarrow> int \<Rightarrow> memory" where
  "safestrcpy m s m' t n = (if n \<le> 0 then m else safestrcpy_loop m s m' t (nat n - 1))"

partial_function (option) strlen_from :: "memory \<Rightarrow> uint64 \<Rightarrow> nat \<Rightarrow> nat option" where
  "strlen_from m s n = (if m (s + of_nat n) \<noteq> 0 then strlen_from m s (n + 1) else Some n)"

definition strlen :: "memory \<Rightarrow> uint64 \<Rightarrow> nat option" where
  "strlen m s = strlen_from m s 0"

text \<open>The characters of a string that lie within the first \<open>n\<close> bytes.\<close>

definition cstr :: "memory \<Rightarrow> uint64 \<Rightarrow> nat \<Rightarrow> uint8 list" where
  "cstr m p n = takeWhile (\<lambda>c. c \<noteq> 0) (bytes_at m p n)"

section \<open>Filling and moving\<close>

lemmas [simp del] = memset_from.simps

lemma memset_from_eq:
  assumes "n \<le> 2 ^ 64"
  shows "memset_from m dst c i n =
    (\<lambda>a. if i \<le> unat (a - dst) \<and> unat (a - dst) < n then c else m a)"
  using assms
proof (induction m dst c i n rule: memset_from.induct)
  case (1 m dst c i n)
  show ?case
  proof (cases "i < n")
    case True
    with 1 have "unat (of_nat i :: uint64) = i" by simp
    then have iff: "a = dst + of_nat i \<longleftrightarrow> unat (a - dst) = i" for a
      by (metis add_diff_cancel_left' word64_eqI add_diff_cancel add.commute diff_add_cancel)
    show ?thesis
      using True 1 by (subst memset_from.simps) (auto simp: fun_eq_iff fun_upd_def iff)
  qed (auto simp: memset_from.simps fun_eq_iff)
qed

lemma memset_eq: "memset m dst c n = (\<lambda>a. if unat (a - dst) < unat n then c else m a)"
proof -
  have "unat n \<le> 2 ^ 64" using unat_less32 [of n] by simp
  then show ?thesis by (simp add: memset_def memset_from_eq)
qed

text \<open>\<^verbatim>\<open>memset(p, c, PGSIZE)\<close> on a page.\<close>

lemma memset_page:
  "aligned p \<Longrightarrow> memset m p c 4096 = (\<lambda>a. if PGROUNDDOWN a = p then c else m a)"
  by (simp add: memset_eq PGROUNDDOWN_eq_iff)

lemma move_up_eq:
  assumes "n \<le> 2 ^ 64" "d = s \<or> n \<le> unat (d - s)"
  shows "move_up n m d s = copied d s n m"
  using assms
proof (induction n arbitrary: m d s)
  case 0
  then show ?case by (simp add: copied_def)
next
  case (Suc n)
  have "move_up (Suc n) m d s = copied (d + 1) (s + 1) n (m(d := m s))"
    using Suc.IH [of "d + 1" "s + 1"] Suc.prems by auto
  also have "\<dots> = copied d s (Suc n) m"
  proof
    fix a
    show "copied (d + 1) (s + 1) n (m(d := m s)) a = copied d s (Suc n) m a"
    proof (cases "a = d")
      case True
      then show ?thesis using Suc.prems unat_diff_self_Suc [of d]
        by (simp add: copied_def)
    next
      case False
      have u: "unat (a - d) = Suc (unat (a - (d + 1)))"
        using False by (rule unat_diff_Suc)
      have src: "s + 1 + (a - (d + 1)) = s + (a - d)" by simp
      have "s + (a - d) \<noteq> d" if "unat (a - d) < Suc n"
      proof
        assume "s + (a - d) = d"
        then have "d - s = a - d" by (metis add_diff_cancel_left')
        then show False using Suc.prems that False by auto
      qed
      then show ?thesis
        using False by (auto simp: copied_def u src)
    qed
  qed
  finally show ?case .
qed

lemma move_down_eq:
  assumes "n \<le> 2 ^ 64" "s = d \<or> n \<le> unat (s - d)"
  shows "move_down n m (d + of_nat n) (s + of_nat n) = copied d s n m"
  using assms
proof (induction n arbitrary: m)
  case 0
  then show ?case by (simp add: copied_def)
next
  case (Suc n)
  let ?k = "of_nat n :: uint64"
  have k: "unat ?k = n" using Suc.prems by simp
  have "move_down (Suc n) m (d + of_nat (Suc n)) (s + of_nat (Suc n))
      = move_down n (m(d + ?k := m (s + ?k))) (d + ?k) (s + ?k)"
    by (simp add: algebra_simps)
  also have "\<dots> = copied d s n (m(d + ?k := m (s + ?k)))"
    by (rule Suc.IH) (use Suc.prems in auto)
  also have "\<dots> = copied d s (Suc n) m"
  proof
    fix a
    show "copied d s n (m(d + ?k := m (s + ?k))) a = copied d s (Suc n) m a"
    proof (cases "a = d + ?k")
      case True
      then show ?thesis using k by (simp add: copied_def)
    next
      case False
      then have ne: "unat (a - d) \<noteq> n"
        by (metis k word64_eqI add_diff_cancel_left' diff_add_cancel add.commute)
      have "s + (a - d) \<noteq> d + ?k" if lt: "unat (a - d) < n"
      proof
        assume "s + (a - d) = d + ?k"
        then have sd: "s - d = ?k - (a - d)" by (simp add: algebra_simps)
        have "a - d \<le> ?k" using lt k by (simp add: word_le_nat_alt)
        then have "unat (s - d) = n - unat (a - d)"
          unfolding sd using k by (simp add: unat_sub)
        then show False using Suc.prems lt by auto
      qed
      then show ?thesis
        using False ne by (auto simp: copied_def)
    qed
  qed
  finally show ?case .
qed

lemma unat_ucast32 [simp]: "unat (ucast (n :: uint32) :: uint64) = unat n"
  using unat_less32 [of n] by (simp add: unsigned_ucast_eq take_bit_nat_eq_self)

lemma unat_diff64:
  "unat (a - b :: uint64) = (if unat b \<le> unat a then unat a - unat b else unat a + 2 ^ 64 - unat b)"
  using unat_sub_if_size [of a b] by (simp add: word_size)

lemma of_nat_unat32: "of_nat (unat (n :: uint32)) = (ucast n :: uint64)"
  by (rule word64_eqI) (use unat_less32 [of n] in simp)

lemma memmove_copied:
  assumes src: "unat src + unat n < 2 ^ 64" and dst: "unat dst + unat n \<le> 2 ^ 64"
  shows "memmove m dst src n = copied dst src (unat n) m"
proof (cases "n = 0")
  case True
  then show ?thesis by (simp add: memmove_def copied_def)
next
  case False
  have n: "unat n \<le> 2 ^ 64" using unat_less32 [of n] by simp
  have sum: "unat (src + ucast n) = unat src + unat n"
    using src by (simp add: unat_add64)
  show ?thesis
  proof (cases "src < dst \<and> dst < src + ucast n")
    case True
    then have "unat n \<le> unat (src - dst)"
      using dst unfolding word_less_nat_alt unat_diff64 sum by auto
    then show ?thesis
      using True False n move_down_eq [of "unat n" src dst m]
      by (simp add: memmove_def of_nat_unat32)
  next
    case no: False
    then have "unat n \<le> unat (dst - src) \<or> unat dst = unat src"
      using src unfolding word_less_nat_alt unat_diff64 sum by auto
    then have "dst = src \<or> unat n \<le> unat (dst - src)"
      using word64_eqI by auto
    then show ?thesis
      using no False n move_up_eq [of "unat n" dst src m] by (auto simp: memmove_def)
  qed
qed

section \<open>Strings\<close>

lemma bytes_at_Suc: "bytes_at m p (Suc n) = m p # bytes_at m (p + 1) n"
proof -
  have "[0..<Suc n] = 0 # map Suc [0..<n]" by (simp add: upt_conv_Cons map_Suc_upt del: upt_Suc)
  then show ?thesis unfolding bytes_at_def by (simp add: add.assoc del: upt_Suc)
qed

lemma bytes_at_0 [simp]: "bytes_at m p 0 = []"
  by (simp add: bytes_at_def)

lemma cstr_0 [simp]: "cstr m p 0 = []"
  by (simp add: cstr_def)

lemma cstr_Suc: "cstr m p (Suc n) = (if m p = 0 then [] else m p # cstr m (p + 1) n)"
  by (simp add: cstr_def bytes_at_Suc)

lemma length_cstr: "length (cstr m p n) \<le> n"
  using length_takeWhile_le [of "\<lambda>c. c \<noteq> 0" "bytes_at m p n"] by (simp add: cstr_def)

lemma uint8_eq_iff: "uint (a :: uint8) = uint b \<longleftrightarrow> a = b"
  by (simp add: word_uint_eq_iff)

lemma strncmp_loop_0: "strncmp_loop m p m' q n = 0 \<longleftrightarrow> cstr m p n = cstr m' q n"
  by (induction n arbitrary: p q) (auto simp: cstr_Suc uint8_eq_iff uint_0_iff)

lemma memcmp_loop_0: "memcmp_loop m p m' q n = 0 \<longleftrightarrow> bytes_at m p n = bytes_at m' q n"
  by (induction n arbitrary: p q) (auto simp: bytes_at_Suc uint8_eq_iff)

lemma write_bytes_Nil [simp]: "write_bytes m s [] = m"
  by (simp add: write_bytes_def)

lemma write_bytes_Cons:
  assumes "length bs < 2 ^ 64"
  shows "write_bytes m s (b # bs) = write_bytes (m(s := b)) (s + 1) bs"
proof
  fix a
  show "write_bytes m s (b # bs) a = write_bytes (m(s := b)) (s + 1) bs a"
  proof (cases "a = s")
    case True
    then show ?thesis
      using assms unat_diff_self_Suc [of s] by (simp add: write_bytes_def)
  next
    case False
    then show ?thesis
      using unat_diff_Suc [OF False] by (simp add: write_bytes_def)
  qed
qed

lemma zero_pad_eq: "n < 2 ^ 64 \<Longrightarrow> zero_pad m s n = write_bytes m s (replicate n 0)"
  by (induction n arbitrary: m s) (simp_all add: write_bytes_Cons)

lemma strncpy_loop_eq:
  "n < 2 ^ 64 \<Longrightarrow> strncpy_loop m s m' t n =
     write_bytes m s (cstr m' t n @ replicate (n - length (cstr m' t n)) 0)"
proof (induction n arbitrary: m s t)
  case (Suc n)
  then show ?case
    using length_cstr [of m' "t + 1" n]
    by (simp add: cstr_Suc write_bytes_Cons zero_pad_eq)
qed simp

text \<open>
  \<^verbatim>\<open>safestrcpy\<close> stops after a copied NUL and then stores its own, one byte further.
\<close>

lemma safestrcpy_loop_eq:
  "n < 2 ^ 63 \<Longrightarrow> safestrcpy_loop m s m' t n =
     write_bytes m s (cstr m' t n @ (if length (cstr m' t n) < n then [0, 0] else [0]))"
proof (induction n arbitrary: m s t)
  case (Suc n)
  then show ?case
    using length_cstr [of m' "t + 1" n]
    by (simp add: cstr_Suc write_bytes_Cons fun_upd_def)
qed (simp add: write_bytes_Cons)

lemma bytes_at_write_bytes_prefix:
  assumes "length bs \<le> n" "n < 2 ^ 64"
  shows "\<exists>rest. bytes_at (write_bytes m a bs) a n = bs @ rest"
proof -
  have "take (length bs) (bytes_at (write_bytes m a bs) a n) = bs"
    using assms by (intro nth_equalityI) (simp_all add: bytes_at_def write_bytes_def)
  then show ?thesis by (metis append_take_drop_id)
qed

lemma set_cstr: "c \<in> set (cstr m p n) \<Longrightarrow> c \<noteq> 0"
  unfolding cstr_def by (auto dest: set_takeWhileD)

lemma takeWhile_nonzero:
  "(\<And>c. c \<in> set xs \<Longrightarrow> c \<noteq> 0) \<Longrightarrow> takeWhile (\<lambda>c. c \<noteq> (0 :: uint8)) (xs @ 0 # ys) = xs"
  by (induction xs) auto

lemma write_bytes_other: "length bs \<le> unat (a - s) \<Longrightarrow> write_bytes m s bs a = m a"
  by (simp add: write_bytes_def)

lemma strlen_from_eq:
  assumes "\<forall>i<k. m (s + of_nat (n + i)) \<noteq> 0" "m (s + of_nat (n + k)) = 0"
  shows "strlen_from m s n = Some (n + k)"
  using assms
proof (induction k arbitrary: n)
  case 0
  then show ?case by (simp add: strlen_from.simps)
next
  case (Suc k)
  have "m (s + of_nat n) \<noteq> 0" using Suc.prems(1) by force
  moreover have "\<forall>i<k. m (s + of_nat (Suc n + i)) \<noteq> 0"
  proof (intro allI impI)
    fix i assume "i < k"
    then show "m (s + of_nat (Suc n + i)) \<noteq> 0"
      using Suc.prems(1) [rule_format, of "Suc i"] by simp
  qed
  then have "strlen_from m s (Suc n) = Some (Suc n + k)"
    using Suc.prems(2) by (intro Suc.IH) simp_all
  ultimately show ?case by (simp add: strlen_from.simps [of m s n])
qed

lemma strlen_eq:
  "\<forall>i<k. m (s + of_nat i) \<noteq> 0 \<Longrightarrow> m (s + of_nat k) = 0 \<Longrightarrow> strlen m s = Some k"
  using strlen_from_eq [of k m s 0] by (simp add: strlen_def)

section \<open>Properties\<close>

text \<open>C10. \<^verbatim>\<open>memmove\<close> copies all bytes as if at once, however the two ranges overlap: every
  destination byte becomes the byte that was at the corresponding source address before the
  call, and nothing else changes.\<close>

theorem memmove_overlap:
  assumes "unat src + unat n < 2 ^ 64" "unat dst + unat n \<le> 2 ^ 64"
  shows "memmove m dst src n =
    (\<lambda>a. if unat (a - dst) < unat n then m (src + (a - dst)) else m a)"
  using memmove_copied [OF assms] by (simp add: copied_def)

theorem memmove_overlap_witness:
  "memmove (\<lambda>a. ucast a) 12 10 5 =
     (\<lambda>a. if unat (a - 12) < unat (5 :: uint32) then (\<lambda>a. ucast a) (10 + (a - 12)) else ucast a)"
  by (rule memmove_overlap) simp_all


text \<open>C12. \<^verbatim>\<open>safestrcpy\<close> with a positive size always leaves a NUL-terminated string in the
  buffer, namely the source cut to \<open>n - 1\<close> characters, and writes nothing outside the
  \<open>n\<close> bytes of the buffer.\<close>

theorem safestrcpy_terminates:
  assumes "0 < n" "n < 2 ^ 31"
  shows "cstr (safestrcpy m s m' t n) s (nat n) = cstr m' t (nat n - 1)
    \<and> length (cstr m' t (nat n - 1)) < nat n
    \<and> (nat n \<le> unat (a - s) \<longrightarrow> safestrcpy m s m' t n a = m a)"
proof -
  let ?k = "nat n - 1" and ?c = "cstr m' t (nat n - 1)"
  define bs where "bs = ?c @ (if length ?c < ?k then [0, 0] else [0])"
  have k: "?k < 2 ^ 63" "nat n < 2 ^ 64" "?k < nat n" using assms by simp_all
  have eq: "safestrcpy m s m' t n = write_bytes m s bs"
    using assms k by (simp add: safestrcpy_def safestrcpy_loop_eq bs_def)
  have c: "length ?c \<le> ?k" by (rule length_cstr)
  then have len: "length bs \<le> nat n"
    using k by (auto simp: bs_def)
  obtain rest where rest: "bytes_at (write_bytes m s bs) s (nat n) = bs @ rest"
    using bytes_at_write_bytes_prefix [OF len k(2)] by blast
  obtain ys where ys: "bs @ rest = ?c @ 0 # ys"
    by (cases "length ?c < ?k") (simp_all add: bs_def)
  have "cstr (write_bytes m s bs) s (nat n) = ?c"
    unfolding cstr_def [of "write_bytes m s bs"] rest ys
    by (rule takeWhile_nonzero) (rule set_cstr)
  then show ?thesis
    using eq c k len by (auto intro: write_bytes_other)
qed

theorem safestrcpy_terminates_witness:
  "cstr (safestrcpy (\<lambda>_. 7) 100 (\<lambda>a. if a = 3 then 0 else 65) 0 16) 100 (nat 16)
     = cstr (\<lambda>a. if a = 3 then 0 else 65) 0 (nat 16 - 1)"
  using safestrcpy_terminates [of 16 "\<lambda>_. 7" 100 "\<lambda>a. if a = 3 then 0 else 65" 0] by simp

end
