(* ===== verification/Kalloc.thy ===== *)
theory Kalloc
  imports Spinlock Kstring "HOL-Library.Multiset"
begin

text \<open>
  The physical page allocator, \<^verbatim>\<open>kernel/kalloc.c\<close>: one free list and one lock per CPU.
  The free pages are linked through their own first eight bytes, so the lists live in
  \<open>ram\<close>; \<open>kmem_ok s L\<close> says that the list of CPU \<open>i\<close> holds exactly the pages \<open>L i\<close>.
  The lemmas show that the C code implements the operations \<open>spec_kfree\<close> and
  \<open>spec_kalloc\<close> on these lists of pages, that the lists stay disjoint and inside the
  physical memory the kernel does not occupy, and that locks are left as they were.
\<close>

section \<open>Operations\<close>

text \<open>\<open>kend\<close> is the linker's symbol \<^verbatim>\<open>end\<close>; \<open>freelist i\<close> is \<^verbatim>\<open>kmem[i].freelist\<close>.\<close>

record kmem_state = machine +
  ram :: memory
  kend :: uint64
  freelist :: "nat \<Rightarrow> uint64"

definition set_ram :: "(memory \<Rightarrow> memory) \<Rightarrow> ('z kmem_state_scheme, unit) K" where
  [kdefs]: "set_ram f = modify (\<lambda>s. s\<lparr>ram := f (ram s)\<rparr>)"

definition set_freelist :: "nat \<Rightarrow> uint64 \<Rightarrow> ('z kmem_state_scheme, unit) K" where
  [kdefs]: "set_freelist i r = modify (\<lambda>s. s\<lparr>freelist := (freelist s)(i := r)\<rparr>)"

definition kfree :: "uint64 \<Rightarrow> ('z kmem_state_scheme, unit) K" where
  "kfree pa =
     bnd (gets kend) (\<lambda>e.
     thn (whenK (pa mod PGSIZE \<noteq> 0 \<or> pa < e \<or> pa \<ge> PHYSTOP) (panic ''kfree'')) (
     thn (set_ram (\<lambda>m. memset m pa 1 4096)) (
     thn push_off (
     bnd cpuid (\<lambda>cid.
     thn pop_off (
     thn (acquire (KmemLock cid)) (
     bnd (gets (\<lambda>s. freelist s cid)) (\<lambda>fl.
     thn (set_ram (\<lambda>m. store64 m pa fl)) (
     thn (set_freelist cid pa) (
     release (KmemLock cid)))))))))))"

text \<open>
  \<^verbatim>\<open>r = kmem[i].freelist; if(r) kmem[i].freelist = r->next;\<close> (a null pointer is the
  address 0), and the loop of \<^verbatim>\<open>kalloc\<close> that visits the lists of the other CPUs.
\<close>

definition pop_free :: "nat \<Rightarrow> ('z kmem_state_scheme, uint64) K" where
  "pop_free i =
     bnd (gets (\<lambda>s. freelist s i)) (\<lambda>r.
     thn (whenK (r \<noteq> 0)
            (bnd (gets (\<lambda>s. load64 (ram s) r)) (\<lambda>next.
             set_freelist i next))) (
     ret r))"

definition steal :: "nat \<Rightarrow> nat list \<Rightarrow> ('z kmem_state_scheme, uint64 option) K" where
  "steal cid is = findK is (\<lambda>i.
     if i \<noteq> cid
     then thn (acquire (KmemLock i)) (
          bnd (pop_free i) (\<lambda>r.
          thn (release (KmemLock i)) (
          ret (if r \<noteq> 0 then Some r else None))))
     else ret None)"

text \<open>What \<^verbatim>\<open>kalloc\<close> does while it holds the lock of its own list.\<close>

definition kalloc_pick :: "nat \<Rightarrow> ('z kmem_state_scheme, uint64) K" where
  "kalloc_pick cid =
     bnd (pop_free cid) (\<lambda>r.
     if r \<noteq> 0 then ret r
     else bnd (steal cid [0..<NCPU]) (\<lambda>found.
          ret (case found of Some r \<Rightarrow> r | None \<Rightarrow> 0)))"

definition kalloc :: "('z kmem_state_scheme, uint64) K" where
  "kalloc =
     thn push_off (
     bnd cpuid (\<lambda>cid.
     thn pop_off (
     thn (acquire (KmemLock cid)) (
     bnd (kalloc_pick cid) (\<lambda>r.
     thn (release (KmemLock cid)) (
     thn (whenK (r \<noteq> 0) (set_ram (\<lambda>m. memset m r 5 4096))) (
     ret r)))))))"

partial_function (option) freerange_loop ::
  "uint64 \<Rightarrow> uint64 \<Rightarrow> (lockid, 'z kmem_state_scheme) env \<Rightarrow> 'z kmem_state_scheme \<Rightarrow>
     ('z kmem_state_scheme, unit) outcome option" where
  "freerange_loop p pa_end E s =
     (if p + PGSIZE \<le> pa_end
      then thn (kfree p) (freerange_loop (p + PGSIZE) pa_end)
      else ret ()) E s"

definition freerange :: "uint64 \<Rightarrow> uint64 \<Rightarrow> ('z kmem_state_scheme, unit) K" where
  "freerange pa_start pa_end = freerange_loop (PGROUNDUP pa_start) pa_end"

definition kinit :: "('z kmem_state_scheme, unit) K" where
  "kinit =
     thn (forK [0..<NCPU] (\<lambda>i. initlock (KmemLock i) ''kmem'')) (
     bnd (gets kend) (\<lambda>e. freerange e PHYSTOP))"

section \<open>What the lists hold\<close>

fun chain :: "memory \<Rightarrow> uint64 \<Rightarrow> uint64 list \<Rightarrow> bool" where
  "chain m p [] \<longleftrightarrow> p = 0"
| "chain m p (x # xs) \<longleftrightarrow> p = x \<and> x \<noteq> 0 \<and> chain m (load64 m x) xs"

definition kpage :: "'z kmem_state_scheme \<Rightarrow> uint64 \<Rightarrow> bool" where
  "kpage s p \<longleftrightarrow> p mod PGSIZE = 0 \<and> kend s \<le> p \<and> p < PHYSTOP \<and> p \<noteq> 0"

definition free_pages :: "(nat \<Rightarrow> uint64 list) \<Rightarrow> uint64 list" where
  "free_pages L = concat (map L [0..<NCPU])"

definition kmem_ok :: "'z kmem_state_scheme \<Rightarrow> (nat \<Rightarrow> uint64 list) \<Rightarrow> bool" where
  "kmem_ok s L \<longleftrightarrow>
     (\<forall>i<NCPU. chain (ram s) (freelist s i) (L i)) \<and>
     distinct (free_pages L) \<and> (\<forall>p\<in>set (free_pages L). kpage s p)"

text \<open>The specification: a free list per CPU; a CPU with none takes from the next one that has.\<close>

definition spec_kfree :: "nat \<Rightarrow> uint64 \<Rightarrow> (nat \<Rightarrow> uint64 list) \<Rightarrow> (nat \<Rightarrow> uint64 list)" where
  "spec_kfree cid p L = L(cid := p # L cid)"

definition donor :: "nat \<Rightarrow> (nat \<Rightarrow> uint64 list) \<Rightarrow> nat option" where
  "donor cid L =
     (if L cid \<noteq> [] then Some cid else List.find (\<lambda>i. i \<noteq> cid \<and> L i \<noteq> []) [0..<NCPU])"

definition spec_kalloc :: "nat \<Rightarrow> (nat \<Rightarrow> uint64 list) \<Rightarrow> uint64 \<times> (nat \<Rightarrow> uint64 list)" where
  "spec_kalloc cid L =
     (case donor cid L of None \<Rightarrow> (0, L) | Some i \<Rightarrow> (hd (L i), L(i := tl (L i))))"

text \<open>The allocator's locks are free and the hart is one of the machine's.\<close>

definition kmem_ready :: "'z kmem_state_scheme \<Rightarrow> bool" where
  "kmem_ready s \<longleftrightarrow> cpu_room 2 s \<and> tp s < NCPU \<and> (\<forall>i<NCPU. locked (locks s (KmemLock i)) = 0)"

text \<open>Nothing changes but locks, RAM and free lists.\<close>

definition kmem_frame :: "'z kmem_state_scheme \<Rightarrow> 'z kmem_state_scheme \<Rightarrow> bool" where
  "kmem_frame s t \<longleftrightarrow> lk_same s t \<and> kend t = kend s \<and> kmem_state.more t = kmem_state.more s"

section \<open>Lists of pages\<close>

lemma kmem_state_lock [simp]:
  "ram (pushed s) = ram s" "ram (popped s) = ram s" "ram (acquired l s) = ram s"
  "ram (released l s) = ram s"
  "kend (pushed s) = kend s" "kend (popped s) = kend s" "kend (acquired l s) = kend s"
  "kend (released l s) = kend s"
  "freelist (pushed s) = freelist s" "freelist (popped s) = freelist s"
  "freelist (acquired l s) = freelist s" "freelist (released l s) = freelist s"
  "kmem_state.more (pushed s) = kmem_state.more s"
  "kmem_state.more (popped s) = kmem_state.more s"
  "kmem_state.more (acquired l s) = kmem_state.more s"
  "kmem_state.more (released l s) = kmem_state.more s"
  by (simp_all add: lockfx)

lemma lk_same_kmem [simp]:
  "lk_same s (t\<lparr>ram := m\<rparr>) = lk_same s t" "lk_same s (t\<lparr>freelist := f\<rparr>) = lk_same s t"
  by (simp_all add: lk_same_def)

lemma kpage_aligned: "kpage s p \<Longrightarrow> aligned p"
  by (simp add: kpage_def aligned_def)

lemma load64_page:
  assumes "aligned p" "\<And>a. PGROUNDDOWN a = p \<Longrightarrow> m' a = m a"
  shows "load64 m' p = load64 m p"
  using assms by (intro load64_cong) simp

lemma chain_frame:
  assumes "chain m p xs" "\<forall>x\<in>set xs. aligned x"
    and "\<And>a. PGROUNDDOWN a \<in> set xs \<Longrightarrow> m' a = m a"
  shows "chain m' p xs"
  using assms
proof (induction xs arbitrary: p)
  case (Cons x xs)
  have "load64 m' x = load64 m x"
    using Cons.prems by (intro load64_page) auto
  with Cons show ?case by auto
qed simp

lemma chain_hd: "chain m p xs \<Longrightarrow> p = (if xs = [] then 0 else hd xs)"
  by (cases xs) simp_all

lemma chain_nonzero: "chain m p xs \<Longrightarrow> p \<noteq> 0 \<longleftrightarrow> xs \<noteq> []"
  by (cases xs) auto

lemma set_free_pages: "set (free_pages L) = (\<Union>i<NCPU. set (L i))"
  unfolding free_pages_def by (simp only: set_concat set_map set_upt atLeast0LessThan image_image UN_simps)

lemma mset_concat_upd:
  fixes L :: "nat \<Rightarrow> 'a list"
  assumes "i < n"
  shows "mset (concat (map (L(i := xs)) [0..<n])) + mset (L i)
    = mset (concat (map L [0..<n])) + mset xs"
proof -
  have "[0..<n] = [0..<i] @ i # [Suc i..<n]"
    using assms upt_add_eq_append [of 0 i "n - i"] by (simp add: upt_conv_Cons)
  then show ?thesis by (simp add: add.assoc add.left_commute)
qed

lemma mset_free_pages_upd:
  "i < NCPU \<Longrightarrow> mset (free_pages (L(i := xs))) + mset (L i) = mset (free_pages L) + mset xs"
  unfolding free_pages_def by (rule mset_concat_upd)

lemma kmem_ok_cong:
  "ram t = ram s \<Longrightarrow> freelist t = freelist s \<Longrightarrow> kend t = kend s \<Longrightarrow> kmem_ok t L = kmem_ok s L"
  by (simp add: kmem_ok_def kpage_def)

lemma kmem_ok_lock [simp]:
  "kmem_ok (pushed s) L = kmem_ok s L" "kmem_ok (popped s) L = kmem_ok s L"
  "kmem_ok (acquired l s) L = kmem_ok s L" "kmem_ok (released l s) L = kmem_ok s L"
  by (rule kmem_ok_cong; simp)+

lemma kmem_ok_chain: "kmem_ok s L \<Longrightarrow> i < NCPU \<Longrightarrow> chain (ram s) (freelist s i) (L i)"
  by (simp add: kmem_ok_def)

lemma kmem_ok_kpage: "kmem_ok s L \<Longrightarrow> i < NCPU \<Longrightarrow> p \<in> set (L i) \<Longrightarrow> kpage s p"
  unfolding kmem_ok_def set_free_pages by blast

lemma free_pages_tl:
  assumes "i < NCPU" "L i \<noteq> []"
  shows "mset (free_pages L) = add_mset (hd (L i)) (mset (free_pages (L(i := tl (L i)))))"
proof -
  obtain x xs where L: "L i = x # xs" using assms by (cases "L i") auto
  then have "mset (free_pages L) + mset xs = add_mset x (mset (free_pages (L(i := xs)))) + mset xs"
    using mset_free_pages_upd [OF assms(1), of L xs] by simp
  then show ?thesis using L by simp
qed

lemma free_pages_Cons:
  "i < NCPU \<Longrightarrow> mset (free_pages (L(i := p # L i))) = add_mset p (mset (free_pages L))"
  using mset_free_pages_upd [of i L "p # L i"] by simp

lemma mset_free_pages_kfree:
  "c < NCPU \<Longrightarrow> mset (free_pages (spec_kfree c p L)) = mset (p # free_pages L)"
  using free_pages_Cons [of c L p] by (simp add: spec_kfree_def)

lemma set_free_pages_kfree:
  "c < NCPU \<Longrightarrow> set (free_pages (spec_kfree c p L)) = insert p (set (free_pages L))"
  using mset_free_pages_kfree [of c p L] by (metis mset_eq_setD list.simps(15))

section \<open>The free list of one CPU\<close>

lemma pop_free_eq:
  assumes "kmem_ok s L" "i < NCPU"
  shows "\<exists>t. pop_free i E s = Some (Ret (if L i = [] then 0 else hd (L i)) t)
    \<and> kmem_ok t (L(i := tl (L i))) \<and> lk_same s t \<and> ram t = ram s \<and> kend t = kend s
    \<and> kmem_state.more t = kmem_state.more s"
proof (cases "L i")
  case Nil
  then have "freelist s i = 0"
    using kmem_ok_chain [OF assms] by simp
  moreover have "L(i := []) = L" using Nil by auto
  ultimately show ?thesis
    using assms Nil by (simp add: pop_free_def kdefs)
next
  case (Cons x xs)
  let ?t = "s\<lparr>freelist := (freelist s)(i := load64 (ram s) x)\<rparr>"
  have x: "freelist s i = x" "x \<noteq> 0" "chain (ram s) (load64 (ram s) x) xs"
    using kmem_ok_chain [OF assms] Cons by auto
  have ms: "mset (free_pages L) = add_mset x (mset (free_pages (L(i := xs))))"
    using free_pages_tl [of i L] assms Cons by simp
  then have "mset (free_pages L) = mset (x # free_pages (L(i := xs)))" by simp
  then have "distinct (x # free_pages (L(i := xs)))" "set (free_pages (L(i := xs))) \<subseteq> set (free_pages L)"
    using assms by (metis kmem_ok_def mset_eq_imp_distinct_iff, metis mset_eq_setD set_subset_Cons)
  then have "kmem_ok ?t (L(i := xs))"
    using assms x unfolding kmem_ok_def by (auto simp: kpage_def)
  then show ?thesis
    using x Cons by (simp add: pop_free_def kdefs)
qed

section \<open>Freeing a page\<close>

lemma kfree_panic:
  "pa mod PGSIZE \<noteq> 0 \<or> pa < kend s \<or> pa \<ge> PHYSTOP \<Longrightarrow> kfree pa E s = Some (Panic ''kfree'')"
  by (simp add: kfree_def kdefs)

lemma kfree_exact:
  fixes s :: "'z kmem_state_scheme"
  assumes E: "uncontended E" and rdy: "kmem_ready s" and pa: "kpage s pa"
  shows "returns E s (kfree pa) (\<lambda>_ t. kmem_frame s t
    \<and> ram t = store64 (memset (ram s) pa 1 4096) pa (freelist s (tp s))
    \<and> freelist t = (freelist s)(tp s := pa))"
proof -
  define s1 where "s1 = s\<lparr>ram := memset (ram s) pa 1 4096\<rparr>"
  define s2 where "s2 = popped (pushed s1)"
  have ok: "cpu_room 1 s1" "lk_same s s1"
    using rdy by (simp_all add: s1_def kmem_ready_def cpu_room_def intr_enabled_def)
  have s2: "lk_same s s2" "cpu_room 1 s2"
    using lk_same_trans [OF ok(2) lk_same_popped_pushed [OF ok(1)]] cpu_ok_popped_pushed [OF ok(1)]
    by (simp_all add: s2_def)
  have free: "locked (locks s (KmemLock (tp s))) = 0"
    using rdy by (simp add: kmem_ready_def)
  have s2_simps: "tp s2 = tp s" "kend s2 = kend s" "kmem_state.more s2 = kmem_state.more s"
    "freelist s2 = freelist s" "ram s2 = memset (ram s) pa 1 4096" "tp s1 = tp s" "locked (locks s2 (KmemLock (tp s))) = 0"
    using free s2 by (simp_all add: s2_def s1_def lk_same_simps)
  have chk: "(pa mod PGSIZE \<noteq> 0 \<or> pa < kend s \<or> pa \<ge> PHYSTOP) = False"
    using pa by (auto simp: kpage_def)
  have t: "lk_same (acquired (KmemLock (tp s)) s2) (acquired (KmemLock (tp s)) s2
      \<lparr>ram := m, freelist := f\<rparr>)" for m f
    by simp
  show ?thesis
    unfolding kfree_def set_ram_def set_freelist_def kwp chk if_False
      s1_def [symmetric] returns_pop_pushed [OF ok(1)] s2_def [symmetric] tp_pushed
    using lk_same_section [OF s2(1) _ free t] rdy
    by (simp add: s2_simps returns_acquire [OF E] returns_release [OF t s2(2)]
        kmem_frame_def kmem_ready_def)
qed

text \<open>Freeing refines the specification.\<close>

lemma kfree_refines:
  fixes s :: "'z kmem_state_scheme"
  assumes E: "uncontended E" and rdy: "kmem_ready s" and pa: "kpage s pa"
    and ok: "kmem_ok s L" and fresh: "pa \<notin> set (free_pages L)"
  shows "returns E s (kfree pa) (\<lambda>_ t. kmem_frame s t \<and> kmem_ok t (spec_kfree (tp s) pa L)
    \<and> (\<forall>a. PGROUNDDOWN a \<noteq> pa \<longrightarrow> ram t a = ram s a))"
proof (rule returns_mono [OF kfree_exact [OF E rdy pa]])
  fix r t
  assume *: "kmem_frame s t \<and> ram t = store64 (memset (ram s) pa 1 4096) pa (freelist s (tp s))
    \<and> freelist t = (freelist s)(tp s := pa)"
  have c: "tp s < NCPU" using rdy by (simp add: kmem_ready_def)
  have al: "aligned pa" using pa by (rule kpage_aligned)
  have mem: "ram t a = ram s a" if "PGROUNDDOWN a \<noteq> pa" for a
  proof -
    have "4096 \<le> unat (a - pa)"
      using that PGROUNDDOWN_eq_iff [OF al] by (simp add: linorder_not_less)
    then show ?thesis using * that by (simp add: store64_other memset_page [OF al])
  qed
  have old: "chain (ram t) (freelist s i) (L i)" if "i < NCPU" for i
  proof (rule chain_frame [OF kmem_ok_chain [OF ok that]])
    show "\<forall>x\<in>set (L i). aligned x"
      using kmem_ok_kpage [OF ok that] kpage_aligned by blast
    show "ram t a = ram s a" if "PGROUNDDOWN a \<in> set (L i)" for a
      using that fresh \<open>i < NCPU\<close> by (intro mem) (auto simp: set_free_pages)
  qed
  have new: "chain (ram t) pa (pa # L (tp s))"
    using old [OF c] * pa by (simp add: kpage_def)
  have "distinct (free_pages (spec_kfree (tp s) pa L))"
    using ok fresh mset_free_pages_kfree [OF c, of pa L]
    by (metis kmem_ok_def mset_eq_imp_distinct_iff distinct.simps(2))
  moreover note set_free_pages_kfree [OF c, of pa L]
  moreover have "kpage t p = kpage s p" for p
    using * by (simp add: kpage_def kmem_frame_def)
  ultimately have "kmem_ok t (spec_kfree (tp s) pa L)"
    using ok old new pa * unfolding kmem_ok_def by (auto simp: spec_kfree_def)
  with * mem show "kmem_frame s t \<and> kmem_ok t (spec_kfree (tp s) pa L)
    \<and> (\<forall>a. PGROUNDDOWN a \<noteq> pa \<longrightarrow> ram t a = ram s a)" by blast
qed

section \<open>Allocating a page\<close>

lemma kmem_frame_trans: "kmem_frame s t \<Longrightarrow> kmem_frame t u \<Longrightarrow> kmem_frame s u"
  by (auto simp: kmem_frame_def intro: lk_same_trans)

lemma kmem_frame_refl [simp]: "kmem_frame s s"
  by (simp add: kmem_frame_def)

lemma returns_pop_free:
  assumes "kmem_ok s L" "i < NCPU"
  shows "returns E s (pop_free i) (\<lambda>r t. r = (if L i = [] then 0 else hd (L i))
    \<and> kmem_ok t (L(i := tl (L i))) \<and> kmem_frame s t \<and> ram t = ram s)"
  using pop_free_eq [OF assms, of E] by (auto simp: returns_def kmem_frame_def)

text \<open>Popping the list of CPU \<open>i\<close> inside its critical section.\<close>

lemma returns_visit:
  assumes E: "uncontended E" and ok: "kmem_ok s L" and i: "i < NCPU" and cpu: "cpu_room 1 s"
    and free: "locked (locks s (KmemLock i)) = 0"
  shows "returns E s (thn (acquire (KmemLock i)) (bnd (pop_free i) (\<lambda>r. thn (release (KmemLock i)) (ret r))))
    (\<lambda>r t. r = (if L i = [] then 0 else hd (L i)) \<and> kmem_ok t (L(i := tl (L i)))
       \<and> kmem_frame s t \<and> ram t = ram s)"
proof -
  let ?l = "KmemLock i"
  have ok': "kmem_ok (acquired ?l s) L" using ok by simp
  show ?thesis
    unfolding kwp returns_acquire [OF E free]
  proof (rule returns_mono [OF returns_pop_free [OF ok' i]], elim conjE)
    fix r t
    assume *: "r = (if L i = [] then 0 else hd (L i))" "kmem_ok t (L(i := tl (L i)))"
      "kmem_frame (acquired ?l s) t" "ram t = ram (acquired ?l s)"
    then have same: "lk_same (acquired ?l s) t" by (simp add: kmem_frame_def)
    show "returns E t (release ?l) (\<lambda>_ t. r = (if L i = [] then 0 else hd (L i))
        \<and> kmem_ok t (L(i := tl (L i))) \<and> kmem_frame s t \<and> ram t = ram s)"
      unfolding returns_release [OF same cpu]
      using * lk_same_released [OF same cpu free] by (simp add: kmem_frame_def)
  qed
qed

lemma returns_steal:
  assumes E: "uncontended E" and ok: "kmem_ok s L" and cpu: "cpu_room 1 s"
    and free: "\<forall>i\<in>set is. i < NCPU \<and> (i \<noteq> cid \<longrightarrow> locked (locks s (KmemLock i)) = 0)"
  shows "returns E s (steal cid is) (\<lambda>r t. kmem_frame s t \<and> ram t = ram s \<and>
    (case List.find (\<lambda>i. i \<noteq> cid \<and> L i \<noteq> []) is of
       None \<Rightarrow> r = None \<and> kmem_ok t L
     | Some j \<Rightarrow> r = Some (hd (L j)) \<and> kmem_ok t (L(j := tl (L j)))))"
  using ok cpu free
proof (induction "is" arbitrary: s)
  case Nil
  then show ?case by (simp add: steal_def kwp)
next
  case (Cons i "is")
  let ?Q = "\<lambda>s r t. kmem_frame s t \<and> ram t = ram s \<and>
    (case List.find (\<lambda>i. i \<noteq> cid \<and> L i \<noteq> []) is of
       None \<Rightarrow> r = None \<and> kmem_ok t L
     | Some j \<Rightarrow> r = Some (hd (L j)) \<and> kmem_ok t (L(j := tl (L j))))"
  show ?case
  proof (cases "i = cid")
    case True
    then show ?thesis using Cons by (simp add: steal_def kwp)
  next
    case False
    have i: "i < NCPU" "locked (locks s (KmemLock i)) = 0" using Cons.prems False by auto
    let ?v = "\<lambda>r. if r \<noteq> 0 then Some r else None"
    have eq: "steal cid (i # is) = bnd (thn (acquire (KmemLock i)) (bnd (pop_free i)
        (\<lambda>r. thn (release (KmemLock i)) (ret r))))
      (\<lambda>r. case ?v r of Some a \<Rightarrow> ret (Some a) | None \<Rightarrow> steal cid is)"
      using False by (simp add: steal_def thn_def bnd_assoc cong: option.case_cong)
    show ?thesis
      unfolding eq returns_bnd
    proof (rule returns_mono [OF returns_visit [OF E Cons.prems(1) i(1) Cons.prems(2) i(2)]], elim conjE)
      fix r t
      assume r: "r = (if L i = [] then 0 else hd (L i))" and t: "kmem_ok t (L(i := tl (L i)))"
        "kmem_frame s t" "ram t = ram s"
      show "returns E t (case ?v r of Some a \<Rightarrow> ret (Some a) | None \<Rightarrow> steal cid is)
        (\<lambda>r t. kmem_frame s t \<and> ram t = ram s \<and>
          (case List.find (\<lambda>i. i \<noteq> cid \<and> L i \<noteq> []) (i # is) of
            None \<Rightarrow> r = None \<and> kmem_ok t L
          | Some j \<Rightarrow> r = Some (hd (L j)) \<and> kmem_ok t (L(j := tl (L j)))))"
      proof (cases "L i")
        case Nil
        then have "L(i := tl (L i)) = L" by auto
        then have "returns E t (steal cid is) (?Q t)"
          using t Cons.prems by (intro Cons.IH)
            (auto simp: kmem_frame_def lk_same_simps intro: lk_same_cpu_ok)
        then show ?thesis
          using r Nil t(2,3) by (auto elim!: returns_mono intro: kmem_frame_trans)
      next
        case (Cons x xs)
        have "kpage s x" using kmem_ok_kpage [OF \<open>kmem_ok s L\<close> i(1)] Cons by simp
        then show ?thesis using r t Cons False by (simp add: kwp kpage_def)
      qed
    qed
  qed
qed

lemma kmem_ok_ram:
  assumes ok: "kmem_ok s L" and m: "\<And>a. PGROUNDDOWN a \<in> set (free_pages L) \<Longrightarrow> m a = ram s a"
  shows "kmem_ok (s\<lparr>ram := m\<rparr>) L"
proof -
  have "chain m (freelist s i) (L i)" if "i < NCPU" for i
  proof (rule chain_frame [OF kmem_ok_chain [OF ok that]])
    show "\<forall>x\<in>set (L i). aligned x"
      using kmem_ok_kpage [OF ok that] kpage_aligned by blast
    show "m a = ram s a" if "PGROUNDDOWN a \<in> set (L i)" for a
      using that \<open>i < NCPU\<close> by (intro m) (auto simp: set_free_pages)
  qed
  then show ?thesis using ok by (simp add: kmem_ok_def kpage_def)
qed

lemma donor_SomeD: "donor c L = Some i \<Longrightarrow> c < NCPU \<Longrightarrow> i < NCPU \<and> L i \<noteq> []"
  by (auto simp: donor_def find_Some_iff split: if_splits simp del: upt_rec_numeral)

lemma donor_None_iff:
  assumes "c < NCPU" shows "donor c L = None \<longleftrightarrow> free_pages L = []"
proof -
  have "donor c L = None \<longleftrightarrow> (\<forall>i<NCPU. L i = [])"
    using assms by (auto simp: donor_def find_None_iff simp del: upt_rec_numeral)
  also have "\<dots> \<longleftrightarrow> set (free_pages L) = {}"
    unfolding set_free_pages by auto
  finally show ?thesis by simp
qed

lemma spec_kalloc_page:
  assumes ok: "kmem_ok s L" and c: "c < NCPU" and r: "fst (spec_kalloc c L) \<noteq> 0"
  shows "kpage s (fst (spec_kalloc c L))"
    and "fst (spec_kalloc c L) \<in> set (free_pages L)"
    and "set (free_pages (snd (spec_kalloc c L))) = set (free_pages L) - {fst (spec_kalloc c L)}"
proof -
  obtain i where i: "donor c L = Some i" using r by (auto simp: spec_kalloc_def split: option.splits)
  then have i': "i < NCPU" "L i \<noteq> []" using donor_SomeD c by auto
  have eq: "spec_kalloc c L = (hd (L i), L(i := tl (L i)))" using i by (simp add: spec_kalloc_def)
  have "mset (free_pages L) = mset (hd (L i) # free_pages (L(i := tl (L i))))"
    using free_pages_tl [of i L] i' by simp
  moreover have "distinct (free_pages L)" using ok by (simp add: kmem_ok_def)
  ultimately have "distinct (hd (L i) # free_pages (L(i := tl (L i))))"
    and set: "set (free_pages L) = insert (hd (L i)) (set (free_pages (L(i := tl (L i)))))"
    by (metis mset_eq_imp_distinct_iff, metis mset_eq_setD list.simps(15))
  then show "set (free_pages (snd (spec_kalloc c L))) = set (free_pages L) - {fst (spec_kalloc c L)}"
    "fst (spec_kalloc c L) \<in> set (free_pages L)"
    by (auto simp: eq)
  then show "kpage s (fst (spec_kalloc c L))" using ok by (simp add: kmem_ok_def)
qed

lemma returns_kalloc_pick:
  assumes E: "uncontended E" and ok: "kmem_ok s L" and cpu: "cpu_room 1 s" and c: "c < NCPU"
    and free: "\<forall>i<NCPU. i \<noteq> c \<longrightarrow> locked (locks s (KmemLock i)) = 0"
  shows "returns E s (kalloc_pick c)
    (\<lambda>r t. r = fst (spec_kalloc c L) \<and> kmem_ok t (snd (spec_kalloc c L))
       \<and> kmem_frame s t \<and> ram t = ram s)"
  unfolding kalloc_pick_def returns_bnd [of _ _ "pop_free c"]
proof (rule returns_mono [OF returns_pop_free [OF ok c]], elim conjE)
  fix r t
  assume r: "r = (if L c = [] then 0 else hd (L c))" and t: "kmem_ok t (L(c := tl (L c)))"
    "kmem_frame s t" "ram t = ram s"
  let ?Q = "\<lambda>r t. r = fst (spec_kalloc c L) \<and> kmem_ok t (snd (spec_kalloc c L))
       \<and> kmem_frame s t \<and> ram t = ram s"
  show "returns E t (if r \<noteq> 0 then ret r
      else bnd (steal c [0..<NCPU]) (\<lambda>found. ret (case found of Some r \<Rightarrow> r | None \<Rightarrow> 0))) ?Q"
  proof (cases "L c")
    case Nil
    then have L: "L(c := tl (L c)) = L" by auto
    have "cpu_room 1 t" and free': "\<forall>i\<in>set [0..<NCPU]. i < NCPU \<and> (i \<noteq> c \<longrightarrow> locked (locks t (KmemLock i)) = 0)"
      using t(2) cpu free by (auto simp: kmem_frame_def lk_same_simps intro: lk_same_cpu_ok)
    then have "returns E t (steal c [0..<NCPU]) (\<lambda>r t. ?Q (case r of Some r \<Rightarrow> r | None \<Rightarrow> 0) t)"
      using t(2,3) Nil
      by (intro returns_mono [OF returns_steal [OF E t(1) [unfolded L] _ free']])
        (auto simp: spec_kalloc_def donor_def intro: kmem_frame_trans
          simp del: upt_rec_numeral split: option.splits)
    then show ?thesis
      using r Nil by (simp add: kwp del: upt_rec_numeral)
  next
    case (Cons x xs)
    have "x \<noteq> 0" using kmem_ok_kpage [OF ok c] Cons by (auto simp: kpage_def)
    then show ?thesis using r t Cons by (simp add: kwp spec_kalloc_def donor_def)
  qed
qed

text \<open>Allocating refines the specification; a page it returns is filled with junk.\<close>

lemma kalloc_refines:
  fixes s :: "'z kmem_state_scheme"
  assumes E: "uncontended E" and rdy: "kmem_ready s" and ok: "kmem_ok s L"
  shows "returns E s kalloc (\<lambda>r t. r = fst (spec_kalloc (tp s) L)
    \<and> kmem_ok t (snd (spec_kalloc (tp s) L)) \<and> kmem_frame s t
    \<and> ram t = (if r = 0 then ram s else memset (ram s) r 5 4096))"
proof -
  let ?c = "tp s" and ?l = "KmemLock (tp s)"
  let ?r = "fst (spec_kalloc ?c L)" and ?L = "snd (spec_kalloc ?c L)"
  define s1 where "s1 = popped (pushed s)"
  have c: "?c < NCPU" and cpu2: "cpu_room 2 s" and cpu: "cpu_room 1 s" and free: "\<forall>i<NCPU. locked (locks s (KmemLock i)) = 0"
    using rdy by (auto simp: kmem_ready_def)
  have s1: "lk_same s s1" "cpu_room 2 s1" "\<forall>i<NCPU. locked (locks s1 (KmemLock i)) = 0"
    using lk_same_popped_pushed [OF cpu] cpu_ok_popped_pushed [OF cpu2] free
    by (simp_all add: s1_def lk_same_simps)
  have s11: "cpu_room 1 s1" using s1(2) by simp
  have s1_simps: "ram s1 = ram s" "kend s1 = kend s" "kmem_state.more s1 = kmem_state.more s"
    by (simp_all add: s1_def)
  have a: "kmem_ok (acquired ?l s1) L" "cpu_room 1 (acquired ?l s1)"
    "\<forall>i<NCPU. i \<noteq> ?c \<longrightarrow> locked (locks (acquired ?l s1) (KmemLock i)) = 0"
    using ok s1 by (simp_all add: s1_def cpu_ok_acquired)
  show ?thesis
    unfolding kalloc_def kwp returns_pop_pushed [OF cpu] tp_pushed s1_def [symmetric]
      returns_acquire [OF E s1(3) [rule_format, OF c]]
  proof (rule returns_mono [OF returns_kalloc_pick [OF E a(1,2) c a(3)]], elim conjE)
    fix r t
    assume r: "r = ?r" and t: "kmem_ok t ?L" "kmem_frame (acquired ?l s1) t" "ram t = ram (acquired ?l s1)"
    have same: "lk_same (acquired ?l s1) t" using t by (simp add: kmem_frame_def)
    have "lk_same s (released ?l t)"
      using lk_same_section [OF s1(1) cpu _ same] free c by simp
    then have fr: "kmem_frame s (released ?l t)" "ram (released ?l t) = ram s"
      using t s1_simps by (simp_all add: kmem_frame_def)
    have "kmem_ok (released ?l t\<lparr>ram := memset (ram s) ?r 5 4096\<rparr>) ?L" if "?r \<noteq> 0"
      using spec_kalloc_page [OF ok c that] t fr(2)
      by (intro kmem_ok_ram) (auto simp: memset_page kpage_aligned)
    moreover have "kmem_ok (released ?l t) ?L" using t by simp
    ultimately show "returns E t (release ?l) (\<lambda>_ t. if r \<noteq> 0
        then returns E t (set_ram (\<lambda>m. memset m r 5 4096)) (\<lambda>_ t. r = ?r \<and> kmem_ok t ?L
          \<and> kmem_frame s t \<and> ram t = (if r = 0 then ram s else memset (ram s) r 5 4096))
        else r = ?r \<and> kmem_ok t ?L
          \<and> kmem_frame s t \<and> ram t = (if r = 0 then ram s else memset (ram s) r 5 4096))"
      unfolding returns_release [OF same s11] using r fr
      by (simp add: kwp set_ram_def kmem_frame_def)
  qed
qed

section \<open>Initialisation\<close>

lemma unat_PHYSTOP: "unat PHYSTOP = 0x88000000"
  by (simp add: PHYSTOP_def)

lemma returns_freerange_loop:
  "returns E s (freerange_loop p e) Q =
   (if p + PGSIZE \<le> e then returns E s (kfree p) (\<lambda>_ t. returns E t (freerange_loop (p + PGSIZE) e) Q)
    else Q () s)"
  by (subst returns_cong [OF freerange_loop.simps]) (simp add: kwp)

text \<open>The \<open>n\<close> pages from \<open>p\<close> on.\<close>

fun pages_from :: "uint64 \<Rightarrow> nat \<Rightarrow> uint64 list" where
  "pages_from p 0 = []"
| "pages_from p (Suc n) = p # pages_from (p + PGSIZE) n"

lemma set_pages_from:
  "unat p + 4096 * n < 2 ^ 64 \<Longrightarrow>
   q \<in> set (pages_from p n) \<Longrightarrow> unat p \<le> unat q \<and> unat q < unat p + 4096 * n"
proof (induction n arbitrary: p)
  case (Suc n)
  have "unat (p + 4096) = unat p + 4096"
    using Suc.prems(1) by (intro trans [OF unat_add64]) simp_all
  with Suc.IH [of "p + 4096"] Suc.prems show ?case by auto
qed simp

lemma freerange_loop_refines:
  fixes s :: "'z kmem_state_scheme"
  assumes E: "uncontended E" and rdy: "kmem_ready s" and ok: "kmem_ok s L"
    and p: "aligned p" "kend s \<le> p" "0 < unat p"
    and n: "unat p + 4096 * n \<le> unat PHYSTOP" "unat PHYSTOP < unat p + 4096 * (n + 1)"
    and fresh: "\<forall>q\<in>set (free_pages L). q < p"
  shows "returns E s (freerange_loop p PHYSTOP) (\<lambda>_ t. kmem_frame s t
    \<and> kmem_ok t (L(tp s := rev (pages_from p n) @ L (tp s))))"
  using rdy ok p n fresh
proof (induction n arbitrary: s L p)
  case 0
  have "unat (p + 4096) = unat p + 4096"
    using 0 by (intro trans [OF unat_add64]) (simp_all add: unat_PHYSTOP)
  then have "\<not> p + PGSIZE \<le> PHYSTOP" using 0 by (simp add: word_le_nat_alt)
  then show ?case using 0 by (simp add: returns_freerange_loop)
next
  case (Suc n)
  let ?c = "tp s" and ?p = "p + PGSIZE"
  have p': "unat ?p = unat p + 4096"
    using Suc.prems by (intro trans [OF unat_add64]) (simp_all add: unat_PHYSTOP)
  have le: "?p \<le> PHYSTOP" using Suc.prems p' by (simp add: word_le_nat_alt)
  have lt: "p < ?p" using p' by (simp add: word_less_nat_alt)
  have al: "aligned ?p" using Suc.prems(3) p' by (simp add: aligned_unat)
  have pg: "kpage s p"
    using Suc.prems le lt by (auto simp: kpage_def aligned_def)
  have fresh: "p \<notin> set (free_pages L)" using Suc.prems by auto
  have c: "?c < NCPU" using Suc.prems by (simp add: kmem_ready_def)
  show ?case
    unfolding returns_freerange_loop [of E s] if_P [OF le]
  proof (rule returns_mono [OF kfree_refines [OF E Suc.prems(1) pg Suc.prems(2) fresh]], elim conjE)
    fix r t
    assume t: "kmem_frame s t" "kmem_ok t (spec_kfree ?c p L)"
    let ?L = "spec_kfree ?c p L"
    have tp: "tp t = ?c" "kend t = kend s" and rdy: "kmem_ready t"
      using t Suc.prems(1) by (auto simp: kmem_frame_def kmem_ready_def lk_same_simps intro: lk_same_cpu_ok)
    have "set (free_pages ?L) = insert p (set (free_pages L))"
      using c by (rule set_free_pages_kfree)
    then have "\<forall>q\<in>set (free_pages ?L). q < ?p"
      using Suc.prems lt by auto
    then have "returns E t (freerange_loop ?p PHYSTOP) (\<lambda>_ u. kmem_frame t u
        \<and> kmem_ok u (?L(tp t := rev (pages_from ?p n) @ ?L (tp t))))"
      using Suc.prems p' lt al tp by (intro Suc.IH rdy t(2)) simp_all
    then show "returns E t (freerange_loop ?p PHYSTOP) (\<lambda>_ u. kmem_frame s u
        \<and> kmem_ok u (L(?c := rev (pages_from p (Suc n)) @ L ?c)))"
      by (rule returns_mono)
        (use t tp in \<open>auto simp: spec_kfree_def intro: kmem_frame_trans\<close>)
  qed
qed

text \<open>Empty slots of the table of locks.\<close>

definition free_slots :: "'z machine_scheme \<Rightarrow> nat set" where
  "free_slots s = {j. j < NLOCK \<and> locktab s j = None}"

lemma finite_free_slots [simp]: "finite (free_slots s)"
  by (simp add: free_slots_def)

lemma lock_inited_simps:
  assumes "lock_inited l s t"
  shows "tp t = tp s" "cpu_room m s \<Longrightarrow> cpu_room m t" "machine.more t = machine.more s"
    "locked (locks t l) = 0" "k \<noteq> l \<Longrightarrow> locked (locks t k) = locked (locks s k)"
    "card (free_slots s) \<le> Suc (card (free_slots t))"
proof -
  obtain j lk where j: "j < NLOCK" "locktab s j = None" "locked lk = 0"
    and same: "lk_same (s\<lparr>locks := (locks s)(l := lk), locktab := (locktab s)(j \<mapsto> l)\<rparr>) t"
    using assms by (auto simp: lock_inited_def)
  show "tp t = tp s" "machine.more t = machine.more s" "locked (locks t l) = 0"
    "k \<noteq> l \<Longrightarrow> locked (locks t k) = locked (locks s k)"
    using same j assms by (auto simp: lk_same_simps lock_inited_def)
  show "cpu_room m t" if "cpu_room m s"
    using lk_same_cpu_ok [OF same, of m] that by (simp add: cpu_room_def intr_enabled_def)
  have "locktab t = (locktab s)(j \<mapsto> l)" using same by (simp add: lk_same_def)
  then have "free_slots s = insert j (free_slots t)"
    using j by (auto simp: free_slots_def)
  then show "card (free_slots s) \<le> Suc (card (free_slots t))"
    by (simp add: card_insert_le_m1 card_insert_if)
qed

lemma more_eq_kmem:
  "machine.more t = machine.more s \<Longrightarrow>
     ram t = ram s \<and> kend t = kend s \<and> freelist t = freelist s \<and> kmem_state.more t = kmem_state.more s"
  by (cases t; cases s) simp

lemma page_count:
  assumes "(a :: nat) \<le> b"
  shows "a + 4096 * ((b - a) div 4096) \<le> b \<and> b < a + 4096 * ((b - a) div 4096 + 1)"
proof -
  have "4096 * ((b - a) div 4096) + (b - a) mod 4096 = b - a" "(b - a) mod 4096 < 4096" by simp_all
  with assms show ?thesis unfolding distrib_left by linarith
qed

lemma kinit_refines:
  fixes s :: "'z kmem_state_scheme"
  assumes E: "uncontended E" and cpu: "cpu_room 2 s" "tp s < NCPU" and lk: "locked (locks s LockLocks) = 0"
    and slots: "NCPU \<le> card (free_slots s)" and bss: "\<forall>i. freelist s i = 0"
    and kend: "0 < kend s" "unat (kend s) + 4096 \<le> unat PHYSTOP"
  defines "p0 \<equiv> PGROUNDUP (kend s)"
  shows "returns E s kinit (\<lambda>_ t. kmem_ready t \<and> kmem_ok t ((\<lambda>_. [])(tp s :=
    rev (pages_from p0 ((unat PHYSTOP - unat p0) div 4096)))))"
proof -
  define I where "I i t \<longleftrightarrow> cpu_room 2 t \<and> tp t = tp s \<and> locked (locks t LockLocks) = 0 \<and>
    (\<forall>j<i. locked (locks t (KmemLock j)) = 0) \<and> NCPU \<le> card (free_slots t) + i \<and>
    machine.more t = machine.more s" for i and t :: "'z kmem_state_scheme"
  have locks: "returns E s (forK [0..<NCPU] (\<lambda>i. initlock (KmemLock i) ''kmem'')) (\<lambda>_. I NCPU)"
  proof (rule returns_forK_upt)
    show "I 0 s" using cpu lk slots by (simp add: I_def)
  next
    fix i t
    assume i: "i < NCPU" and I: "I i t"
    then have "free_slots t \<noteq> {}" by (auto simp: I_def)
    then obtain j where j: "j < NLOCK" "locktab t j = None" by (auto simp: free_slots_def)
    show "returns E t (initlock (KmemLock i) ''kmem'') (\<lambda>_. I (Suc i))"
    proof (rule returns_mono [OF returns_initlock [OF E _ _ j]])
      fix u :: "'z kmem_state_scheme"
      assume "lock_inited (KmemLock i) t u"
      from lock_inited_simps [OF this] I show "I (Suc i) u"
        by (auto simp: I_def less_Suc_eq)
    qed (use I in \<open>simp_all add: I_def\<close>)
  qed
  show ?thesis
    unfolding kinit_def freerange_def kwp
  proof (rule returns_mono [OF locks])
    fix t :: "'z kmem_state_scheme"
    assume I: "I NCPU t"
    have same: "ram t = ram s" "kend t = kend s" "freelist t = freelist s"
      using I more_eq_kmem [of t s] by (simp_all add: I_def)
    have rdy: "kmem_ready t" using I cpu by (auto simp: kmem_ready_def I_def)
    have none: "free_pages (\<lambda>_. []) = []" by (simp add: free_pages_def)
    have ok: "kmem_ok t (\<lambda>_. [])" using bss same none by (simp add: kmem_ok_def)
    have p0: "unat p0 = (unat (kend s) + 4095) div 4096 * 4096"
      unfolding p0_def using kend by (intro unat_PGROUNDUP) (simp add: unat_PHYSTOP)
    then have al: "aligned p0" by (simp add: aligned_unat)
    have le: "unat (kend s) \<le> unat p0" "unat p0 \<le> unat PHYSTOP"
      using kend p0 by (auto simp: unat_PHYSTOP)
    have "returns E t (freerange_loop p0 PHYSTOP) (\<lambda>_ u. kmem_frame t u
      \<and> kmem_ok u ((\<lambda>_. [])(tp t := rev (pages_from p0 ((unat PHYSTOP - unat p0) div 4096)) @ [])))"
    proof (rule freerange_loop_refines [OF E rdy ok al])
      show "kend t \<le> p0" using le same by (simp add: word_le_nat_alt)
      show "0 < unat p0" using le kend by (metis le_zero_eq neq0_conv unat_eq_zero word_gt_0)
      show "unat p0 + 4096 * ((unat PHYSTOP - unat p0) div 4096) \<le> unat PHYSTOP"
        "unat PHYSTOP < unat p0 + 4096 * ((unat PHYSTOP - unat p0) div 4096 + 1)"
        using page_count [OF le(2)] by blast+
    qed (simp add: none)
    then show "returns E t (freerange_loop (PGROUNDUP (kend t)) PHYSTOP) (\<lambda>_ t. kmem_ready t \<and>
      kmem_ok t ((\<lambda>_. [])(tp s := rev (pages_from p0 ((unat PHYSTOP - unat p0) div 4096)))))"
      using I same rdy unfolding p0_def [symmetric]
      by (auto elim!: returns_mono simp: I_def kmem_ready_def kmem_frame_def lk_same_simps p0_def [symmetric]
          intro: lk_same_cpu_ok)
  qed
qed

section \<open>The interface of the allocator\<close>

text \<open>
  What the users of the allocator rely on: there is a pool of free pages; allocation
  takes a page out of it, or fails when it is empty; freeing puts one back. Neither
  touches memory outside the page it is about.
\<close>

locale page_pool =
  fixes quiet :: "(lockid, 's) env \<Rightarrow> bool"
    and pool :: "'s \<Rightarrow> uint64 set \<Rightarrow> bool"
    and mem :: "'s \<Rightarrow> memory"
    and usable :: "'s \<Rightarrow> uint64 \<Rightarrow> bool"
    and frame :: "'s \<Rightarrow> 's \<Rightarrow> bool"
    and alloc :: "('s, uint64) K"
    and free :: "uint64 \<Rightarrow> ('s, unit) K"
  assumes alloc_empty: "quiet E \<Longrightarrow> pool s {} \<Longrightarrow>
      returns E s alloc (\<lambda>r t. r = 0 \<and> pool t {} \<and> frame s t \<and> mem t = mem s)"
    and alloc_page: "quiet E \<Longrightarrow> pool s F \<Longrightarrow> F \<noteq> {} \<Longrightarrow>
      returns E s alloc (\<lambda>r t. r \<noteq> 0 \<and> r \<in> F \<and> usable t r \<and> pool t (F - {r}) \<and> frame s t
        \<and> (\<forall>a. PGROUNDDOWN a \<noteq> r \<longrightarrow> mem t a = mem s a))"
    and free_page: "quiet E \<Longrightarrow> pool s F \<Longrightarrow> usable s p \<Longrightarrow> p \<notin> F \<Longrightarrow>
      returns E s (free p) (\<lambda>_ t. pool t (insert p F) \<and> frame s t
        \<and> (\<forall>a. PGROUNDDOWN a \<noteq> p \<longrightarrow> mem t a = mem s a))"
    and pool_finite: "pool s F \<Longrightarrow> finite F"
    and frame_refl: "frame s s"
    and frame_trans: "frame s t \<Longrightarrow> frame t u \<Longrightarrow> frame s u"
begin

text \<open>\<open>n\<close> allocations in a row.\<close>

primrec allocs :: "nat \<Rightarrow> ('s, uint64 list) K" where
  "allocs 0 = ret []"
| "allocs (Suc n) = bnd alloc (\<lambda>p. bnd (allocs n) (\<lambda>ps. ret (p # ps)))"

text \<open>They give \<open>n\<close> different pages when the pool has that many.\<close>

lemma allocs_distinct:
  assumes "quiet E" "pool s F" "n \<le> card F"
  shows "returns E s (allocs n) (\<lambda>ps t. length ps = n \<and> distinct ps \<and> set ps \<subseteq> F - {0}
    \<and> pool t (F - set ps) \<and> frame s t \<and> (\<forall>a. PGROUNDDOWN a \<notin> set ps \<longrightarrow> mem t a = mem s a))"
  using assms(2,3)
proof (induction n arbitrary: s F)
  case 0
  then show ?case by (simp add: kwp frame_refl)
next
  case (Suc n)
  have F: "finite F" "F \<noteq> {}" using Suc.prems pool_finite by auto
  show ?case
    unfolding allocs.simps kwp
  proof (rule returns_mono [OF alloc_page [OF assms(1) Suc.prems(1) F(2)]], elim conjE)
    fix p t
    assume p: "p \<noteq> 0" "p \<in> F" and t: "pool t (F - {p})" "frame s t"
      "\<forall>a. PGROUNDDOWN a \<noteq> p \<longrightarrow> mem t a = mem s a"
    have "n \<le> card (F - {p})" using Suc.prems F p by simp
    have eq: "F - set (p # ps) = F - {p} - set ps" for ps by auto
    from Suc.IH [OF t(1) \<open>n \<le> card (F - {p})\<close>]
    show "returns E t (allocs n) (\<lambda>ps t. length (p # ps) = Suc n \<and> distinct (p # ps)
        \<and> set (p # ps) \<subseteq> F - {0} \<and> pool t (F - set (p # ps)) \<and> frame s t
        \<and> (\<forall>a. PGROUNDDOWN a \<notin> set (p # ps) \<longrightarrow> mem t a = mem s a))"
      unfolding eq by (rule returns_mono) (use p t in \<open>auto intro: frame_trans\<close>)
  qed
qed

text \<open>A page allocated and freed again leaves the pool as it was.\<close>

lemma alloc_free:
  assumes "quiet E" "pool s F" "F \<noteq> {}"
  shows "returns E s (bnd alloc free) (\<lambda>_ t. pool t F \<and> frame s t)"
  unfolding returns_bnd
proof (rule returns_mono [OF alloc_page [OF assms]], elim conjE)
  fix p t
  assume p: "p \<in> F" "usable t p" and t: "pool t (F - {p})" "frame s t"
  show "returns E t (free p) (\<lambda>_ t. pool t F \<and> frame s t)"
    by (rule returns_mono [OF free_page [OF assms(1) t(1) p(2)]])
      (use p t in \<open>auto simp: insert_absorb intro: frame_trans\<close>)
qed

end

definition kmem_pool :: "'z kmem_state_scheme \<Rightarrow> uint64 set \<Rightarrow> bool" where
  "kmem_pool s F \<longleftrightarrow> kmem_ready s \<and> (\<exists>L. kmem_ok s L \<and> set (free_pages L) = F)"

lemma kmem_frame_ready: "kmem_frame s t \<Longrightarrow> kmem_ready s \<Longrightarrow> kmem_ready t"
  by (auto simp: kmem_frame_def kmem_ready_def lk_same_simps intro: lk_same_cpu_ok)

lemma spec_kalloc_0: "c < NCPU \<Longrightarrow> kmem_ok s L \<Longrightarrow> fst (spec_kalloc c L) = 0 \<longleftrightarrow> free_pages L = []"
proof -
  assume c: "c < NCPU" and ok: "kmem_ok s L"
  show ?thesis
  proof (cases "donor c L")
    case None
    then show ?thesis using donor_None_iff [OF c, of L] None by (simp add: spec_kalloc_def)
  next
    case (Some i)
    then have i: "i < NCPU" "L i \<noteq> []" using donor_SomeD c by auto
    then have "kpage s (hd (L i))" using kmem_ok_kpage [OF ok] by simp
    then show ?thesis using donor_None_iff [OF c, of L] Some by (simp add: spec_kalloc_def kpage_def)
  qed
qed

lemma kalloc_pool:
  fixes s :: "'z kmem_state_scheme"
  assumes E: "uncontended E" and pool: "kmem_pool s F"
  shows "returns E s kalloc (\<lambda>r t. (r = 0 \<longleftrightarrow> F = {}) \<and> kmem_frame s t \<and>
    (if F = {} then kmem_pool t {} \<and> ram t = ram s
     else r \<in> F \<and> kpage t r \<and> kmem_pool t (F - {r}) \<and> (\<forall>a. PGROUNDDOWN a \<noteq> r \<longrightarrow> ram t a = ram s a)))"
proof -
  obtain L where rdy: "kmem_ready s" and ok: "kmem_ok s L" and F: "F = set (free_pages L)"
    using pool by (auto simp: kmem_pool_def)
  have c: "tp s < NCPU" using rdy by (simp add: kmem_ready_def)
  have zero: "fst (spec_kalloc (tp s) L) = 0 \<longleftrightarrow> F = {}" using spec_kalloc_0 [OF c ok] F by simp
  have none: "F = {} \<Longrightarrow> snd (spec_kalloc (tp s) L) = L"
    using donor_None_iff [OF c, of L] F by (simp add: spec_kalloc_def)
  show ?thesis
  proof (rule returns_mono [OF kalloc_refines [OF E rdy ok]], elim conjE)
    fix r t
    assume r: "r = fst (spec_kalloc (tp s) L)" and t: "kmem_ok t (snd (spec_kalloc (tp s) L))"
      "kmem_frame s t" "ram t = (if r = 0 then ram s else memset (ram s) r 5 4096)"
    have rdy': "kmem_ready t" using t(2) rdy by (rule kmem_frame_ready)
    have kp: "kpage t p = kpage s p" for p using t(2) by (simp add: kpage_def kmem_frame_def)
    show "(r = 0 \<longleftrightarrow> F = {}) \<and> kmem_frame s t \<and>
      (if F = {} then kmem_pool t {} \<and> ram t = ram s
       else r \<in> F \<and> kpage t r \<and> kmem_pool t (F - {r}) \<and> (\<forall>a. PGROUNDDOWN a \<noteq> r \<longrightarrow> ram t a = ram s a))"
    proof (cases "F = {}")
      case True
      then show ?thesis using zero none r t rdy' F unfolding kmem_pool_def by auto
    next
      case False
      then have nz: "fst (spec_kalloc (tp s) L) \<noteq> 0" using zero by simp
      note pg = spec_kalloc_page [OF ok c nz]
      have "ram t a = ram s a" if "PGROUNDDOWN a \<noteq> r" for a
        using that t(3) r nz pg(1) by (simp add: memset_page kpage_aligned)
      then show ?thesis
        using False zero r t(1,2) rdy' pg kp unfolding kmem_pool_def F by auto
    qed
  qed
qed

interpretation kpool: page_pool uncontended kmem_pool ram kpage kmem_frame kalloc kfree
proof
  fix E :: "(lockid, 'z kmem_state_scheme) env" and s :: "'z kmem_state_scheme" and F p
  assume E: "uncontended E"
  show "kmem_pool s {} \<Longrightarrow> returns E s kalloc (\<lambda>r t. r = 0 \<and> kmem_pool t {} \<and> kmem_frame s t \<and> ram t = ram s)"
    by (rule returns_mono [OF kalloc_pool [OF E]]) auto
  show "returns E s kalloc (\<lambda>r t. r \<noteq> 0 \<and> r \<in> F \<and> kpage t r
      \<and> kmem_pool t (F - {r}) \<and> kmem_frame s t \<and> (\<forall>a. PGROUNDDOWN a \<noteq> r \<longrightarrow> ram t a = ram s a))"
    if "kmem_pool s F" "F \<noteq> {}"
    by (rule returns_mono [OF kalloc_pool [OF E that(1)]]) (use that(2) in simp)
  assume "kmem_pool s F" and p: "kpage s p" "p \<notin> F"
  then obtain L where L: "kmem_ready s" "kmem_ok s L" "F = set (free_pages L)"
    by (auto simp: kmem_pool_def)
  have "set (free_pages (spec_kfree (tp s) p L)) = insert p F"
    using set_free_pages_kfree [of "tp s" p L] L by (simp add: kmem_ready_def)
  then show "returns E s (kfree p) (\<lambda>_ t. kmem_pool t (insert p F) \<and> kmem_frame s t
      \<and> (\<forall>a. PGROUNDDOWN a \<noteq> p \<longrightarrow> ram t a = ram s a))"
    using p L kmem_frame_ready [OF _ L(1)]
    by (intro returns_mono [OF kfree_refines [OF E L(1) p(1) L(2)]]) (auto simp: kmem_pool_def)
next
  show "kmem_pool s F \<Longrightarrow> finite F" for s :: "'z kmem_state_scheme" and F
    by (auto simp: kmem_pool_def)
  show "kmem_frame s s" for s :: "'z kmem_state_scheme" by simp
  show "kmem_frame s t \<Longrightarrow> kmem_frame t u \<Longrightarrow> kmem_frame s u" for s t u :: "'z kmem_state_scheme"
    by (rule kmem_frame_trans)
qed

section \<open>Properties\<close>

text \<open>A machine with two free pages, one on CPU 0 and one on CPU 2, for the examples.\<close>

definition two_pages :: kmem_state where
  "two_pages = \<lparr>tp = 0, csr = (\<lambda>_. zero_csrs), cpus = (\<lambda>_. zero_cpu), locks = (\<lambda>_. zero_lock),
     locktab = (\<lambda>_. None), ram = (\<lambda>_. 0), kend = 0x80020000,
     freelist = (\<lambda>i. if i = 0 then 0x80030000 else if i = 2 then 0x80040000 else 0)\<rparr>"

lemma two_pages_pool: "kmem_pool two_pages {0x80030000, 0x80040000}"
proof -
  let ?L = "(\<lambda>i. if i = 0 then [0x80030000] else if i = 2 then [0x80040000] else []) :: nat \<Rightarrow> uint64 list"
  have z: "load64 (\<lambda>_. 0) a = 0" for a by (simp add: load64_def eval_nat_numeral)
  have "kmem_ready two_pages"
    by (simp add: kmem_ready_def two_pages_def cpu_room_def intr_enabled_def zero_defs)
  moreover have "free_pages ?L = [0x80030000, 0x80040000]"
    by (simp add: free_pages_def upt_rec)
  moreover have "kmem_ok two_pages ?L"
    using calculation(2) by (simp add: kmem_ok_def two_pages_def kpage_def PHYSTOP_def z)
  ultimately show ?thesis
    unfolding kmem_pool_def by (intro conjI exI [of _ ?L]) (simp_all only: list.set)
qed

text \<open>C2. \<^verbatim>\<open>kalloc\<close> fails only when no CPU has a free page. Otherwise it returns a page of
  the pool (page-aligned, between \<^verbatim>\<open>end\<close> and \<^verbatim>\<open>PHYSTOP\<close>), from another CPU's list when its
  own is empty; the pool loses exactly that page, memory outside the page is untouched, and
  every lock and the interrupt state are left as they were.\<close>

theorem kalloc_takes_from_pool:
  fixes s :: "'z kmem_state_scheme"
  assumes "uncontended E" "kmem_pool s F"
  shows "returns E s kalloc (\<lambda>r t. (r = 0 \<longleftrightarrow> F = {}) \<and> kmem_frame s t \<and>
    (if F = {} then kmem_pool t {} \<and> ram t = ram s
     else r \<in> F \<and> kpage t r \<and> kmem_pool t (F - {r}) \<and> (\<forall>a. PGROUNDDOWN a \<noteq> r \<longrightarrow> ram t a = ram s a)))"
  using assms by (rule kalloc_pool)

theorem kalloc_takes_from_pool_witness:
  "returns (\<lambda>_ s. Some s) two_pages kalloc (\<lambda>r t. r \<in> {0x80030000, 0x80040000}
     \<and> kmem_pool t ({0x80030000, 0x80040000} - {r}))"
  by (rule returns_mono [OF kalloc_takes_from_pool [OF _ two_pages_pool]]) (simp_all add: uncontended_def)

text \<open>C3. Of any \<open>n\<close> calls of \<^verbatim>\<open>kalloc\<close> in a row, with at least \<open>n\<close> pages in the pool, each
  returns a different page, all of them from the pool.\<close>

theorem kalloc_no_double_allocation:
  fixes s :: "'z kmem_state_scheme"
  assumes "uncontended E" "kmem_pool s F" "n \<le> card F"
  shows "returns E s (kpool.allocs n) (\<lambda>ps t. length ps = n \<and> distinct ps \<and> set ps \<subseteq> F - {0}
    \<and> kmem_pool t (F - set ps) \<and> kmem_frame s t
    \<and> (\<forall>a. PGROUNDDOWN a \<notin> set ps \<longrightarrow> ram t a = ram s a))"
  using assms by (rule kpool.allocs_distinct)

theorem kalloc_no_double_allocation_witness:
  "returns (\<lambda>_ s. Some s) two_pages (kpool.allocs 2) (\<lambda>ps t. distinct ps
     \<and> set ps \<subseteq> {0x80030000, 0x80040000})"
  by (rule returns_mono [OF kalloc_no_double_allocation [OF _ two_pages_pool]])
    (auto simp: uncontended_def)

text \<open>C4. \<^verbatim>\<open>kfree\<close> panics on an address that is not page-aligned or lies outside the memory
  the allocator manages, and on every other page that is not already free it adds exactly
  that page to the pool, leaving all other memory and the locks alone.\<close>

theorem kfree_adds_to_pool:
  fixes s :: "'z kmem_state_scheme"
  assumes "uncontended E" "kmem_pool s F" "pa \<notin> F" "0 < kend s"
  shows "if pa mod PGSIZE \<noteq> 0 \<or> pa < kend s \<or> pa \<ge> PHYSTOP
    then kfree pa E s = Some (Panic ''kfree'')
    else returns E s (kfree pa) (\<lambda>_ t. kmem_pool t (insert pa F) \<and> kmem_frame s t
      \<and> (\<forall>a. PGROUNDDOWN a \<noteq> pa \<longrightarrow> ram t a = ram s a))"
proof (cases "pa mod PGSIZE \<noteq> 0 \<or> pa < kend s \<or> pa \<ge> PHYSTOP")
  case True
  then show ?thesis using kfree_panic by auto
next
  case False
  with assms(4) have "kpage s pa" by (auto simp: kpage_def word_gt_0)
  with kpool.free_page [OF assms(1,2) _ assms(3)] False show ?thesis by simp
qed

theorem kfree_adds_to_pool_witness:
  "returns (\<lambda>_ s. Some s) two_pages (kfree 0x80050000)
     (\<lambda>_ t. kmem_pool t (insert 0x80050000 {0x80030000, 0x80040000}))"
proof -
  have u: "uncontended (\<lambda>_ s. Some s)" by (simp add: uncontended_def)
  show ?thesis
    using kfree_adds_to_pool [OF u two_pages_pool, where pa = "0x80050000"]
    by (auto simp: PHYSTOP_def two_pages_def elim: returns_mono)
qed

text \<open>C5. After \<^verbatim>\<open>kinit\<close> on one CPU, at boot, the free list of that CPU holds exactly the
  whole pages between \<^verbatim>\<open>end\<close> (rounded up) and \<^verbatim>\<open>PHYSTOP\<close>, the other lists are empty, and
  the allocator's locks are registered and free: initialisation ends, however large the
  memory.\<close>

theorem kinit_frees_all_memory:
  fixes s :: "'z kmem_state_scheme"
  assumes "uncontended E" "cpu_room 2 s" "tp s < NCPU" "locked (locks s LockLocks) = 0"
    and "NCPU \<le> card (free_slots s)" "\<forall>i. freelist s i = 0"
    and "0 < kend s" "unat (kend s) + 4096 \<le> unat PHYSTOP"
  shows "returns E s kinit (\<lambda>_ t. kmem_ready t \<and> kmem_ok t ((\<lambda>_. [])(tp s :=
    rev (pages_from (PGROUNDUP (kend s)) ((unat PHYSTOP - unat (PGROUNDUP (kend s))) div 4096)))))"
  using assms by (rule kinit_refines)

theorem kinit_frees_all_memory_witness:
  "returns (\<lambda>_ s. Some s) (two_pages\<lparr>freelist := \<lambda>_. 0\<rparr>) kinit (\<lambda>_ t. kmem_ready t
     \<and> kmem_ok t ((\<lambda>_. [])(0 := rev (pages_from (PGROUNDUP 0x80020000)
          ((unat PHYSTOP - unat (PGROUNDUP 0x80020000)) div 4096)))))"
proof -
  have "free_slots (two_pages\<lparr>freelist := \<lambda>_. 0\<rparr>) = {..<NLOCK}"
    by (auto simp: free_slots_def two_pages_def)
  then show ?thesis
    using kinit_frees_all_memory [of "\<lambda>_ s. Some s" "two_pages\<lparr>freelist := \<lambda>_. 0\<rparr>"]
    by (simp add: uncontended_def unat_PHYSTOP)
      (simp add: two_pages_def cpu_room_def intr_enabled_def zero_defs)
qed

end
