(* ===== verification/Vm.thy ===== *)
theory Vm
  imports Kalloc
begin

text \<open>
  Page tables, \<^verbatim>\<open>kernel/vm.c\<close> (with \<^verbatim>\<open>proc_mapstacks\<close> of \<^verbatim>\<open>proc.c\<close>). A page
  table is the physical address of its root page; entries are read and written in \<open>ram\<close>,
  which the kernel maps one to one. A kernel buffer that is copied to or from user memory is
  a list of bytes; the functions that fill one return what they copied, also when they fail
  half way.
\<close>

section \<open>Operations\<close>

record vm_state = kmem_state +
  kernel_pagetable :: uint64

definition pte_at :: "uint64 \<Rightarrow> nat \<Rightarrow> uint64 \<Rightarrow> uint64" where
  "pte_at pagetable level va = pagetable + 8 * PX level va"

definition load_pte :: "uint64 \<Rightarrow> ('z kmem_state_scheme, uint64) K" where
  [kdefs]: "load_pte pte = gets (\<lambda>s. load64 (ram s) pte)"

definition store_pte :: "uint64 \<Rightarrow> uint64 \<Rightarrow> ('z kmem_state_scheme, unit) K" where
  [kdefs]: "store_pte pte v = set_ram (\<lambda>m. store64 m pte v)"

text \<open>The loop of \<^verbatim>\<open>walk\<close>, for the levels left; the result is the address of the entry, 0 for none.\<close>

fun walk_levels :: "nat \<Rightarrow> uint64 \<Rightarrow> uint64 \<Rightarrow> bool \<Rightarrow> ('z kmem_state_scheme, uint64) K" where
  "walk_levels 0 pagetable va alloc = ret (pte_at pagetable 0 va)"
| "walk_levels (Suc l) pagetable va alloc =
     (let pte = pte_at pagetable (Suc l) va in
      bnd (load_pte pte) (\<lambda>e.
      if e AND PTE_V \<noteq> 0
      then walk_levels l (PTE2PA e) va alloc
      else if \<not> alloc then ret 0
      else bnd kalloc (\<lambda>page.
           if page = 0 then ret 0
           else thn (set_ram (\<lambda>m. memset m page 0 4096)) (
                thn (store_pte pte (PA2PTE page OR PTE_V)) (
                walk_levels l page va alloc)))))"

definition walk :: "uint64 \<Rightarrow> uint64 \<Rightarrow> bool \<Rightarrow> ('z kmem_state_scheme, uint64) K" where
  "walk pagetable va alloc =
     (if va \<ge> MAXVA then panic ''walk'' else walk_levels 2 pagetable va alloc)"

definition walkaddr :: "uint64 \<Rightarrow> uint64 \<Rightarrow> ('z kmem_state_scheme, uint64) K" where
  "walkaddr pagetable va =
     (if va \<ge> MAXVA then ret 0
      else bnd (walk pagetable va False) (\<lambda>pte.
           if pte = 0 then ret 0
           else bnd (load_pte pte) (\<lambda>e.
                if e AND PTE_V = 0 then ret 0
                else if e AND PTE_U = 0 then ret 0
                else ret (PTE2PA e))))"

partial_function (option) mappages_loop ::
  "uint64 \<Rightarrow> uint64 \<Rightarrow> uint64 \<Rightarrow> uint64 \<Rightarrow> uint64 \<Rightarrow>
     (lockid, 'z kmem_state_scheme) env \<Rightarrow> 'z kmem_state_scheme \<Rightarrow>
     ('z kmem_state_scheme, int) outcome option" where
  "mappages_loop pagetable a last_pg pa perm E s =
     bnd (walk pagetable a True) (\<lambda>pte.
     if pte = 0 then ret (- 1)
     else bnd (load_pte pte) (\<lambda>e.
          if e AND PTE_V \<noteq> 0 then panic ''mappages: remap''
          else thn (store_pte pte (PA2PTE pa OR perm OR PTE_V)) (
               if a = last_pg then ret 0
               else mappages_loop pagetable (a + PGSIZE) last_pg (pa + PGSIZE) perm))) E s"

definition mappages ::
  "uint64 \<Rightarrow> uint64 \<Rightarrow> uint64 \<Rightarrow> uint64 \<Rightarrow> uint64 \<Rightarrow> ('z kmem_state_scheme, int) K" where
  "mappages pagetable va sz pa perm =
     (if sz = 0 then panic ''mappages: size''
      else mappages_loop pagetable (PGROUNDDOWN va) (PGROUNDDOWN (va + sz - 1)) pa perm)"

definition kvmmap ::
  "uint64 \<Rightarrow> uint64 \<Rightarrow> uint64 \<Rightarrow> uint64 \<Rightarrow> uint64 \<Rightarrow> ('z kmem_state_scheme, unit) K" where
  "kvmmap kpgtbl va pa sz perm =
     bnd (mappages kpgtbl va sz pa perm) (\<lambda>r.
     whenK (r \<noteq> 0) (panic ''kvmmap''))"

definition proc_mapstacks :: "uint64 \<Rightarrow> ('z kmem_state_scheme, unit) K" where
  "proc_mapstacks kpgtbl =
     forK [0..<NPROC] (\<lambda>p.
       bnd kalloc (\<lambda>pa.
       thn (whenK (pa = 0) (panic ''kalloc'')) (
       kvmmap kpgtbl (KSTACK p) pa PGSIZE (PTE_R OR PTE_W))))"

text \<open>\<open>etext\<close> and \<open>trampoline\<close> are the linker's symbols.\<close>

definition kvmmake :: "uint64 \<Rightarrow> uint64 \<Rightarrow> ('z kmem_state_scheme, uint64) K" where
  "kvmmake etext trampoline =
     bnd kalloc (\<lambda>kpgtbl.
     thn (set_ram (\<lambda>m. memset m kpgtbl 0 4096)) (
     thn (kvmmap kpgtbl UART0 UART0 PGSIZE (PTE_R OR PTE_W)) (
     thn (kvmmap kpgtbl VIRTIO0 VIRTIO0 PGSIZE (PTE_R OR PTE_W)) (
     thn (kvmmap kpgtbl PLIC PLIC 0x400000 (PTE_R OR PTE_W)) (
     thn (kvmmap kpgtbl KERNBASE KERNBASE (etext - KERNBASE) (PTE_R OR PTE_X)) (
     thn (kvmmap kpgtbl etext etext (PHYSTOP - etext) (PTE_R OR PTE_W)) (
     thn (kvmmap kpgtbl TRAMPOLINE trampoline PGSIZE (PTE_R OR PTE_X)) (
     thn (proc_mapstacks kpgtbl) (
     ret kpgtbl)))))))))"

definition kvminit :: "uint64 \<Rightarrow> uint64 \<Rightarrow> ('z vm_state_scheme, unit) K" where
  "kvminit etext trampoline =
     bnd (kvmmake etext trampoline) (\<lambda>kpgtbl.
     modify (\<lambda>s. s\<lparr>kernel_pagetable := kpgtbl\<rparr>))"

definition kvminithart :: "('z vm_state_scheme, unit) K" where
  "kvminithart = bnd (gets kernel_pagetable) (\<lambda>kpgtbl. w_satp (MAKE_SATP kpgtbl))"

partial_function (option) uvmunmap_loop ::
  "uint64 \<Rightarrow> uint64 \<Rightarrow> uint64 \<Rightarrow> bool \<Rightarrow>
     (lockid, 'z kmem_state_scheme) env \<Rightarrow> 'z kmem_state_scheme \<Rightarrow>
     ('z kmem_state_scheme, unit) outcome option" where
  "uvmunmap_loop pagetable a stop do_free E s =
     (if a < stop
      then bnd (walk pagetable a False) (\<lambda>pte.
           if pte = 0 then panic ''uvmunmap: walk''
           else bnd (load_pte pte) (\<lambda>e.
                if e AND PTE_V = 0 then panic ''uvmunmap: not mapped''
                else if PTE_FLAGS e = PTE_V then panic ''uvmunmap: not a leaf''
                else thn (whenK do_free (kfree (PTE2PA e))) (
                     thn (store_pte pte 0) (
                     uvmunmap_loop pagetable (a + PGSIZE) stop do_free))))
      else ret ()) E s"

definition uvmunmap :: "uint64 \<Rightarrow> uint64 \<Rightarrow> uint64 \<Rightarrow> bool \<Rightarrow> ('z kmem_state_scheme, unit) K" where
  "uvmunmap pagetable va npages do_free =
     (if va mod PGSIZE \<noteq> 0 then panic ''uvmunmap: not aligned''
      else uvmunmap_loop pagetable va (va + npages * PGSIZE) do_free)"

definition uvmcreate :: "('z kmem_state_scheme, uint64) K" where
  "uvmcreate =
     bnd kalloc (\<lambda>pagetable.
     if pagetable = 0 then ret 0
     else thn (set_ram (\<lambda>m. memset m pagetable 0 4096)) (ret pagetable))"

definition uvminit :: "uint64 \<Rightarrow> uint8 list \<Rightarrow> ('z kmem_state_scheme, unit) K" where
  "uvminit pagetable src =
     (if length src \<ge> 4096 then panic ''inituvm: more than a page''
      else bnd kalloc (\<lambda>mem.
           thn (set_ram (\<lambda>m. memset m mem 0 4096)) (
           thn (mappages pagetable 0 PGSIZE mem (PTE_W OR PTE_R OR PTE_X OR PTE_U)) (
           set_ram (\<lambda>m. write_bytes m mem src)))))"

text \<open>\<^verbatim>\<open>int npages = ...\<close> keeps 32 bits of the page count.\<close>

definition uvmdealloc :: "uint64 \<Rightarrow> uint64 \<Rightarrow> uint64 \<Rightarrow> ('z kmem_state_scheme, uint64) K" where
  "uvmdealloc pagetable oldsz newsz =
     (if newsz \<ge> oldsz then ret oldsz
      else thn (whenK (PGROUNDUP newsz < PGROUNDUP oldsz)
                 (let npages = ucast ((PGROUNDUP oldsz - PGROUNDUP newsz) div PGSIZE) :: uint32
                  in uvmunmap pagetable (PGROUNDUP newsz) (scast npages) True)) (
           ret newsz))"

partial_function (option) uvmalloc_loop ::
  "uint64 \<Rightarrow> uint64 \<Rightarrow> uint64 \<Rightarrow> uint64 \<Rightarrow>
     (lockid, 'z kmem_state_scheme) env \<Rightarrow> 'z kmem_state_scheme \<Rightarrow>
     ('z kmem_state_scheme, uint64) outcome option" where
  "uvmalloc_loop pagetable oldsz a newsz E s =
     (if a < newsz
      then bnd kalloc (\<lambda>mem.
           if mem = 0 then thn (uvmdealloc pagetable a oldsz) (ret 0)
           else thn (set_ram (\<lambda>m. memset m mem 0 4096)) (
                bnd (mappages pagetable a PGSIZE mem (PTE_W OR PTE_X OR PTE_R OR PTE_U)) (\<lambda>r.
                if r \<noteq> 0 then thn (kfree mem) (thn (uvmdealloc pagetable a oldsz) (ret 0))
                else uvmalloc_loop pagetable oldsz (a + PGSIZE) newsz)))
      else ret newsz) E s"

definition uvmalloc :: "uint64 \<Rightarrow> uint64 \<Rightarrow> uint64 \<Rightarrow> ('z kmem_state_scheme, uint64) K" where
  "uvmalloc pagetable oldsz newsz =
     (if newsz < oldsz then ret oldsz
      else uvmalloc_loop pagetable (PGROUNDUP oldsz) (PGROUNDUP oldsz) newsz)"

partial_function (option) freewalk ::
  "uint64 \<Rightarrow> (lockid, 'z kmem_state_scheme) env \<Rightarrow> 'z kmem_state_scheme \<Rightarrow>
     ('z kmem_state_scheme, unit) outcome option" where
  "freewalk pagetable E s =
     thn (forK [0..<512] (\<lambda>i.
            let entry = pagetable + 8 * of_nat i in
            bnd (load_pte entry) (\<lambda>pte.
            if pte AND PTE_V \<noteq> 0 \<and> pte AND (PTE_R OR PTE_W OR PTE_X) = 0
            then thn (freewalk (PTE2PA pte)) (store_pte entry 0)
            else whenK (pte AND PTE_V \<noteq> 0) (panic ''freewalk: leaf'')))) (
     kfree pagetable) E s"

definition uvmfree :: "uint64 \<Rightarrow> uint64 \<Rightarrow> ('z kmem_state_scheme, unit) K" where
  "uvmfree pagetable sz =
     thn (whenK (sz > 0) (uvmunmap pagetable 0 (PGROUNDUP sz div PGSIZE) True)) (
     freewalk pagetable)"

text \<open>The label \<^verbatim>\<open>err\<close> of \<^verbatim>\<open>uvmcopy\<close>.\<close>

definition uvmcopy_err :: "uint64 \<Rightarrow> uint64 \<Rightarrow> ('z kmem_state_scheme, int) K" where
  "uvmcopy_err new i = thn (uvmunmap new 0 (i div PGSIZE) True) (ret (- 1))"

partial_function (option) uvmcopy_loop ::
  "uint64 \<Rightarrow> uint64 \<Rightarrow> uint64 \<Rightarrow> uint64 \<Rightarrow>
     (lockid, 'z kmem_state_scheme) env \<Rightarrow> 'z kmem_state_scheme \<Rightarrow>
     ('z kmem_state_scheme, int) outcome option" where
  "uvmcopy_loop old new i sz E s =
     (if i < sz
      then bnd (walk old i False) (\<lambda>pte.
           if pte = 0 then panic ''uvmcopy: pte should exist''
           else bnd (load_pte pte) (\<lambda>e.
                if e AND PTE_V = 0 then panic ''uvmcopy: page not present''
                else bnd kalloc (\<lambda>mem.
                     if mem = 0 then uvmcopy_err new i
                     else thn (set_ram (\<lambda>m. memmove m mem (PTE2PA e) 4096)) (
                          bnd (mappages new i PGSIZE mem (PTE_FLAGS e)) (\<lambda>r.
                          if r \<noteq> 0 then thn (kfree mem) (uvmcopy_err new i)
                          else uvmcopy_loop old new (i + PGSIZE) sz)))))
      else ret 0) E s"

definition uvmcopy :: "uint64 \<Rightarrow> uint64 \<Rightarrow> uint64 \<Rightarrow> ('z kmem_state_scheme, int) K" where
  "uvmcopy old new sz = uvmcopy_loop old new 0 sz"

definition uvmclear :: "uint64 \<Rightarrow> uint64 \<Rightarrow> ('z kmem_state_scheme, unit) K" where
  "uvmclear pagetable va =
     bnd (walk pagetable va False) (\<lambda>pte.
     if pte = 0 then panic ''uvmclear''
     else bnd (load_pte pte) (\<lambda>e. store_pte pte (e AND NOT PTE_U)))"

section \<open>Copying between kernel and user memory\<close>

text \<open>Bytes from \<open>va\<close> to the end of its page.\<close>

definition page_rest :: "uint64 \<Rightarrow> nat" where
  "page_rest va = unat (PGSIZE - (va - PGROUNDDOWN va))"

lemma unat_page_off: "unat (va - PGROUNDDOWN va) = unat va mod 4096"
proof -
  have "PGROUNDDOWN va \<le> va" by (simp add: word_le_nat_alt unat_PGROUNDDOWN)
  then show ?thesis by (simp add: unat_sub unat_PGROUNDDOWN minus_div_mult_eq_mod)
qed

lemma page_rest_eq: "page_rest va = 4096 - unat va mod 4096"
proof -
  have "va - PGROUNDDOWN va \<le> 4096"
    using mod_less_divisor [of 4096 "unat va"] by (simp add: word_le_nat_alt unat_page_off)
  then show ?thesis by (simp add: page_rest_def unat_sub unat_page_off)
qed

lemma page_rest_pos: "0 < page_rest va"
  by (simp add: page_rest_eq)

function copyout :: "uint64 \<Rightarrow> uint64 \<Rightarrow> uint8 list \<Rightarrow> ('z kmem_state_scheme, int) K" where
  "copyout pagetable dstva src =
     (if src = [] then ret 0
      else let va0 = PGROUNDDOWN dstva; n = min (page_rest dstva) (length src) in
           bnd (walkaddr pagetable va0) (\<lambda>pa0.
           if pa0 = 0 then ret (- 1)
           else thn (set_ram (\<lambda>m. write_bytes m (pa0 + (dstva - va0)) (take n src))) (
                copyout pagetable (va0 + PGSIZE) (drop n src))))"
  by pat_completeness auto
termination
  by (relation "measure (\<lambda>(pagetable, dstva, src). length src)") (auto simp: page_rest_pos)

text \<open>\<open>copyin\<close> returns its result with the bytes it has copied.\<close>

function copyin :: "uint64 \<Rightarrow> uint64 \<Rightarrow> nat \<Rightarrow> ('z kmem_state_scheme, int \<times> uint8 list) K" where
  "copyin pagetable srcva len =
     (if len = 0 then ret (0, [])
      else let va0 = PGROUNDDOWN srcva; n = min (page_rest srcva) len in
           bnd (walkaddr pagetable va0) (\<lambda>pa0.
           if pa0 = 0 then ret (- 1, [])
           else bnd (gets (\<lambda>s. bytes_at (ram s) (pa0 + (srcva - va0)) n)) (\<lambda>bs.
                bnd (copyin pagetable (va0 + PGSIZE) (len - n)) (\<lambda>(r, rest).
                ret (r, bs @ rest)))))"
  by pat_completeness auto
termination
  by (relation "measure (\<lambda>(pagetable, srcva, len). len)") (auto simp: page_rest_pos)

text \<open>The inner loop of \<^verbatim>\<open>copyinstr\<close>: at most \<open>n\<close> bytes, up to a NUL; says whether it met one.\<close>

fun scan_nul :: "memory \<Rightarrow> uint64 \<Rightarrow> nat \<Rightarrow> bool \<times> uint8 list" where
  "scan_nul m p 0 = (False, [])"
| "scan_nul m p (Suc n) =
     (if m p = 0 then (True, [0])
      else let (got, bs) = scan_nul m (p + 1) n in (got, m p # bs))"

function copyinstr :: "uint64 \<Rightarrow> uint64 \<Rightarrow> nat \<Rightarrow> ('z kmem_state_scheme, int \<times> uint8 list) K" where
  "copyinstr pagetable srcva maxlen =
     (if maxlen = 0 then ret (- 1, [])
      else let va0 = PGROUNDDOWN srcva; n = min (page_rest srcva) maxlen in
           bnd (walkaddr pagetable va0) (\<lambda>pa0.
           if pa0 = 0 then ret (- 1, [])
           else bnd (gets (\<lambda>s. scan_nul (ram s) (pa0 + (srcva - va0)) n)) (\<lambda>(got_null, bs).
                if got_null then ret (0, bs)
                else bnd (copyinstr pagetable (va0 + PGSIZE) (maxlen - n)) (\<lambda>(r, rest).
                     ret (r, bs @ rest)))))"
  by pat_completeness auto
termination
  by (relation "measure (\<lambda>(pagetable, srcva, maxlen). maxlen)") (auto simp: page_rest_pos)

section \<open>Translation as a function of memory\<close>

text \<open>
  What \<^verbatim>\<open>walk\<close> computes without allocating: the address of the entry for \<open>va\<close>, 0 for
  none; the page-table pages it looks at; and the physical page \<^verbatim>\<open>walkaddr\<close> returns.
\<close>

fun pwalk :: "nat \<Rightarrow> memory \<Rightarrow> uint64 \<Rightarrow> uint64 \<Rightarrow> uint64" where
  "pwalk 0 m pagetable va = pte_at pagetable 0 va"
| "pwalk (Suc l) m pagetable va =
     (let e = load64 m (pte_at pagetable (Suc l) va) in
      if e AND PTE_V \<noteq> 0 then pwalk l m (PTE2PA e) va else 0)"

fun pchain :: "nat \<Rightarrow> memory \<Rightarrow> uint64 \<Rightarrow> uint64 \<Rightarrow> uint64 set" where
  "pchain 0 m pagetable va = {pagetable}"
| "pchain (Suc l) m pagetable va =
     (let e = load64 m (pte_at pagetable (Suc l) va) in
      insert pagetable (if e AND PTE_V \<noteq> 0 then pchain l m (PTE2PA e) va else {}))"

definition uaddr :: "memory \<Rightarrow> uint64 \<Rightarrow> uint64 \<Rightarrow> uint64" where
  "uaddr m pagetable va =
     (if va \<ge> MAXVA then 0
      else let pte = pwalk 2 m pagetable va in
           if pte = 0 then 0
           else let e = load64 m pte in
                if e AND PTE_V = 0 \<or> e AND PTE_U = 0 then 0 else PTE2PA e)"

text \<open>User memory: the byte a process sees at an address, \<open>None\<close> where nothing is mapped.\<close>

definition umem :: "memory \<Rightarrow> uint64 \<Rightarrow> uint64 \<Rightarrow> uint8 option" where
  "umem m pagetable v =
     (let pa = uaddr m pagetable (PGROUNDDOWN v) in
      if pa = 0 then None else Some (m (pa + (v - PGROUNDDOWN v))))"

text \<open>
  A user address space: page-table pages are aligned, no user page is one of them, and no two
  virtual pages share a physical page.
\<close>

definition user_ok :: "memory \<Rightarrow> uint64 \<Rightarrow> bool" where
  "user_ok m pagetable \<longleftrightarrow> aligned pagetable
     \<and> (\<forall>v v'. uaddr m pagetable v \<noteq> 0 \<longrightarrow> uaddr m pagetable v \<notin> pchain 2 m pagetable v')
     \<and> (\<forall>v v'. uaddr m pagetable v \<noteq> 0 \<longrightarrow> uaddr m pagetable v = uaddr m pagetable v'
          \<longrightarrow> PGROUNDDOWN v = PGROUNDDOWN v')"

subsection \<open>The code computes them\<close>

lemma walk_levels_noalloc:
  "walk_levels l pagetable va False E s = Some (Ret (pwalk l (ram s) pagetable va) s)"
  by (induction l arbitrary: pagetable) (simp_all add: kdefs Let_def)

lemma returns_walk [kwp]:
  "va < MAXVA \<Longrightarrow> returns E s (walk pagetable va False) Q = Q (pwalk 2 (ram s) pagetable va) s"
  by (auto simp: walk_def returns_def walk_levels_noalloc)

lemma returns_walkaddr [kwp]:
  "returns E s (walkaddr pagetable va) Q = Q (uaddr (ram s) pagetable va) s"
  by (cases "MAXVA \<le> va") (auto simp: walkaddr_def uaddr_def kwp load_pte_def Let_def)


subsection \<open>Which memory they depend on\<close>

lemma PX_less: "unat (PX l va) < 512"
proof -
  have "PX l va \<le> 511" by (simp add: PX_def word_and_le1)
  then show ?thesis by (simp add: word_le_nat_alt)
qed

lemma aligned_PTE2PA [simp]: "aligned (PTE2PA e)"
proof -
  have "unat (PTE2PA e) = (unat (drop_bit 10 e) * 4096) mod 2 ^ 64"
    by (simp add: PTE2PA_def push_bit_eq_mult unat_word_ariths)
  then show ?thesis by (simp add: aligned_unat mod_mod_cancel)
qed

lemma pte_page:
  assumes "aligned pagetable" "i < 8"
  shows "PGROUNDDOWN (pte_at pagetable l va + of_nat i) = pagetable"
proof -
  have "unat (8 * PX l va) = 8 * unat (PX l va)"
    using PX_less [of l va] by (simp add: unat_word_ariths)
  then have "8 * PX l va + of_nat i = of_nat (8 * unat (PX l va) + i)"
    by (simp add: )
  moreover have "8 * unat (PX l va) + i < 4096" using PX_less [of l va] assms(2) by simp
  ultimately show ?thesis
    using page_offset [OF assms(1), of "8 * unat (PX l va) + i"] by (simp add: pte_at_def add.assoc)
qed

text \<open>Memories that agree outside of a set of pages.\<close>

definition same_pages :: "uint64 set \<Rightarrow> memory \<Rightarrow> memory \<Rightarrow> bool" where
  "same_pages P m m' \<longleftrightarrow> (\<forall>a. PGROUNDDOWN a \<in> P \<longrightarrow> m' a = m a)"

lemma load_pte_same:
  assumes "aligned pagetable" "same_pages P m m'" "pagetable \<in> P"
  shows "load64 m' (pte_at pagetable l va) = load64 m (pte_at pagetable l va)"
  by (rule load64_cong) (use assms pte_page in \<open>simp add: same_pages_def\<close>)

lemma pwalk_same:
  assumes "aligned pagetable" "same_pages (pchain l m pagetable va) m m'"
  shows "pwalk l m' pagetable va = pwalk l m pagetable va"
  using assms
proof (induction l arbitrary: pagetable)
  case (Suc l)
  have e: "load64 m' (pte_at pagetable (Suc l) va) = load64 m (pte_at pagetable (Suc l) va)"
    using Suc.prems by (intro load_pte_same) (auto simp: Let_def)
  then show ?case using Suc by (auto simp: Let_def same_pages_def)
qed simp

lemma pchain_same:
  assumes "aligned pagetable" "same_pages (pchain l m pagetable va) m m'"
  shows "pchain l m' pagetable va = pchain l m pagetable va"
  using assms
proof (induction l arbitrary: pagetable)
  case (Suc l)
  have e: "load64 m' (pte_at pagetable (Suc l) va) = load64 m (pte_at pagetable (Suc l) va)"
    using Suc.prems by (intro load_pte_same) (auto simp: Let_def)
  then show ?case using Suc by (auto simp: Let_def same_pages_def)
qed simp

text \<open>The entry itself is in the last page of the chain.\<close>

lemma pwalk_in_chain:
  assumes "aligned pagetable" "pwalk l m pagetable va \<noteq> 0"
  shows "\<exists>pt \<in> pchain l m pagetable va. aligned pt \<and> pwalk l m pagetable va = pte_at pt 0 va"
  using assms
proof (induction l arbitrary: pagetable)
  case (Suc l)
  then show ?case by (auto simp: Let_def split: if_splits)
qed simp

lemma uaddr_same:
  assumes "aligned pagetable" "same_pages (pchain 2 m pagetable va) m m'"
  shows "uaddr m' pagetable va = uaddr m pagetable va"
proof (cases "pwalk 2 m pagetable va = 0")
  case False
  then obtain pt where "pt \<in> pchain 2 m pagetable va" "aligned pt" "pwalk 2 m pagetable va = pte_at pt 0 va"
    using pwalk_in_chain [OF assms(1)] by blast
  then have "load64 m' (pwalk 2 m pagetable va) = load64 m (pwalk 2 m pagetable va)"
    using load_pte_same [OF _ assms(2)] by simp
  then show ?thesis using pwalk_same [OF assms] by (simp add: uaddr_def Let_def)
qed (use pwalk_same [OF assms] in \<open>simp add: uaddr_def\<close>)

lemma aligned_uaddr: "aligned (uaddr m pagetable va)"
  by (simp add: uaddr_def Let_def aligned_unat [of 0])


subsection \<open>Writing to a user page\<close>

lemma PGROUNDDOWN_idem [simp]: "PGROUNDDOWN (PGROUNDDOWN v) = PGROUNDDOWN v"
  by (simp add: PGROUNDDOWN_aligned)

lemma page_off_bound: "unat (v - PGROUNDDOWN v) + page_rest v = 4096"
  using mod_less_divisor [of 4096 "unat v"] by (simp add: unat_page_off page_rest_eq)

lemma unat_add_less: "unat a + unat b < n \<Longrightarrow> unat (a + b :: uint64) < n"
proof -
  have "unat (a + b) = (unat a + unat b) mod 2 ^ 64" by (simp add: unat_word_ariths(1))
  also have "\<dots> \<le> unat a + unat b" by (rule mod_less_eq_dividend)
  finally show "unat a + unat b < n \<Longrightarrow> unat (a + b) < n" by simp
qed

lemma same_page:
  assumes "unat (x - v) < page_rest v"
  shows "PGROUNDDOWN x = PGROUNDDOWN v"
proof -
  have "unat ((x - v) + (v - PGROUNDDOWN v)) < 4096"
    by (rule unat_add_less) (use assms page_off_bound [of v] in simp)
  then have "unat (x - PGROUNDDOWN v) < 4096" by simp
  then show ?thesis by (simp add: PGROUNDDOWN_eq_iff)
qed

lemma in_phys_page:
  assumes "aligned q"
  shows "PGROUNDDOWN (q + (x - PGROUNDDOWN x)) = q"
proof -
  have "unat (x - PGROUNDDOWN x) < 4096" by (simp add: unat_page_off)
  then show ?thesis using page_offset [OF assms, of "unat (x - PGROUNDDOWN x)"] by simp
qed

lemma write_in_page:
  assumes "aligned q" "unat d + length bs \<le> 4096" "PGROUNDDOWN x \<noteq> q"
  shows "write_bytes m (q + d) bs x = m x"
proof -
  have "\<not> unat (x - (q + d)) < length bs"
  proof
    assume l: "unat (x - (q + d)) < length bs"
    have "unat ((x - (q + d)) + d) < 4096"
      by (rule unat_add_less) (use l assms(2) in simp)
    then have "unat (x - q) < 4096" by simp
    then show False using assms(1,3) by (simp add: PGROUNDDOWN_eq_iff)
  qed
  then show ?thesis by (simp add: write_bytes_def)
qed

lemma user_write:
  fixes m pagetable v bs
  defines "pa \<equiv> uaddr m pagetable (PGROUNDDOWN v)"
  defines "m' \<equiv> write_bytes m (pa + (v - PGROUNDDOWN v)) bs"
  assumes ok: "user_ok m pagetable" and pa: "pa \<noteq> 0" and n: "length bs \<le> page_rest v"
  shows "uaddr m' pagetable = uaddr m pagetable" and "user_ok m' pagetable"
    and "umem m' pagetable
      = (\<lambda>x. if unat (x - v) < length bs then Some (bs ! unat (x - v)) else umem m pagetable x)"
    and "PGROUNDDOWN a \<noteq> pa \<Longrightarrow> m' a = m a"
proof -
  have al: "aligned pagetable" "aligned pa"
    using ok by (simp_all add: user_ok_def pa_def aligned_uaddr)
  show other: "m' a = m a" if "PGROUNDDOWN a \<noteq> pa" for a
    unfolding m'_def using al(2) n that page_off_bound [of v] by (intro write_in_page) simp_all
  have notin: "pa \<notin> pchain 2 m pagetable x" for x
    using ok pa unfolding user_ok_def pa_def by blast
  have same: "same_pages (pchain 2 m pagetable x) m m'" for x
    unfolding same_pages_def
  proof (intro allI impI)
    fix a
    assume "PGROUNDDOWN a \<in> pchain 2 m pagetable x"
    then show "m' a = m a" using notin [of x] by (cases "PGROUNDDOWN a = pa") (simp_all add: other)
  qed
  have u: "uaddr m' pagetable x = uaddr m pagetable x" for x
    by (rule uaddr_same [OF al(1) same])
  have c: "pchain 2 m' pagetable x = pchain 2 m pagetable x" for x
    by (rule pchain_same [OF al(1) same])
  show "uaddr m' pagetable = uaddr m pagetable" by (rule ext) (rule u)
  show "user_ok m' pagetable" using ok unfolding user_ok_def u c .
  show "umem m' pagetable
      = (\<lambda>x. if unat (x - v) < length bs then Some (bs ! unat (x - v)) else umem m pagetable x)"
  proof
    fix x
    define q where "q = uaddr m pagetable (PGROUNDDOWN x)"
    show "umem m' pagetable x
      = (if unat (x - v) < length bs then Some (bs ! unat (x - v)) else umem m pagetable x)"
    proof (cases "PGROUNDDOWN x = PGROUNDDOWN v")
      case True
      have "m' (pa + (x - PGROUNDDOWN v))
        = (if unat (x - v) < length bs then bs ! unat (x - v) else m (pa + (x - PGROUNDDOWN v)))"
        by (simp add: m'_def write_bytes_def)
      moreover have "umem m' pagetable x = Some (m' (pa + (x - PGROUNDDOWN v)))"
        "umem m pagetable x = Some (m (pa + (x - PGROUNDDOWN v)))"
        using True pa by (simp_all add: umem_def u pa_def [symmetric])
      ultimately show ?thesis by simp
    next
      case False
      then have far: "\<not> unat (x - v) < length bs" using same_page [of x v] n by auto
      have "q \<noteq> 0 \<Longrightarrow> q \<noteq> pa"
        using ok False unfolding user_ok_def q_def pa_def by (metis PGROUNDDOWN_idem)
      moreover have "PGROUNDDOWN (q + (x - PGROUNDDOWN x)) = q"
        by (rule in_phys_page) (simp add: q_def aligned_uaddr)
      ultimately show ?thesis
        using far other by (simp add: umem_def u q_def [symmetric])
    qed
  qed
qed

subsection \<open>Ranges of user addresses\<close>

text \<open>How many of the \<open>n\<close> bytes from \<open>va\<close> on come before the first that is not mapped.\<close>

definition mapped_len :: "memory \<Rightarrow> uint64 \<Rightarrow> uint64 \<Rightarrow> nat \<Rightarrow> nat" where
  "mapped_len m pagetable va n =
     length (takeWhile (\<lambda>i. umem m pagetable (va + of_nat i) \<noteq> None) [0..<n])"

lemma length_takeWhile_upt_add:
  assumes "\<And>i. i < n \<Longrightarrow> P i"
  shows "length (takeWhile P [0..<n + k]) = n + length (takeWhile (\<lambda>i. P (n + i)) [0..<k])"
proof -
  have "[n..<n + k] = map ((+) n) [0..<k]"
    by (rule nth_equalityI) simp_all
  then have "[0..<n + k] = [0..<n] @ map ((+) n) [0..<k]"
    using upt_add_eq_append [of 0 n k] by simp
  moreover have "takeWhile P ([0..<n] @ ys) = [0..<n] @ takeWhile P ys" for ys
    using assms by (intro takeWhile_append2) simp
  ultimately show ?thesis by (simp add: takeWhile_map o_def)
qed

lemma mapped_len_le: "mapped_len m pagetable va n \<le> n"
  using length_takeWhile_le [of _ "[0..<n]"] by (simp add: mapped_len_def)

lemma mapped_len_0 [simp]: "mapped_len m pagetable va 0 = 0"
  by (simp add: mapped_len_def)

lemma mapped_len_nth:
  "i < mapped_len m pagetable va n \<Longrightarrow> umem m pagetable (va + of_nat i) \<noteq> None"
proof -
  define P where "P = (\<lambda>i. umem m pagetable (va + of_nat i) \<noteq> None)"
  assume "i < mapped_len m pagetable va n"
  then have i: "i < length (takeWhile P [0..<n])" by (simp add: mapped_len_def P_def)
  then have "i < n" using length_takeWhile_le [of P "[0..<n]"] by simp
  then have "takeWhile P [0..<n] ! i = i" using takeWhile_nth [OF i] by simp
  then have "i \<in> set (takeWhile P [0..<n])" using nth_mem [OF i] by simp
  then have "P i" by (rule set_takeWhileD [THEN conjunct2])
  then show ?thesis by (simp add: P_def)
qed

lemma unat_MAXVA: "unat MAXVA = 2 ^ 38"
  by (simp add: MAXVA_def)

lemma umem_below: "umem m pagetable v \<noteq> None \<Longrightarrow> unat v < 2 ^ 38"
proof -
  assume "umem m pagetable v \<noteq> None"
  then have "\<not> MAXVA \<le> PGROUNDDOWN v"
    by (auto simp: umem_def uaddr_def Let_def split: if_splits)
  then have "unat v div 4096 * 4096 < 2 ^ 38"
    by (simp add: word_le_nat_alt unat_PGROUNDDOWN unat_MAXVA not_le)
  then show ?thesis by simp
qed

lemma mapped_len_bound: "mapped_len m pagetable va n \<le> 2 ^ 38"
proof (rule ccontr)
  assume big: "\<not> ?thesis"
  have "umem m pagetable (va + of_nat 0) \<noteq> None"
    using big by (intro mapped_len_nth [of _ m pagetable va n]) simp
  then have va: "unat va < 2 ^ 38" using umem_below [of m pagetable va] by simp
  define i where "i = 2 ^ 38 - unat va"
  have "umem m pagetable (va + of_nat i) \<noteq> None"
    using big by (intro mapped_len_nth [of _ m pagetable va n]) (simp add: i_def)
  then have "unat (va + of_nat i) < 2 ^ 38" by (rule umem_below)
  moreover have "unat (va + of_nat i) = 2 ^ 38"
    using va by (simp add: i_def unat_word_ariths(1))
  ultimately show False by simp
qed

lemma split_range:
  assumes "n + k \<le> 2 ^ 64"
  shows "unat (x - va) < n + k \<longleftrightarrow> unat (x - va) < n \<or> unat (x - (va + of_nat n) :: uint64) < k"
    and "\<not> unat (x - va) < n \<Longrightarrow> unat (x - (va + of_nat n) :: uint64) = unat (x - va) - n"
proof -
  define d where "d = x - va"
  have d: "x - (va + of_nat n) = d - of_nat n" by (simp add: d_def)
  show *: "unat (x - (va + of_nat n)) = unat (x - va) - n" if "\<not> unat (x - va) < n"
  proof -
    have "n < 2 ^ 64" using that unat_less64 [of "x - va"] by simp
    then have "of_nat n \<le> d" using that by (simp add: word_le_nat_alt d_def)
    then show ?thesis unfolding d using \<open>n < 2 ^ 64\<close> by (simp add: unat_sub d_def)
  qed
  show "unat (x - va) < n + k \<longleftrightarrow> unat (x - va) < n \<or> unat (x - (va + of_nat n)) < k"
  proof (cases "unat (x - va) < n")
    case False
    then show ?thesis using * by auto
  qed simp
qed

lemma range_before:
  assumes "n + k \<le> 2 ^ 64" "unat (x - va) < n"
  shows "\<not> unat (x - (va + of_nat n) :: uint64) < k"
proof (cases "k = 0")
  case False
  then have n: "n < 2 ^ 64" using assms(1) by simp
  have "unat ((x - va) - of_nat n) = unat (x - va) + 2 ^ 64 - n"
    using assms(2) n by (subst unat_sub_if') simp
  then show ?thesis using assms by (simp add: diff_diff_eq)
qed simp

lemma va_next_page: "va + of_nat (page_rest va) = PGROUNDDOWN va + 4096"
proof -
  have "of_nat (unat (va - PGROUNDDOWN va) + page_rest va) = (4096 :: uint64)"
    by (simp add: page_off_bound)
  then have "(va - PGROUNDDOWN va) + of_nat (page_rest va) = 4096" by simp
  then show ?thesis by (simp add: algebra_simps)
qed

lemma PGROUNDDOWN_add:
  assumes "i < page_rest va"
  shows "PGROUNDDOWN (va + of_nat i) = PGROUNDDOWN va"
proof -
  have "i < 4096" using assms page_off_bound [of va] by simp
  then show ?thesis using assms by (intro same_page) simp
qed

lemma mapped_len_page:
  assumes "n \<le> page_rest va" "uaddr m pagetable (PGROUNDDOWN va) \<noteq> 0"
  shows "mapped_len m pagetable va (n + k) = n + mapped_len m pagetable (va + of_nat n) k"
proof -
  have "umem m pagetable (va + of_nat i) \<noteq> None" if "i < n" for i
    using that assms by (simp add: umem_def PGROUNDDOWN_add)
  then show ?thesis
    unfolding mapped_len_def by (subst length_takeWhile_upt_add) (simp_all add: add.assoc)
qed

lemma mapped_len_unmapped:
  assumes "uaddr m pagetable (PGROUNDDOWN va) = 0"
  shows "mapped_len m pagetable va n = 0"
  using assms by (cases n) (simp_all add: mapped_len_def umem_def upt_conv_Cons del: upt_Suc)


subsection \<open>\<^verbatim>\<open>copyout\<close> and \<^verbatim>\<open>copyin\<close>\<close>

text \<open>The physical address \<open>a\<close> is in a page that is mapped for the user.\<close>

definition user_page :: "memory \<Rightarrow> uint64 \<Rightarrow> uint64 \<Rightarrow> bool" where
  "user_page m pagetable a \<longleftrightarrow>
     (\<exists>v. uaddr m pagetable v \<noteq> 0 \<and> PGROUNDDOWN a = uaddr m pagetable v)"

text \<open>\<open>m'\<close> is \<open>m\<close> with the first \<open>k\<close> bytes of \<open>bs\<close> at the user address \<open>va\<close>.\<close>

definition user_written ::
  "memory \<Rightarrow> uint64 \<Rightarrow> uint64 \<Rightarrow> uint8 list \<Rightarrow> nat \<Rightarrow> memory \<Rightarrow> bool" where
  "user_written m pagetable va bs k m' \<longleftrightarrow>
     user_ok m' pagetable \<and> uaddr m' pagetable = uaddr m pagetable
     \<and> umem m' pagetable =
         (\<lambda>x. if unat (x - va) < k then Some (bs ! unat (x - va)) else umem m pagetable x)
     \<and> (\<forall>a. \<not> user_page m pagetable a \<longrightarrow> m' a = m a)"

lemma umem_None_cong:
  "uaddr m' pagetable = uaddr m pagetable \<Longrightarrow> umem m' pagetable v = None \<longleftrightarrow> umem m pagetable v = None"
  by (simp add: umem_def Let_def)

lemma mapped_len_cong:
  assumes "uaddr m' pagetable = uaddr m pagetable"
  shows "mapped_len m' pagetable va n = mapped_len m pagetable va n"
  unfolding mapped_len_def umem_None_cong [OF assms] ..

lemma user_page_cong:
  "uaddr m' pagetable = uaddr m pagetable \<Longrightarrow> user_page m' pagetable a = user_page m pagetable a"
  by (simp add: user_page_def)

lemma user_written_0: "user_ok m pagetable \<Longrightarrow> user_written m pagetable va bs 0 m"
  by (simp add: user_written_def)

lemma user_written_page:
  assumes "user_ok m pagetable" "uaddr m pagetable (PGROUNDDOWN va) \<noteq> 0" "length bs \<le> page_rest va"
  shows "user_written m pagetable va bs (length bs)
    (write_bytes m (uaddr m pagetable (PGROUNDDOWN va) + (va - PGROUNDDOWN va)) bs)"
  unfolding user_written_def
proof (intro conjI allI impI)
  fix a
  assume "\<not> user_page m pagetable a"
  then have "PGROUNDDOWN a \<noteq> uaddr m pagetable (PGROUNDDOWN va)"
    using assms(2) unfolding user_page_def by metis
  then show "write_bytes m (uaddr m pagetable (PGROUNDDOWN va) + (va - PGROUNDDOWN va)) bs a = m a"
    by (rule user_write(4) [OF assms])
qed (use user_write(1,2,3) [OF assms] in blast)+

lemma user_written_trans:
  assumes w1: "user_written m pagetable va (take n bs) n m1"
    and w2: "user_written m1 pagetable (va + of_nat n) (drop n bs) k m2"
    and n: "n + k \<le> length bs" and k: "n + k \<le> 2 ^ 64"
  shows "user_written m pagetable va bs (n + k) m2"
proof -
  have u: "uaddr m1 pagetable = uaddr m pagetable" "uaddr m2 pagetable = uaddr m pagetable"
    using w1 w2 by (simp_all add: user_written_def)
  have "umem m2 pagetable x
      = (if unat (x - va) < n + k then Some (bs ! unat (x - va)) else umem m pagetable x)" for x
  proof (cases "unat (x - va) < n")
    case True
    then have "\<not> unat (x - (va + of_nat n)) < k" by (rule range_before [OF k])
    then show ?thesis using True w1 w2 by (simp add: user_written_def)
  next
    case False
    then show ?thesis
      using w1 w2 split_range [OF k, of x va] n by (auto simp: user_written_def)
  qed
  then show ?thesis
    using w1 w2 u user_page_cong [OF u(1)] by (auto simp: user_written_def)
qed


lemmas [simp del] = copyout.simps copyin.simps copyinstr.simps

text \<open>The bytes a process sees from \<open>va\<close> on.\<close>

definition ubytes :: "memory \<Rightarrow> uint64 \<Rightarrow> uint64 \<Rightarrow> nat \<Rightarrow> uint8 list" where
  "ubytes m pagetable va n = map (\<lambda>i. the (umem m pagetable (va + of_nat i))) [0..<n]"

lemma length_ubytes [simp]: "length (ubytes m pagetable va n) = n"
  by (simp add: ubytes_def)

lemma ubytes_0 [simp]: "ubytes m pagetable va 0 = []"
  by (simp add: ubytes_def)

lemma ubytes_add: "ubytes m pagetable va (n + k) = ubytes m pagetable va n @ ubytes m pagetable (va + of_nat n) k"
  by (rule nth_equalityI) (auto simp: ubytes_def nth_append add.assoc)

lemma ubytes_page:
  assumes "n \<le> page_rest va" "uaddr m pagetable (PGROUNDDOWN va) \<noteq> 0"
  shows "ubytes m pagetable va n
    = bytes_at m (uaddr m pagetable (PGROUNDDOWN va) + (va - PGROUNDDOWN va)) n"
  using assms by (auto simp: ubytes_def bytes_at_def umem_def PGROUNDDOWN_add algebra_simps)

text \<open>
  The shape the three copying loops share: the first page is mapped, and the rest of the range
  starts at the next page.
\<close>

lemma first_page:
  fixes m pagetable va
  defines "pa \<equiv> uaddr m pagetable (PGROUNDDOWN va)"
  assumes pa: "pa \<noteq> 0" and n: "n = min (page_rest va) len"
  shows "mapped_len m pagetable va len
      = n + mapped_len m pagetable (PGROUNDDOWN va + PGSIZE) (len - n)"
    and "ubytes m pagetable va (n + k)
      = bytes_at m (pa + (va - PGROUNDDOWN va)) n @ ubytes m pagetable (va + of_nat n) k"
    and "n < len \<Longrightarrow> va + of_nat n = PGROUNDDOWN va + PGSIZE"
proof -
  show nx: "va + of_nat n = PGROUNDDOWN va + PGSIZE" if "n < len"
    using that va_next_page [of va] by (simp add: n)
  show "mapped_len m pagetable va len
      = n + mapped_len m pagetable (PGROUNDDOWN va + PGSIZE) (len - n)"
  proof (cases "n < len")
    case True
    have "mapped_len m pagetable va (n + (len - n)) = n + mapped_len m pagetable (va + of_nat n) (len - n)"
      by (rule mapped_len_page) (use pa in \<open>simp_all add: n pa_def\<close>)
    then show ?thesis using True nx by simp
  next
    case False
    then have "n = len" by (simp add: n)
    then show ?thesis
      using mapped_len_page [of n va m pagetable 0] pa by (simp add: n pa_def)
  qed
  show "ubytes m pagetable va (n + k)
      = bytes_at m (pa + (va - PGROUNDDOWN va)) n @ ubytes m pagetable (va + of_nat n) k"
    using pa by (simp add: ubytes_add ubytes_page n pa_def)
qed

lemma copyout_spec:
  assumes "user_ok (ram s) pagetable"
  shows "returns E s (copyout pagetable va bs) (\<lambda>r t.
    let k = mapped_len (ram s) pagetable va (length bs) in
    r = (if k = length bs then 0 else - 1) \<and> t = s\<lparr>ram := ram t\<rparr>
    \<and> user_written (ram s) pagetable va bs k (ram t))"
  using assms
proof (induction pagetable va bs arbitrary: s rule: copyout.induct)
  case (1 pagetable va bs)
  define m where "m = ram s"
  define pa where "pa = uaddr m pagetable (PGROUNDDOWN va)"
  define n where "n = min (page_rest va) (length bs)"
  have ok: "user_ok m pagetable" using "1.prems" by (simp add: m_def)
  show ?case
  proof (cases "bs = []")
    case True
    then show ?thesis
      using ok by (subst copyout.simps) (simp add: kwp m_def user_written_0)
  next
    case ne: False
    show ?thesis
    proof (cases "pa = 0")
      case True
      then have k: "mapped_len m pagetable va (length bs) = 0"
        unfolding pa_def by (rule mapped_len_unmapped)
      show ?thesis
        using ne True k ok
        by (subst copyout.simps) (simp add: kwp Let_def m_def [symmetric] pa_def [symmetric] user_written_0)
    next
      case pa: False
      define m1 where "m1 = write_bytes m (pa + (va - PGROUNDDOWN va)) (take n bs)"
      define k1 where "k1 = mapped_len m pagetable (PGROUNDDOWN va + PGSIZE) (length bs - n)"
      have w1: "user_written m pagetable va (take n bs) n m1"
        using user_written_page [OF ok, of va "take n bs"] pa
        by (simp add: m1_def pa_def n_def min.absorb4)
      have u1: "uaddr m1 pagetable = uaddr m pagetable" and ok1: "user_ok m1 pagetable"
        using w1 by (simp_all add: user_written_def)
      note first = first_page [OF pa [unfolded pa_def] n_def]
      have next_va: "PGROUNDDOWN va + PGSIZE = va + of_nat n" if "n < length bs"
        using that first(3) by simp
      have k: "mapped_len m pagetable va (length bs) = n + k1" by (simp add: k1_def first(1))
      have nk: "n + k1 \<le> length bs" "n + k1 \<le> 2 ^ 64"
        using mapped_len_le [of m pagetable va "length bs"] mapped_len_bound [of m pagetable va "length bs"]
        by (simp_all add: k)
      have IH: "returns E (s\<lparr>ram := m1\<rparr>) (copyout pagetable (PGROUNDDOWN va + PGSIZE) (drop n bs)) (\<lambda>r t.
          r = (if k1 = length bs - n then 0 else - 1) \<and> t = s\<lparr>ram := ram t\<rparr>
          \<and> user_written m1 pagetable (PGROUNDDOWN va + PGSIZE) (drop n bs) k1 (ram t))"
        using "1.IH" [OF ne refl n_def pa, of "s\<lparr>ram := m1\<rparr>"] ok1
        by (simp add: mapped_len_cong [OF u1] Let_def flip: k1_def split del: if_split)
      have final: "user_written m pagetable va bs (n + k1) m2"
        if "user_written m1 pagetable (PGROUNDDOWN va + PGSIZE) (drop n bs) k1 m2" for m2
      proof (cases "n < length bs")
        case True
        then show ?thesis
          using user_written_trans [OF w1 _ nk] that next_va by simp
      next
        case False
        then have "k1 = 0" using nk by simp
        then have "user_written m1 pagetable (va + of_nat n) (drop n bs) k1 m2"
          using that by (simp add: user_written_def)
        then show ?thesis by (rule user_written_trans [OF w1 _ nk])
      qed
      have step: "returns E s (copyout pagetable va bs) Q = returns E (s\<lparr>ram := m1\<rparr>)
          (copyout pagetable (PGROUNDDOWN va + PGSIZE) (drop n bs)) Q" for Q
        using ne pa
        by (subst copyout.simps) (simp add: kwp Let_def set_ram_def m_def [symmetric] pa_def [symmetric]
            n_def [symmetric] m1_def)
      show ?thesis
        unfolding step Let_def m_def [symmetric] k
      proof (rule returns_mono [OF IH], elim conjE, intro conjI)
        fix r t
        assume "r = (if k1 = length bs - n then 0 else - 1 :: int)"
        then show "r = (if n + k1 = length bs then 0 else - 1)" using nk by auto
      qed (assumption, rule final)
    qed
  qed
qed


lemma copyin_spec:
  "returns E s (copyin pagetable va len) (\<lambda>r t.
    let k = mapped_len (ram s) pagetable va len in
    r = (if k = len then 0 else - 1, ubytes (ram s) pagetable va k) \<and> t = s)"
proof (induction pagetable va len rule: copyin.induct)
  case (1 pagetable va len)
  define m where "m = ram s"
  define pa where "pa = uaddr m pagetable (PGROUNDDOWN va)"
  define n where "n = min (page_rest va) len"
  show ?case
  proof (cases "len = 0 \<or> pa = 0")
    case True
    then show ?thesis
      using mapped_len_unmapped [of m pagetable va len]
      by (subst copyin.simps) (auto simp: kwp Let_def m_def [symmetric] pa_def [symmetric])
  next
    case False
    then have ne: "len \<noteq> 0" and pa: "pa \<noteq> 0" by auto
    define k1 where "k1 = mapped_len m pagetable (PGROUNDDOWN va + PGSIZE) (len - n)"
    note first = first_page [OF pa [unfolded pa_def] n_def]
    have k: "mapped_len m pagetable va len = n + k1" by (simp add: k1_def first(1))
    have nk: "n + k1 \<le> len" using mapped_len_le [of m pagetable va len] by (simp add: k)
    have bytes: "ubytes m pagetable va (n + k1)
        = bytes_at m (pa + (va - PGROUNDDOWN va)) n @ ubytes m pagetable (PGROUNDDOWN va + PGSIZE) k1"
    proof (cases "n < len")
      case True
      then show ?thesis using first(2) [of k1] first(3) by (simp add: pa_def)
    next
      case False
      then have "k1 = 0" using nk by simp
      then show ?thesis using first(2) [of 0] by (simp add: pa_def)
    qed
    have IH: "returns E s (copyin pagetable (PGROUNDDOWN va + PGSIZE) (len - n)) (\<lambda>r t.
        r = (if k1 = len - n then 0 else - 1, ubytes m pagetable (PGROUNDDOWN va + PGSIZE) k1) \<and> t = s)"
      using "1.IH" [OF ne refl n_def pa]
      by (simp add: Let_def m_def k1_def split del: if_split)
    have step: "returns E s (copyin pagetable va len) Q
      = returns E s (copyin pagetable (PGROUNDDOWN va + PGSIZE) (len - n))
          (\<lambda>(r, rest) t. Q (r, bytes_at m (pa + (va - PGROUNDDOWN va)) n @ rest) t)" for Q
      using ne pa
      by (subst copyin.simps) (auto simp: kwp Let_def m_def [symmetric] pa_def [symmetric]
          n_def [symmetric] split_def)
    show ?thesis
      unfolding step Let_def m_def [symmetric] k bytes
      by (rule returns_mono [OF IH]) (use nk in auto)
  qed
qed


lemma scan_nul_eq:
  "scan_nul m p n =
     (let bs = bytes_at m p n in
      if 0 \<in> set bs then (True, takeWhile (\<lambda>c. c \<noteq> 0) bs @ [0]) else (False, bs))"
proof (induction n arbitrary: p)
  case 0
  show ?case by (simp add: bytes_at_def)
next
  case (Suc n)
  have "bytes_at m p (Suc n) = m p # bytes_at m (p + 1) n" by (rule bytes_at_Suc)
  then show ?case using Suc [of "p + 1"] by (auto simp: Let_def split: prod.splits if_splits)
qed

lemma copyinstr_spec:
  "returns E s (copyinstr pagetable va len) (\<lambda>r t.
    let bs = ubytes (ram s) pagetable va (mapped_len (ram s) pagetable va len) in
    r = (if 0 \<in> set bs then (0, takeWhile (\<lambda>c. c \<noteq> 0) bs @ [0]) else (- 1, bs)) \<and> t = s)"
proof (induction pagetable va len rule: copyinstr.induct)
  case (1 pagetable va len)
  define m where "m = ram s"
  define pa where "pa = uaddr m pagetable (PGROUNDDOWN va)"
  define n where "n = min (page_rest va) len"
  show ?case
  proof (cases "len = 0 \<or> pa = 0")
    case True
    then show ?thesis
      using mapped_len_unmapped [of m pagetable va len]
      by (subst copyinstr.simps) (auto simp: kwp Let_def m_def [symmetric] pa_def [symmetric])
  next
    case False
    then have ne: "len \<noteq> 0" and pa: "pa \<noteq> 0" by auto
    define k1 where "k1 = mapped_len m pagetable (PGROUNDDOWN va + PGSIZE) (len - n)"
    define b0 where "b0 = bytes_at m (pa + (va - PGROUNDDOWN va)) n"
    define b1 where "b1 = ubytes m pagetable (PGROUNDDOWN va + PGSIZE) k1"
    note first = first_page [OF pa [unfolded pa_def] n_def]
    have k: "mapped_len m pagetable va len = n + k1" by (simp add: k1_def first(1))
    have nk: "n + k1 \<le> len" using mapped_len_le [of m pagetable va len] by (simp add: k)
    have bytes: "ubytes m pagetable va (n + k1) = b0 @ b1"
    proof (cases "n < len")
      case True
      then show ?thesis using first(2) [of k1] first(3) by (simp add: pa_def b0_def b1_def)
    next
      case False
      then have "k1 = 0" using nk by simp
      then show ?thesis using first(2) [of 0] by (simp add: pa_def b0_def b1_def)
    qed
    show ?thesis
    proof (cases "0 \<in> set b0")
      case True
      then show ?thesis
        using ne pa
        by (subst copyinstr.simps) (auto simp: kwp Let_def m_def [symmetric] pa_def [symmetric]
            n_def [symmetric] scan_nul_eq b0_def [symmetric] k bytes)
    next
      case no0: False
      have IH: "returns E s (copyinstr pagetable (PGROUNDDOWN va + PGSIZE) (len - n)) (\<lambda>r t.
          r = (if 0 \<in> set b1 then (0, takeWhile (\<lambda>c. c \<noteq> 0) b1 @ [0]) else (- 1, b1)) \<and> t = s)"
        using "1.IH" [OF ne refl n_def pa, of False]
        unfolding b1_def k1_def m_def Let_def by simp
      have step: "returns E s (copyinstr pagetable va len) Q
        = returns E s (copyinstr pagetable (PGROUNDDOWN va + PGSIZE) (len - n))
            (\<lambda>(r, rest) t. Q (r, b0 @ rest) t)" for Q
        using ne pa no0
        by (subst copyinstr.simps) (auto simp: kwp Let_def m_def [symmetric] pa_def [symmetric]
            n_def [symmetric] split_def scan_nul_eq b0_def [symmetric])
      have tw: "takeWhile (\<lambda>c. c \<noteq> 0) (b0 @ b1) = b0 @ takeWhile (\<lambda>c. c \<noteq> 0) b1"
        using no0 by (intro takeWhile_append2) auto
      show ?thesis
        unfolding step Let_def m_def [symmetric] k bytes tw
        by (rule returns_mono [OF IH]) (use no0 in \<open>auto split: if_splits\<close>)
    qed
  qed
qed

end
