(* ===== verification/Lock_Frame.thy ===== *)
theory Lock_Frame
  imports Spinlock
begin

text \<open>
  A program logic for code that takes and releases locks with nobody competing. States are
  compared up to what a balanced use of locks leaves behind (\<open>lk_eq\<close>: lock statistics,
  \<^verbatim>\<open>intena\<close> outside any \<^verbatim>\<open>push_off\<close>), so that a critical section ends in the very state
  it began in, with the changes its body made.
\<close>

named_theorems lk_fields \<open>parts of the state that do not depend on lock statistics\<close>
named_theorems kends \<open>rules for running statements up to lock statistics\<close>

definition lk_eq :: "'z machine_scheme \<Rightarrow> 'z machine_scheme \<Rightarrow> bool" where
  "lk_eq s t \<longleftrightarrow> lk_same s t \<and> machine.more t = machine.more s"

lemma lk_eq_refl: "lk_eq s s"
  by (simp add: lk_eq_def)

lemma lk_eq_trans: "lk_eq s t \<Longrightarrow> lk_eq t u \<Longrightarrow> lk_eq s u"
  by (auto simp: lk_eq_def intro: lk_same_trans)

lemma lk_eq_sym: "lk_eq s t \<Longrightarrow> lk_eq t s"
  by (auto simp: lk_eq_def lk_same_def)

lemma lk_eq_machine [lk_fields]:
  assumes "lk_eq s t"
  shows "tp t = tp s" "csr t = csr s" "locktab t = locktab s" "locked (locks t l) = locked (locks s l)"
    "lkname (locks t l) = lkname (locks s l)" "held t l = held s l"
    "cproc (cpus t c) = cproc (cpus s c)" "noff (cpus t c) = noff (cpus s c)"
    "intr_enabled t = intr_enabled s" "machine.more t = machine.more s"
  using assms by (auto simp: lk_eq_def lk_same_def held_def intr_enabled_def)

lemma lk_eq_cpu_ok: "lk_eq s t \<Longrightarrow> cpu_room n s \<Longrightarrow> cpu_room n t"
  by (auto simp: lk_eq_def intro: lk_same_cpu_ok)

lemma lk_eq_pushed: "lk_eq s t \<Longrightarrow> lk_eq (pushed s) (pushed t)"
  by (auto simp: lk_eq_def lk_same_def pushed_def intr_enabled_def)

lemma lk_eq_acquired: "lk_eq s t \<Longrightarrow> lk_eq (acquired l s) (acquired l t)"
  using lk_eq_pushed [of s t] by (auto simp: lk_eq_def lk_same_def acquired_def)

text \<open>Two locks may be released in any order.\<close>

lemma acquired_commute: "l \<noteq> k \<Longrightarrow> lk_eq (acquired l (acquired k s)) (acquired k (acquired l s))"
  by (auto simp: lk_eq_def lk_same_def lockfx intr_enabled_def fun_upd_twist)

lemma lk_eq_released:
  assumes "lk_eq (acquired l s) t" "cpu_room 1 s" "locked (locks s l) = 0"
  shows "lk_eq s (released l t)"
  using assms by (auto simp: lk_eq_def intro: lk_same_released)

section \<open>Running up to lock statistics\<close>

definition ends ::
  "(lockid, 'z machine_scheme) env \<Rightarrow> 'z machine_scheme \<Rightarrow> ('z machine_scheme, 'a) K \<Rightarrow>
     ('a \<Rightarrow> 'z machine_scheme \<Rightarrow> bool) \<Rightarrow> bool" where
  "ends E s m Q \<longleftrightarrow> (\<forall>t. lk_eq s t \<longrightarrow> returns E t m (\<lambda>a u. \<exists>s'. lk_eq s' u \<and> Q a s'))"

lemma endsD: "ends E s m Q \<Longrightarrow> lk_eq s t \<Longrightarrow> returns E t m (\<lambda>a u. \<exists>s'. lk_eq s' u \<and> Q a s')"
  by (simp add: ends_def)

lemma ends_returns: "ends E s m Q \<Longrightarrow> returns E s m (\<lambda>a u. \<exists>s'. lk_eq s' u \<and> Q a s')"
  by (simp add: ends_def lk_eq_refl)

lemma ends_mono: "ends E s m Q \<Longrightarrow> (\<And>a t. Q a t \<Longrightarrow> R a t) \<Longrightarrow> ends E s m R"
  unfolding ends_def by (intro allI impI, erule allE, drule mp, assumption, erule returns_mono) blast

lemma ends_eq: "ends E s m Q \<Longrightarrow> lk_eq s t \<Longrightarrow> ends E t m Q"
  unfolding ends_def using lk_eq_trans by blast

lemma ends_ret [kends]: "Q a s \<Longrightarrow> ends E s (ret a) Q"
  by (auto simp: ends_def kwp)

lemma ends_gets [kends]: "(\<And>t. lk_eq s t \<Longrightarrow> f t = f s) \<Longrightarrow> Q (f s) s \<Longrightarrow> ends E s (gets f) Q"
  unfolding ends_def returns_gets by metis

lemma ends_modify:
  "(\<And>t. lk_eq s t \<Longrightarrow> lk_eq (f s) (f t)) \<Longrightarrow> Q () (f s) \<Longrightarrow> ends E s (modify f) Q"
  unfolding ends_def returns_modify by blast

lemma ends_bnd [kends]: "ends E s m (\<lambda>a t. ends E t (f a) Q) \<Longrightarrow> ends E s (bnd m f) Q"
  unfolding ends_def [of E s] returns_bnd
  by (intro allI impI, erule allE, drule mp, assumption, erule returns_mono) (auto dest: endsD)

lemma ends_thn [kends]: "ends E s m (\<lambda>_ t. ends E t n Q) \<Longrightarrow> ends E s (thn m n) Q"
  unfolding thn_def by (rule ends_bnd)

lemma ends_if: "(b \<Longrightarrow> ends E s m Q) \<Longrightarrow> (\<not> b \<Longrightarrow> ends E s n Q) \<Longrightarrow> ends E s (if b then m else n) Q"
  by simp

lemma ends_whenK [kends]:
  "(b \<Longrightarrow> ends E s m Q) \<Longrightarrow> (\<not> b \<Longrightarrow> Q () s) \<Longrightarrow> ends E s (whenK b m) Q"
  by (simp add: whenK_def ends_ret)

lemma ends_acquire [kends]:
  assumes "uncontended E" "locked (locks s l) = 0" "Q () (acquired l s)"
  shows "ends E s (acquire l) Q"
  using assms lk_eq_acquired by (fastforce simp: ends_def returns_acquire lk_fields)

text \<open>
  With competition: while this CPU waits for the lock \<open>l\<close>, interrupts off, the others take the rest of the machine
  from \<open>s\<close> to \<open>r\<close>.
\<close>

definition waiting :: "(lockid, 'z machine_scheme) env \<Rightarrow> lockid \<Rightarrow> 'z machine_scheme \<Rightarrow> 'z machine_scheme \<Rightarrow> bool" where
  "waiting E l s r \<longleftrightarrow> (\<forall>t. lk_eq (pushed s) t \<longrightarrow> (\<exists>u. E (AtLock l) t = Some u \<and> lk_eq (pushed r) u))"

lemma uncontended_waiting: "uncontended E \<Longrightarrow> waiting E l s s"
  by (simp add: waiting_def uncontended_def)

lemma ends_acquire_waiting:
  assumes held: "\<not> held s l" and w: "waiting E l s r" and free: "locked (locks r l) = 0" and Q: "Q () (acquired l r)"
  shows "ends E s (acquire l) Q"
  unfolding ends_def
proof (intro allI impI)
  fix t
  assume t: "lk_eq s t"
  define x where "x = (pushed t)\<lparr>locks := (locks t)(l := (locks t l)\<lparr>nacq := nacq (locks t l) + 1\<rparr>)\<rparr>"
  have "lk_eq (pushed t) x" by (auto simp: lk_eq_def lk_same_def x_def)
  then have "lk_eq (pushed s) x" using lk_eq_pushed [OF t] lk_eq_trans by blast
  then obtain u where u: "E (AtLock l) x = Some u" "lk_eq (pushed r) u" using w by (auto simp: waiting_def)
  define y where "y = u\<lparr>locks := (locks u)(l := (locks u l)\<lparr>locked := 1, lkcpu := Some (tp u)\<rparr>)\<rparr>"
  have "locked (locks u l) = 0" using lk_eq_machine(4) [OF u(2), of l] free by simp
  then have "spin l E x = Some (Ret () (u\<lparr>locks := (locks u)(l := (locks u l)\<lparr>locked := 1\<rparr>)\<rparr>))"
    using u(1) by (subst spin.simps) (simp add: kdefs)
  moreover have "\<not> held t l" using held lk_eq_machine(6) [OF t, of l] by simp
  ultimately have "acquire l E t = Some (Ret () y)"
    by (simp add: acquire_def kdefs push_off_eq holding_eq x_def [symmetric] y_def)
  moreover have "lk_eq (acquired l r) y"
    using u(2) by (auto simp: lk_eq_def lk_same_def acquired_def y_def)
  ultimately show "returns E t (acquire l) (\<lambda>a u. \<exists>s'. lk_eq s' u \<and> Q a s')" using Q by (auto simp: returns_def)
qed

text \<open>The state before the matching \<^verbatim>\<open>acquire\<close> is the one after \<^verbatim>\<open>release\<close>.\<close>

lemma ends_release:
  assumes "lk_eq (acquired l s) t" "cpu_room 1 s" "locked (locks s l) = 0" "Q () s"
  shows "ends E t (release l) Q"
  unfolding ends_def
proof (intro allI impI)
  fix u
  assume "lk_eq t u"
  then have u: "lk_eq (acquired l s) u" using assms(1) lk_eq_trans by blast
  then show "returns E u (release l) (\<lambda>a u. \<exists>s'. lk_eq s' u \<and> Q a s')"
    using returns_release [of l s u E] lk_eq_released [OF u assms(2,3)] assms(2,4)
    by (auto simp: lk_eq_def)
qed

lemma ends_release_same [kends]:
  "cpu_room 1 s \<Longrightarrow> locked (locks s l) = 0 \<Longrightarrow> Q () s \<Longrightarrow> ends E (acquired l s) (release l) Q"
  by (rule ends_release [OF lk_eq_refl])

lemma ends_forK_upt:
  assumes "I 0 s" "\<And>i t. i < n \<Longrightarrow> I i t \<Longrightarrow> ends E t (body i) (\<lambda>_. I (Suc i))"
  shows "ends E s (forK [0..<n] body) (\<lambda>_. I n)"
proof -
  have "ends E t (forK [k..<n] body) (\<lambda>_. I n)" if "I k t" "k \<le> n" for k t
    using that
  proof (induction "n - k" arbitrary: k t)
    case 0
    then show ?case by (simp add: ends_ret)
  next
    case (Suc d)
    then have "[k..<n] = k # [Suc k..<n]" by (simp add: upt_conv_Cons)
    moreover have "ends E t (body k) (\<lambda>_. I (Suc k))" using Suc assms(2) by simp
    ultimately show ?case
      using Suc by (auto intro!: ends_thn elim!: ends_mono)
  qed
  then show ?thesis using assms(1) by simp
qed

text \<open>A search: turns that find nothing keep the invariant, a turn that finds something ends it.\<close>

lemma ends_findK_upt:
  assumes "I 0 s"
    and "\<And>i t. i < n \<Longrightarrow> I i t \<Longrightarrow> ends E t (body i)
           (\<lambda>r u. case r of None \<Rightarrow> I (Suc i) u | Some a \<Rightarrow> Q (Some a) u)"
    and "\<And>t. I n t \<Longrightarrow> Q None t"
  shows "ends E s (findK [0..<n] body) Q"
proof -
  have "ends E t (findK [k..<n] body) Q" if "I k t" "k \<le> n" for k t
    using that
  proof (induction "n - k" arbitrary: k t)
    case 0
    then show ?case using assms(3) by (simp add: ends_ret)
  next
    case (Suc d)
    then have "[k..<n] = k # [Suc k..<n]" by (simp add: upt_conv_Cons)
    moreover have "ends E t (body k) (\<lambda>r u. case r of None \<Rightarrow> I (Suc k) u | Some a \<Rightarrow> Q (Some a) u)"
      using Suc assms(2) by simp
    ultimately show ?case
      using Suc by (auto intro!: ends_bnd ends_ret elim!: ends_mono split: option.splits)
  qed
  then show ?thesis using assms(1) by simp
qed

text \<open>A search for the first index with a property, which leaves the others alone.\<close>

lemma ends_findK_find:
  assumes skip: "\<And>i R. i < n \<Longrightarrow> \<not> P i \<Longrightarrow> R None s \<Longrightarrow> ends E s (body i) R"
    and hit: "\<And>i. find P [0..<n] = Some i \<Longrightarrow> i < n \<Longrightarrow> P i \<Longrightarrow>
      ends E s (body i) (\<lambda>r u. case r of Some a \<Rightarrow> Q (Some a) u | None \<Rightarrow> False)"
    and miss: "find P [0..<n] = None \<Longrightarrow> Q None s"
  shows "ends E s (findK [0..<n] body) Q"
proof (rule ends_findK_upt [where I = "\<lambda>i t. t = s \<and> (\<forall>j < i. \<not> P j)"])
  fix i t
  assume i: "i < n" and t: "t = s \<and> (\<forall>j < i. \<not> P j)"
  show "ends E t (body i) (\<lambda>r u. case r of None \<Rightarrow> u = s \<and> (\<forall>j < Suc i. \<not> P j) | Some a \<Rightarrow> Q (Some a) u)"
  proof (cases "P i")
    case True
    then have "find P [0..<n] = Some i" using i t by (auto simp: find_Some_iff)
    then have "ends E s (body i) (\<lambda>r u. case r of Some a \<Rightarrow> Q (Some a) u | None \<Rightarrow> False)"
      using hit i True by blast
    then show ?thesis using t by (auto elim!: ends_mono split: option.splits)
  next
    case False
    then show ?thesis using skip [OF i] t by (simp add: less_Suc_eq)
  qed
next
  fix t
  assume "t = s \<and> (\<forall>j < n. \<not> P j)"
  moreover from this have "find P [0..<n] = None" by (simp add: find_None_iff)
  ultimately show "Q None t" using miss by simp
qed simp

text \<open>A computation that panics, up to lock statistics.\<close>

definition fails :: "(lockid, 'z machine_scheme) env \<Rightarrow> 'z machine_scheme \<Rightarrow> ('z machine_scheme, 'a) K \<Rightarrow> string \<Rightarrow> bool" where
  "fails E s m msg \<longleftrightarrow> (\<forall>t. lk_eq s t \<longrightarrow> m E t = Some (Panic msg))"

lemma fails_panic: "fails E s (panic msg) msg"
  by (simp add: fails_def kdefs)

lemma fails_bnd:
  assumes "ends E s m (\<lambda>a t. fails E t (f a) msg)"
  shows "fails E s (bnd m f) msg"
  unfolding fails_def
proof (intro allI impI)
  fix t
  assume "lk_eq s t"
  from endsD [OF assms this] obtain a u s' where "m E t = Some (Ret a u)" "lk_eq s' u" "fails E s' (f a) msg"
    by (auto simp: returns_def)
  then show "bnd m f E t = Some (Panic msg)" by (simp add: kdefs fails_def)
qed

lemma fails_thn: "ends E s m (\<lambda>_ t. fails E t n msg) \<Longrightarrow> fails E s (thn m n) msg"
  unfolding thn_def by (rule fails_bnd)

lemma fails_check: "b \<Longrightarrow> fails E s (thn (whenK b (panic msg)) n) msg"
  by (simp add: fails_def whenK_def kdefs)

lemma passes_check: "\<not> b \<Longrightarrow> fails E s n msg \<Longrightarrow> fails E s (thn (whenK b m) n) msg"
  by (simp add: fails_def whenK_def kdefs)

text \<open>Reading this CPU's number between \<^verbatim>\<open>push_off\<close> and \<^verbatim>\<open>pop_off\<close>.\<close>

lemma lk_eq_popped_pushed: "cpu_room n s \<Longrightarrow> lk_eq s (popped (pushed s))"
  by (simp add: lk_eq_def lk_same_popped_pushed)

end
