(* ===== verification/Proc.thy ===== *)
theory Proc
  imports Vm Lock_Frame
begin

text \<open>
  Processes, \<^verbatim>\<open>kernel/proc.c\<close> and \<^verbatim>\<open>kernel/proc.h\<close>: the process table, allocation of
  pids and process slots, user page tables, sleep and wakeup, the scheduler. A process is
  its index in the table \<^verbatim>\<open>proc[NPROC]\<close>. Switching to another thread
  (\<^verbatim>\<open>swtch\<close>, assembly) is the environment's event \<open>AtSwtch\<close>. The operations that also
  touch files or the console (\<^verbatim>\<open>fork\<close>, \<^verbatim>\<open>exit\<close>, \<^verbatim>\<open>userinit\<close>, \<^verbatim>\<open>forkret\<close>,
  \<^verbatim>\<open>procdump\<close>) are in later theories.
\<close>

section \<open>The process table\<close>

datatype procstate = UNUSED | USED | SLEEPING | RUNNABLE | RUNNING | ZOMBIE

text \<open>\<^verbatim>\<open>struct context\<close>, without the callee-saved registers, which only \<^verbatim>\<open>swtch\<close> touches.\<close>

record kcontext =
  ctx_ra :: uint64
  ctx_sp :: uint64

text \<open>\<^verbatim>\<open>struct proc\<close>; a C \<^verbatim>\<open>int\<close> is a 32-bit word, read with \<open>sint\<close> where its sign matters.\<close>

record proc =
  p_state :: procstate
  p_chan :: "chan option"
  p_killed :: bool
  p_xstate :: uint32
  p_pid :: uint32
  p_parent :: "nat option"
  p_kstack :: uint64
  p_sz :: uint64
  p_pagetable :: uint64
  p_trapframe :: uint64
  p_context :: kcontext
  p_ofile :: "nat \<Rightarrow> nat option"
  p_cwd :: "nat option"
  p_name :: memory

text \<open>Addresses of code the linker fixes.\<close>

record symbols =
  sym_etext :: uint64
  sym_trampoline :: uint64
  sym_uservec :: uint64
  sym_userret :: uint64
  sym_kernelvec :: uint64
  sym_usertrap :: uint64
  sym_forkret :: uint64

record proc_state = vm_state +
  procs :: "nat \<Rightarrow> proc"
  nextpid :: uint32
  initproc :: "nat option"
  syms :: symbols
  ticks :: uint32
  forkret_first :: bool

definition upd_proc :: "nat \<Rightarrow> (proc \<Rightarrow> proc) \<Rightarrow> ('z proc_state_scheme, unit) K" where
  [kdefs]: "upd_proc p f = modify (\<lambda>s. s\<lparr>procs := (procs s)(p := f (procs s p))\<rparr>)"

text \<open>\<^verbatim>\<open>struct trapframe\<close>: a page of its own, read and written at the offsets of \<^verbatim>\<open>proc.h\<close>.\<close>

abbreviation (input) TF_KERNEL_SATP :: uint64 where "TF_KERNEL_SATP \<equiv> 0"
abbreviation (input) TF_KERNEL_SP :: uint64 where "TF_KERNEL_SP \<equiv> 8"
abbreviation (input) TF_KERNEL_TRAP :: uint64 where "TF_KERNEL_TRAP \<equiv> 16"
abbreviation (input) TF_EPC :: uint64 where "TF_EPC \<equiv> 24"
abbreviation (input) TF_KERNEL_HARTID :: uint64 where "TF_KERNEL_HARTID \<equiv> 32"
abbreviation (input) TF_SP :: uint64 where "TF_SP \<equiv> 48"
abbreviation (input) TF_A0 :: uint64 where "TF_A0 \<equiv> 112"
abbreviation (input) TF_A7 :: uint64 where "TF_A7 \<equiv> 168"

definition tf_get :: "nat \<Rightarrow> uint64 \<Rightarrow> ('z proc_state_scheme, uint64) K" where
  [kdefs]: "tf_get p off = gets (\<lambda>s. load64 (ram s) (p_trapframe (procs s p) + off))"

definition tf_set :: "nat \<Rightarrow> uint64 \<Rightarrow> uint64 \<Rightarrow> ('z proc_state_scheme, unit) K" where
  [kdefs]: "tf_set p off v = modify (\<lambda>s. s\<lparr>ram := store64 (ram s) (p_trapframe (procs s p) + off) v\<rparr>)"

section \<open>Operations\<close>

definition procinit :: "('z proc_state_scheme, unit) K" where
  "procinit =
     thn (initlock PidLock ''nextpid'') (
     thn (initlock WaitLock ''wait_lock'') (
     forK [0..<NPROC] (\<lambda>p.
       thn (initlock (ProcLock p) ''proc'') (
       upd_proc p (\<lambda>pr. pr\<lparr>p_kstack := KSTACK p\<rparr>)))))"

definition myproc :: "('z machine_scheme, nat option) K" where
  "myproc =
     thn push_off (
     bnd mycpu (\<lambda>c.
     bnd (gets (\<lambda>s. cproc (cpus s c))) (\<lambda>p.
     thn pop_off (
     ret p))))"

text \<open>\<^verbatim>\<open>myproc()->...\<close>\<close>

definition curproc :: "('z machine_scheme, nat) K" where
  "curproc = bnd myproc deref"

definition allocpid :: "('z proc_state_scheme, uint32) K" where
  "allocpid =
     thn (acquire PidLock) (
     bnd (gets nextpid) (\<lambda>pid.
     thn (modify (\<lambda>s. s\<lparr>nextpid := nextpid s + 1\<rparr>)) (
     thn (release PidLock) (
     ret pid))))"

definition proc_pagetable :: "nat \<Rightarrow> ('z proc_state_scheme, uint64) K" where
  "proc_pagetable p =
     bnd uvmcreate (\<lambda>pagetable.
     if pagetable = 0 then ret 0
     else bnd (gets (\<lambda>s. sym_trampoline (syms s))) (\<lambda>trampoline.
          bnd (mappages pagetable TRAMPOLINE PGSIZE trampoline (PTE_R OR PTE_X)) (\<lambda>r.
          if r < 0 then thn (uvmfree pagetable 0) (ret 0)
          else bnd (gets (\<lambda>s. p_trapframe (procs s p))) (\<lambda>tf.
               bnd (mappages pagetable TRAPFRAME PGSIZE tf (PTE_R OR PTE_W)) (\<lambda>r2.
               if r2 < 0
               then thn (uvmunmap pagetable TRAMPOLINE 1 False) (thn (uvmfree pagetable 0) (ret 0))
               else ret pagetable)))))"

definition proc_freepagetable :: "uint64 \<Rightarrow> uint64 \<Rightarrow> ('z kmem_state_scheme, unit) K" where
  "proc_freepagetable pagetable sz =
     thn (uvmunmap pagetable TRAMPOLINE 1 False) (
     thn (uvmunmap pagetable TRAPFRAME 1 False) (
     uvmfree pagetable sz))"

definition freeproc :: "nat \<Rightarrow> ('z proc_state_scheme, unit) K" where
  "freeproc p =
     bnd (gets (\<lambda>s. p_trapframe (procs s p))) (\<lambda>tf.
     thn (whenK (tf \<noteq> 0) (kfree tf)) (
     thn (upd_proc p (\<lambda>pr. pr\<lparr>p_trapframe := 0\<rparr>)) (
     bnd (gets (\<lambda>s. p_pagetable (procs s p))) (\<lambda>pt.
     bnd (gets (\<lambda>s. p_sz (procs s p))) (\<lambda>sz.
     thn (whenK (pt \<noteq> 0) (proc_freepagetable pt sz)) (
     thn (upd_proc p (\<lambda>pr. pr\<lparr>p_pagetable := 0\<rparr>)) (
     thn (upd_proc p (\<lambda>pr. pr\<lparr>p_sz := 0\<rparr>)) (
     thn (upd_proc p (\<lambda>pr. pr\<lparr>p_pid := 0\<rparr>)) (
     thn (upd_proc p (\<lambda>pr. pr\<lparr>p_parent := None\<rparr>)) (
     thn (upd_proc p (\<lambda>pr. pr\<lparr>p_name := (p_name pr)(0 := 0)\<rparr>)) (
     thn (upd_proc p (\<lambda>pr. pr\<lparr>p_chan := None\<rparr>)) (
     thn (upd_proc p (\<lambda>pr. pr\<lparr>p_killed := False\<rparr>)) (
     thn (upd_proc p (\<lambda>pr. pr\<lparr>p_xstate := 0\<rparr>)) (
     upd_proc p (\<lambda>pr. pr\<lparr>p_state := UNUSED\<rparr>)))))))))))))))"

text \<open>The search of \<^verbatim>\<open>allocproc\<close>, which leaves with the lock of the slot held.\<close>

definition find_unused :: "('z proc_state_scheme, nat option) K" where
  "find_unused = findK [0..<NPROC] (\<lambda>p.
     thn (acquire (ProcLock p)) (
     bnd (gets (\<lambda>s. p_state (procs s p))) (\<lambda>st.
     if st = UNUSED then ret (Some p)
     else thn (release (ProcLock p)) (ret None))))"

definition allocproc :: "('z proc_state_scheme, nat option) K" where
  "allocproc =
     bnd find_unused (\<lambda>found.
     case found of
       None \<Rightarrow> ret None
     | Some p \<Rightarrow>
         bnd allocpid (\<lambda>pid.
         thn (upd_proc p (\<lambda>pr. pr\<lparr>p_pid := pid\<rparr>)) (
         thn (upd_proc p (\<lambda>pr. pr\<lparr>p_state := USED\<rparr>)) (
         bnd kalloc (\<lambda>tf.
         thn (upd_proc p (\<lambda>pr. pr\<lparr>p_trapframe := tf\<rparr>)) (
         if tf = 0
         then thn (freeproc p) (thn (release (ProcLock p)) (ret None))
         else bnd (proc_pagetable p) (\<lambda>pt.
              thn (upd_proc p (\<lambda>pr. pr\<lparr>p_pagetable := pt\<rparr>)) (
              if pt = 0
              then thn (freeproc p) (thn (release (ProcLock p)) (ret None))
              else bnd (gets (\<lambda>s. sym_forkret (syms s))) (\<lambda>forkret.
                   thn (upd_proc p (\<lambda>pr. pr\<lparr>p_context :=
                          \<lparr>ctx_ra = forkret, ctx_sp = p_kstack pr + PGSIZE\<rparr>\<rparr>)) (
                   ret (Some p)))))))))))"

text \<open>
  \<^verbatim>\<open>uint sz\<close> in \<^verbatim>\<open>growproc\<close> keeps 32 bits of the size; \<^verbatim>\<open>sz + n\<close> is unsigned
  32-bit arithmetic.
\<close>

definition growproc :: "uint32 \<Rightarrow> ('z proc_state_scheme, int) K" where
  "growproc n =
     bnd curproc (\<lambda>p.
     bnd (gets (\<lambda>s. ucast (p_sz (procs s p)) :: uint32)) (\<lambda>sz.
     bnd (gets (\<lambda>s. p_pagetable (procs s p))) (\<lambda>pt.
     if sint n > 0
     then bnd (uvmalloc pt (ucast sz) (ucast (sz + n))) (\<lambda>r.
          if (ucast r :: uint32) = 0 then ret (- 1)
          else thn (upd_proc p (\<lambda>pr. pr\<lparr>p_sz := ucast (ucast r :: uint32)\<rparr>)) (ret 0))
     else if sint n < 0
     then bnd (uvmdealloc pt (ucast sz) (ucast (sz + n))) (\<lambda>r.
          thn (upd_proc p (\<lambda>pr. pr\<lparr>p_sz := ucast (ucast r :: uint32)\<rparr>)) (ret 0))
     else thn (upd_proc p (\<lambda>pr. pr\<lparr>p_sz := ucast sz\<rparr>)) (ret 0))))"

section \<open>Sleep and wakeup\<close>

definition sched :: "('z proc_state_scheme, unit) K" where
  "sched =
     bnd curproc (\<lambda>p.
     bnd (holding (ProcLock p)) (\<lambda>h.
     thn (whenK (\<not> h) (panic ''sched p->lock'')) (
     bnd mycpu (\<lambda>c.
     bnd (gets (\<lambda>s. noff (cpus s c))) (\<lambda>n.
     thn (whenK (n \<noteq> 1) (panic ''sched locks'')) (
     bnd (gets (\<lambda>s. p_state (procs s p))) (\<lambda>st.
     thn (whenK (st = RUNNING) (panic ''sched running'')) (
     bnd intr_get (\<lambda>i.
     thn (whenK i (panic ''sched interruptible'')) (
     bnd (gets (\<lambda>s. intena (cpus s c))) (\<lambda>ie.
     thn (interfere AtSwtch) (
     bnd mycpu (\<lambda>c2.
     upd_cpu c2 (\<lambda>cp. cp\<lparr>intena := ie\<rparr>))))))))))))))"

definition yield :: "('z proc_state_scheme, unit) K" where
  "yield =
     bnd curproc (\<lambda>p.
     thn (acquire (ProcLock p)) (
     thn (upd_proc p (\<lambda>pr. pr\<lparr>p_state := RUNNABLE\<rparr>)) (
     thn sched (
     release (ProcLock p)))))"

definition sleep :: "chan \<Rightarrow> lockid \<Rightarrow> ('z proc_state_scheme, unit) K" where
  "sleep ch lk =
     bnd curproc (\<lambda>p.
     thn (acquire (ProcLock p)) (
     thn (release lk) (
     thn (upd_proc p (\<lambda>pr. pr\<lparr>p_chan := Some ch\<rparr>)) (
     thn (upd_proc p (\<lambda>pr. pr\<lparr>p_state := SLEEPING\<rparr>)) (
     thn sched (
     thn (upd_proc p (\<lambda>pr. pr\<lparr>p_chan := None\<rparr>)) (
     thn (release (ProcLock p)) (
     acquire lk))))))))"

text \<open>The channel is a pointer, possibly null.\<close>

definition wakeup :: "chan option \<Rightarrow> ('z proc_state_scheme, unit) K" where
  "wakeup ch =
     forK [0..<NPROC] (\<lambda>p.
       bnd myproc (\<lambda>me.
       whenK (me \<noteq> Some p)
         (thn (acquire (ProcLock p)) (
          bnd (gets (\<lambda>s. procs s p)) (\<lambda>pr.
          thn (whenK (p_state pr = SLEEPING \<and> p_chan pr = ch)
                 (upd_proc p (\<lambda>pr. pr\<lparr>p_state := RUNNABLE\<rparr>))) (
          release (ProcLock p)))))))"

definition kill :: "uint32 \<Rightarrow> ('z proc_state_scheme, int) K" where
  "kill pid =
     bnd (findK [0..<NPROC] (\<lambda>p.
       thn (acquire (ProcLock p)) (
       bnd (gets (\<lambda>s. p_pid (procs s p))) (\<lambda>q.
       if q = pid
       then thn (upd_proc p (\<lambda>pr. pr\<lparr>p_killed := True\<rparr>)) (
            bnd (gets (\<lambda>s. p_state (procs s p))) (\<lambda>st.
            thn (whenK (st = SLEEPING) (upd_proc p (\<lambda>pr. pr\<lparr>p_state := RUNNABLE\<rparr>))) (
            thn (release (ProcLock p)) (
            ret (Some ())))))
       else thn (release (ProcLock p)) (ret None))))) (\<lambda>r.
     ret (case r of Some _ \<Rightarrow> 0 | None \<Rightarrow> - 1))"

definition reparent :: "nat \<Rightarrow> ('z proc_state_scheme, unit) K" where
  "reparent p =
     forK [0..<NPROC] (\<lambda>pp.
       bnd (gets (\<lambda>s. p_parent (procs s pp))) (\<lambda>par.
       whenK (par = Some p)
         (bnd (gets initproc) (\<lambda>ini.
          thn (upd_proc pp (\<lambda>pr. pr\<lparr>p_parent := ini\<rparr>)) (
          wakeup (map_option ChProc ini))))))"

section \<open>Waiting for children and scheduling\<close>

text \<open>
  One scan of the table in \<^verbatim>\<open>wait\<close>: the value to return, if a zombie child was found (the
  locks are then released), and whether there are children at all.
\<close>

fun wait_scan :: "nat list \<Rightarrow> nat \<Rightarrow> uint64 \<Rightarrow> bool \<Rightarrow> ('z proc_state_scheme, uint32 option \<times> bool) K" where
  "wait_scan [] p addr havekids = ret (None, havekids)"
| "wait_scan (np # nps) p addr havekids =
     bnd (gets (\<lambda>s. p_parent (procs s np))) (\<lambda>par.
     if par \<noteq> Some p then wait_scan nps p addr havekids
     else thn (acquire (ProcLock np)) (
          bnd (gets (\<lambda>s. procs s np)) (\<lambda>pr.
          if p_state pr = ZOMBIE
          then bnd (gets (\<lambda>s. p_pagetable (procs s p))) (\<lambda>pt.
               bnd (if addr \<noteq> 0 then copyout pt addr (bytes32 (p_xstate pr)) else ret 0) (\<lambda>r.
               if r < 0
               then thn (release (ProcLock np)) (thn (release WaitLock) (ret (Some (- 1), True)))
               else thn (freeproc np) (
                    thn (release (ProcLock np)) (
                    thn (release WaitLock) (
                    ret (Some (p_pid pr), True))))))
          else thn (release (ProcLock np)) (wait_scan nps p addr True))))"

partial_function (option) wait_loop ::
  "nat \<Rightarrow> uint64 \<Rightarrow> (lockid, 'z proc_state_scheme) env \<Rightarrow> 'z proc_state_scheme \<Rightarrow>
     ('z proc_state_scheme, uint32) outcome option" where
  "wait_loop p addr E s =
     bnd (wait_scan [0..<NPROC] p addr False) (\<lambda>(found, havekids).
     case found of
       Some pid \<Rightarrow> ret pid
     | None \<Rightarrow>
         bnd (gets (\<lambda>s. p_killed (procs s p))) (\<lambda>killed.
         if \<not> havekids \<or> killed then thn (release WaitLock) (ret (- 1))
         else thn (sleep (ChProc p) WaitLock) (wait_loop p addr))) E s"

definition wait :: "uint64 \<Rightarrow> ('z proc_state_scheme, uint32) K" where
  "wait addr =
     bnd curproc (\<lambda>p.
     thn (acquire WaitLock) (
     wait_loop p addr))"

text \<open>One pass of the scheduler over the table; \<^verbatim>\<open>swtch\<close> runs the chosen process.\<close>

definition sched_pass :: "nat \<Rightarrow> ('z proc_state_scheme, unit) K" where
  "sched_pass c =
     forK [0..<NPROC] (\<lambda>p.
       thn (acquire (ProcLock p)) (
       bnd (gets (\<lambda>s. p_state (procs s p))) (\<lambda>st.
       thn (whenK (st = RUNNABLE)
              (thn (upd_proc p (\<lambda>pr. pr\<lparr>p_state := RUNNING\<rparr>)) (
               thn (upd_cpu c (\<lambda>cp. cp\<lparr>cproc := Some p\<rparr>)) (
               thn (interfere AtSwtch) (
               upd_cpu c (\<lambda>cp. cp\<lparr>cproc := None\<rparr>)))))) (
       release (ProcLock p)))))"

partial_function (option) sched_loop ::
  "nat \<Rightarrow> (lockid, 'z proc_state_scheme) env \<Rightarrow> 'z proc_state_scheme \<Rightarrow>
     ('z proc_state_scheme, unit) outcome option" where
  "sched_loop c E s = thn intr_on (thn (sched_pass c) (sched_loop c)) E s"

definition scheduler :: "('z proc_state_scheme, unit) K" where
  "scheduler =
     bnd mycpu (\<lambda>c.
     thn (upd_cpu c (\<lambda>cp. cp\<lparr>cproc := None\<rparr>)) (
     sched_loop c))"

section \<open>Copying to or from user or kernel memory\<close>

text \<open>
  A source is a user address or a kernel buffer. Data for a kernel destination is returned
  to the caller.
\<close>

datatype source = UserSrc uint64 | KernSrc "uint8 list"

fun src_advance :: "source \<Rightarrow> nat \<Rightarrow> source" where
  "src_advance (UserSrc a) n = UserSrc (a + of_nat n)"
| "src_advance (KernSrc bs) n = KernSrc (drop n bs)"

definition either_copyout :: "bool \<Rightarrow> uint64 \<Rightarrow> uint8 list \<Rightarrow> ('z proc_state_scheme, int \<times> uint8 list) K" where
  "either_copyout user_dst dst src =
     bnd myproc (\<lambda>me.
     if user_dst
     then bnd (deref me) (\<lambda>p.
          bnd (gets (\<lambda>s. p_pagetable (procs s p))) (\<lambda>pt.
          bnd (copyout pt dst src) (\<lambda>r. ret (r, []))))
     else ret (0, src))"

definition either_copyin :: "source \<Rightarrow> nat \<Rightarrow> ('z proc_state_scheme, int \<times> uint8 list) K" where
  "either_copyin src len =
     bnd myproc (\<lambda>me.
     case src of
       UserSrc a \<Rightarrow>
         bnd (deref me) (\<lambda>p.
         bnd (gets (\<lambda>s. p_pagetable (procs s p))) (\<lambda>pt.
         copyin pt a len))
     | KernSrc bs \<Rightarrow> ret (0, take len bs))"

section \<open>Processes up to lock statistics\<close>

lemma cproc_acquired [simp]: "cproc (cpus (acquired l s) c) = cproc (cpus s c)"
  by (simp add: lockfx)

lemma ends_myproc [kends]: "cpu_room 1 s \<Longrightarrow> Q (cproc (cpus s (tp s))) s \<Longrightarrow> ends E s myproc Q"
  unfolding ends_def
proof (intro allI impI)
  fix t
  assume ok: "cpu_room 1 s" and Q: "Q (cproc (cpus s (tp s))) s" and t: "lk_eq s t"
  have ok': "cpu_room 1 t" using t ok by (rule lk_eq_cpu_ok)
  have "lk_eq s (popped (pushed t))"
    using lk_eq_trans [OF t lk_eq_popped_pushed [OF ok']] .
  moreover have "cproc (cpus (pushed t) (tp t)) = cproc (cpus s (tp s))"
    using t by (simp add: pushed_def lk_fields)
  ultimately show "returns E t myproc (\<lambda>a u. \<exists>s'. lk_eq s' u \<and> Q a s')"
    using Q by (auto simp: myproc_def kwp returns_pop_pushed [OF ok'])
qed

lemma lk_eq_kmem [lk_fields]:
  assumes "lk_eq s t"
  shows "ram t = ram s"
    "kend t = kend s"
    "freelist t = freelist s"
    "kernel_pagetable t = kernel_pagetable s"
  using assms by (cases s; cases t; simp add: lk_eq_def)+

lemma kmem_acquired [simp]:
  "ram (acquired l s) = ram s"
    "kend (acquired l s) = kend s"
    "freelist (acquired l s) = freelist s"
    "kernel_pagetable (acquired l s) = kernel_pagetable s"
    "(acquired l s)\<lparr>ram := x0\<rparr> = acquired l (s\<lparr>ram := x0\<rparr>)"
    "(acquired l s)\<lparr>kend := x1\<rparr> = acquired l (s\<lparr>kend := x1\<rparr>)"
    "(acquired l s)\<lparr>freelist := x2\<rparr> = acquired l (s\<lparr>freelist := x2\<rparr>)"
    "(acquired l s)\<lparr>kernel_pagetable := x3\<rparr> = acquired l (s\<lparr>kernel_pagetable := x3\<rparr>)"
  by (simp_all add: lockfx intr_enabled_def)

lemma lk_eq_kmem_update [lk_fields]:
  assumes "lk_eq s t"
  shows "lk_eq (s\<lparr>ram := x0\<rparr>) (t\<lparr>ram := x0\<rparr>)"
    "lk_eq (s\<lparr>kend := x1\<rparr>) (t\<lparr>kend := x1\<rparr>)"
    "lk_eq (s\<lparr>freelist := x2\<rparr>) (t\<lparr>freelist := x2\<rparr>)"
    "lk_eq (s\<lparr>kernel_pagetable := x3\<rparr>) (t\<lparr>kernel_pagetable := x3\<rparr>)"
  using assms by (cases s; cases t; auto simp: lk_eq_def lk_same_def)+

lemma kmem_cpu_ok [simp]:
  "cpu_room n (s\<lparr>ram := x0\<rparr>) = cpu_room n s"
    "cpu_room n (s\<lparr>kend := x1\<rparr>) = cpu_room n s"
    "cpu_room n (s\<lparr>freelist := x2\<rparr>) = cpu_room n s"
    "cpu_room n (s\<lparr>kernel_pagetable := x3\<rparr>) = cpu_room n s"
  by (simp_all add: cpu_room_def intr_enabled_def)

lemma lk_eq_proc [lk_fields]:
  assumes "lk_eq s t"
  shows "procs t = procs s"
    "nextpid t = nextpid s"
    "initproc t = initproc s"
    "syms t = syms s"
    "ticks t = ticks s"
    "forkret_first t = forkret_first s"
  using assms by (cases s; cases t; simp add: lk_eq_def)+

lemma proc_acquired [simp]:
  "procs (acquired l s) = procs s"
    "nextpid (acquired l s) = nextpid s"
    "initproc (acquired l s) = initproc s"
    "syms (acquired l s) = syms s"
    "ticks (acquired l s) = ticks s"
    "forkret_first (acquired l s) = forkret_first s"
    "(acquired l s)\<lparr>procs := x0\<rparr> = acquired l (s\<lparr>procs := x0\<rparr>)"
    "(acquired l s)\<lparr>nextpid := x1\<rparr> = acquired l (s\<lparr>nextpid := x1\<rparr>)"
    "(acquired l s)\<lparr>initproc := x2\<rparr> = acquired l (s\<lparr>initproc := x2\<rparr>)"
    "(acquired l s)\<lparr>syms := x3\<rparr> = acquired l (s\<lparr>syms := x3\<rparr>)"
    "(acquired l s)\<lparr>ticks := x4\<rparr> = acquired l (s\<lparr>ticks := x4\<rparr>)"
    "(acquired l s)\<lparr>forkret_first := x5\<rparr> = acquired l (s\<lparr>forkret_first := x5\<rparr>)"
  by (simp_all add: lockfx intr_enabled_def)

lemma lk_eq_proc_update [lk_fields]:
  assumes "lk_eq s t"
  shows "lk_eq (s\<lparr>procs := x0\<rparr>) (t\<lparr>procs := x0\<rparr>)"
    "lk_eq (s\<lparr>nextpid := x1\<rparr>) (t\<lparr>nextpid := x1\<rparr>)"
    "lk_eq (s\<lparr>initproc := x2\<rparr>) (t\<lparr>initproc := x2\<rparr>)"
    "lk_eq (s\<lparr>syms := x3\<rparr>) (t\<lparr>syms := x3\<rparr>)"
    "lk_eq (s\<lparr>ticks := x4\<rparr>) (t\<lparr>ticks := x4\<rparr>)"
    "lk_eq (s\<lparr>forkret_first := x5\<rparr>) (t\<lparr>forkret_first := x5\<rparr>)"
  using assms by (cases s; cases t; auto simp: lk_eq_def lk_same_def)+

lemma proc_cpu_ok [simp]:
  "cpu_room n (s\<lparr>procs := x0\<rparr>) = cpu_room n s"
    "cpu_room n (s\<lparr>nextpid := x1\<rparr>) = cpu_room n s"
    "cpu_room n (s\<lparr>initproc := x2\<rparr>) = cpu_room n s"
    "cpu_room n (s\<lparr>syms := x3\<rparr>) = cpu_room n s"
    "cpu_room n (s\<lparr>ticks := x4\<rparr>) = cpu_room n s"
    "cpu_room n (s\<lparr>forkret_first := x5\<rparr>) = cpu_room n s"
  by (simp_all add: cpu_room_def intr_enabled_def)

lemma ends_upd_proc [kends]:
  "Q () (s\<lparr>procs := (procs s)(p := f (procs s p))\<rparr>) \<Longrightarrow> ends E s (upd_proc p f) Q"
  unfolding upd_proc_def by (rule ends_modify) (simp_all add: lk_fields)

text \<open>The table after \<^verbatim>\<open>wakeup\<close> has looked at the first \<open>n\<close> processes.\<close>

definition wake :: "chan option \<Rightarrow> nat option \<Rightarrow> nat \<Rightarrow> (nat \<Rightarrow> proc) \<Rightarrow> nat \<Rightarrow> proc" where
  "wake ch me n ps p =
     (if p < n \<and> me \<noteq> Some p \<and> p_state (ps p) = SLEEPING \<and> p_chan (ps p) = ch
      then (ps p)\<lparr>p_state := RUNNABLE\<rparr> else ps p)"

lemma wake_0 [simp]: "wake ch me 0 ps = ps"
  by (simp add: wake_def fun_eq_iff)

lemma wake_at [simp]: "wake ch me i ps i = ps i"
  by (simp add: wake_def)

lemma wake_Suc:
  "me \<noteq> Some i \<Longrightarrow> p_state (ps i) = SLEEPING \<Longrightarrow> p_chan (ps i) = ch \<Longrightarrow>
     wake ch me (Suc i) ps = (wake ch me i ps)(i := (ps i)\<lparr>p_state := RUNNABLE\<rparr>)"
  "\<not> (p_state (ps i) = SLEEPING \<and> p_chan (ps i) = ch) \<Longrightarrow> wake ch me (Suc i) ps = wake ch me i ps"
  "me = Some i \<Longrightarrow> wake ch me (Suc i) ps = wake ch me i ps"
  by (auto simp: wake_def fun_eq_iff less_Suc_eq)

lemma ends_wakeup [kends]:
  assumes "uncontended E" "cpu_room 1 s"
    and free: "\<And>p. p < NPROC \<Longrightarrow> cproc (cpus s (tp s)) \<noteq> Some p \<Longrightarrow> locked (locks s (ProcLock p)) = 0"
    and Q: "Q () (s\<lparr>procs := wake ch (cproc (cpus s (tp s))) NPROC (procs s)\<rparr>)"
  shows "ends E s (wakeup ch) Q"
  unfolding wakeup_def
proof (rule ends_mono [OF ends_forK_upt
    [where I = "\<lambda>i t. t = s\<lparr>procs := wake ch (cproc (cpus s (tp s))) i (procs s)\<rparr>"]])
  fix i t
  assume i: "i < NPROC" and t: "t = s\<lparr>procs := wake ch (cproc (cpus s (tp s))) i (procs s)\<rparr>"
  show "ends E t (bnd myproc (\<lambda>me. whenK (me \<noteq> Some i) (thn (acquire (ProcLock i)) (
      bnd (gets (\<lambda>s. procs s i)) (\<lambda>pr.
      thn (whenK (p_state pr = SLEEPING \<and> p_chan pr = ch) (upd_proc i (\<lambda>pr. pr\<lparr>p_state := RUNNABLE\<rparr>)))
       (release (ProcLock i)))))))
     (\<lambda>_ t. t = s\<lparr>procs := wake ch (cproc (cpus s (tp s))) (Suc i) (procs s)\<rparr>)"
    unfolding t
    using assms(1,2) free i
    by (intro kends; clarsimp simp: wake_Suc lk_fields)+
qed (use Q in simp_all)


lemma ends_deref [kends]: "Q x s \<Longrightarrow> ends E s (deref (Some x)) Q"
  by (simp add: deref_def ends_ret)

lemma ends_curproc [kends]:
  "cpu_room 1 s \<Longrightarrow> cproc (cpus s (tp s)) \<noteq> None \<Longrightarrow> Q (the (cproc (cpus s (tp s)))) s \<Longrightarrow>
     ends E s curproc Q"
  unfolding curproc_def by (intro kends) (auto simp: kends)

lemma ends_nextpid [kends]:
  "Q () (s\<lparr>nextpid := g (nextpid s)\<rparr>) \<Longrightarrow> ends E s (modify (\<lambda>s. s\<lparr>nextpid := g (nextpid s)\<rparr>)) Q"
  by (rule ends_modify) (simp_all add: lk_fields)

lemma ends_allocpid [kends]:
  assumes "uncontended E" "cpu_room 1 s" "locked (locks s PidLock) = 0"
    and "Q (nextpid s) (s\<lparr>nextpid := nextpid s + 1\<rparr>)"
  shows "ends E s allocpid Q"
  unfolding allocpid_def using assms
  by (intro kends; clarsimp simp: lk_fields)+

text \<open>What \<^verbatim>\<open>kill\<close> does to the process it finds.\<close>

definition killed :: "proc \<Rightarrow> proc" where
  "killed pr = pr\<lparr>p_killed := True, p_state := (if p_state pr = SLEEPING then RUNNABLE else p_state pr)\<rparr>"

lemma ends_kill:
  assumes "uncontended E" "cpu_room 1 s" "\<And>p. p < NPROC \<Longrightarrow> locked (locks s (ProcLock p)) = 0"
    and hit: "\<And>p. p < NPROC \<Longrightarrow> p_pid (procs s p) = pid \<Longrightarrow> (\<And>q. q < p \<Longrightarrow> p_pid (procs s q) \<noteq> pid) \<Longrightarrow>
      Q 0 (s\<lparr>procs := (procs s)(p := killed (procs s p))\<rparr>)"
    and miss: "(\<And>q. q < NPROC \<Longrightarrow> p_pid (procs s q) \<noteq> pid) \<Longrightarrow> Q (- 1) s"
  shows "ends E s (kill pid) Q"
  unfolding kill_def
proof (intro ends_bnd ends_findK_upt [where I = "\<lambda>i t. t = s \<and> (\<forall>q < i. p_pid (procs s q) \<noteq> pid)"])
  fix i t
  assume i: "i < NPROC" and t: "t = s \<and> (\<forall>q < i. p_pid (procs s q) \<noteq> pid)"
  show "ends E t (thn (acquire (ProcLock i)) (
       bnd (gets (\<lambda>s. p_pid (procs s i))) (\<lambda>q.
       if q = pid
       then thn (upd_proc i (\<lambda>pr. pr\<lparr>p_killed := True\<rparr>)) (
            bnd (gets (\<lambda>s. p_state (procs s i))) (\<lambda>st.
            thn (whenK (st = SLEEPING) (upd_proc i (\<lambda>pr. pr\<lparr>p_state := RUNNABLE\<rparr>))) (
            thn (release (ProcLock i)) (
            ret (Some ())))))
       else thn (release (ProcLock i)) (ret None)))) (\<lambda>r u. case r of
         None \<Rightarrow> u = s \<and> (\<forall>q < Suc i. p_pid (procs s q) \<noteq> pid)
       | Some a \<Rightarrow> ends E u (ret (case Some a of None \<Rightarrow> - 1 | Some _ \<Rightarrow> 0)) Q)"
    using assms(1-3) i t hit [OF i]
    by (intro kends ends_if; clarsimp simp: lk_fields killed_def)+ (auto simp: less_Suc_eq)
qed (use miss in \<open>auto intro: ends_ret\<close>)


text \<open>Process \<open>p\<close> runs in the kernel, nobody competes for locks, and no lock is taken.\<close>

definition alone :: "(lockid, 'z proc_state_scheme) env \<Rightarrow> 'z proc_state_scheme \<Rightarrow> nat \<Rightarrow> bool" where
  "alone E s p \<longleftrightarrow> uncontended E \<and> cpu_ok s \<and> cproc (cpus s (tp s)) = Some p
     \<and> (\<forall>l. locked (locks s l) = 0)"

section \<open>Properties\<close>

text \<open>
  Process 0 runs on CPU 0, process 1 sleeps on the clock, the other slots are unused; for the
  examples.
\<close>

definition zero_proc :: proc where
  "zero_proc = \<lparr>p_state = UNUSED, p_chan = None, p_killed = False, p_xstate = 0, p_pid = 0,
     p_parent = None, p_kstack = 0, p_sz = 0, p_pagetable = 0, p_trapframe = 0,
     p_context = \<lparr>ctx_ra = 0, ctx_sp = 0\<rparr>, p_ofile = (\<lambda>_. None), p_cwd = None, p_name = (\<lambda>_. 0)\<rparr>"

definition two_procs :: proc_state where
  "two_procs = \<lparr>tp = 0, csr = (\<lambda>_. zero_csrs), cpus = (\<lambda>_. zero_cpu\<lparr>cproc := Some 0\<rparr>),
     locks = (\<lambda>_. zero_lock), locktab = (\<lambda>_. None), ram = (\<lambda>_. 0), kend = 0x80020000,
     freelist = (\<lambda>_. 0), kernel_pagetable = 0,
     procs = (\<lambda>_. zero_proc)(0 := zero_proc\<lparr>p_state := RUNNING, p_pid := 1\<rparr>,
       1 := zero_proc\<lparr>p_state := SLEEPING, p_chan := Some ChTicks, p_pid := 2\<rparr>),
     nextpid = 3, initproc = Some 0,
     syms = \<lparr>sym_etext = 0, sym_trampoline = 0, sym_uservec = 0, sym_userret = 0,
       sym_kernelvec = 0, sym_usertrap = 0, sym_forkret = 0\<rparr>,
     ticks = 0, forkret_first = True\<rparr>"

lemma two_procs_ok:
  "cpu_ok two_procs" "locked (locks two_procs l) = 0" "uncontended (\<lambda>_ s. Some s)"
  by (simp_all add: two_procs_def cpu_room_def zero_defs uncontended_def)

text \<open>C18. \<^verbatim>\<open>wakeup\<close> makes runnable exactly the processes, other than the caller, that sleep on
  the channel; no other process and nothing else changes, and every lock is free again.\<close>

theorem wakeup_wakes_sleepers:
  assumes "uncontended E" "cpu_room 1 s" "cproc (cpus s (tp s)) = me"
    and "\<And>p. p < NPROC \<Longrightarrow> me \<noteq> Some p \<Longrightarrow> locked (locks s (ProcLock p)) = 0"
  shows "returns E s (wakeup ch) (\<lambda>_ t. lk_eq (s\<lparr>procs := procs t\<rparr>) t \<and>
    (\<forall>p. procs t p =
       (if p < NPROC \<and> me \<noteq> Some p \<and> p_state (procs s p) = SLEEPING \<and> p_chan (procs s p) = ch
        then (procs s p)\<lparr>p_state := RUNNABLE\<rparr> else procs s p)))"
  by (rule returns_mono [OF ends_returns [OF ends_wakeup
        [where Q = "\<lambda>_ t. t = s\<lparr>procs := wake ch me NPROC (procs s)\<rparr>"]]])
    (use assms in \<open>auto simp: lk_fields wake_def\<close>)

theorem wakeup_wakes_sleepers_witness:
  "returns (\<lambda>_ s. Some s) two_procs (wakeup (Some ChTicks)) (\<lambda>_ t. p_state (procs t 1) = RUNNABLE)"
  by (rule returns_mono [OF wakeup_wakes_sleepers [where me = "Some 0"]])
    (simp_all add: two_procs_ok, simp_all add: two_procs_def zero_proc_def)

text \<open>C19. \<^verbatim>\<open>kill\<close> marks the first process with the pid as killed, makes it runnable if it
  sleeps, and returns 0; without such a process it returns -1 and changes nothing.\<close>

theorem kill_marks_process:
  assumes "uncontended E" "cpu_room 1 s" "\<And>p. p < NPROC \<Longrightarrow> locked (locks s (ProcLock p)) = 0"
  shows "returns E s (kill pid) (\<lambda>r t. case find (\<lambda>p. p_pid (procs s p) = pid) [0..<NPROC] of
      None \<Rightarrow> r = - 1 \<and> lk_eq s t
    | Some p \<Rightarrow> r = 0 \<and> lk_eq (s\<lparr>procs := procs t\<rparr>) t
        \<and> procs t = (procs s)(p := (procs s p)\<lparr>p_killed := True,
            p_state := (if p_state (procs s p) = SLEEPING then RUNNABLE else p_state (procs s p))\<rparr>))"
proof -
  let ?f = "find (\<lambda>p. p_pid (procs s p) = pid) [0..<NPROC]"
  have "?f = Some p" if "p < NPROC" "p_pid (procs s p) = pid" "\<And>q. q < p \<Longrightarrow> p_pid (procs s q) \<noteq> pid" for p
    using that by (auto simp: find_Some_iff)
  moreover have "?f = None" if "\<And>q. q < NPROC \<Longrightarrow> p_pid (procs s q) \<noteq> pid"
    using that by (auto simp: find_None_iff)
  ultimately have "ends E s (kill pid) (\<lambda>r t. case ?f of None \<Rightarrow> r = - 1 \<and> t = s
      | Some p \<Rightarrow> r = 0 \<and> t = s\<lparr>procs := (procs s)(p := killed (procs s p))\<rparr>)"
    by (intro ends_kill [OF assms]) simp_all
  then show ?thesis
    by (rule returns_mono [OF ends_returns]) (auto simp: lk_fields killed_def split: option.splits)
qed

theorem kill_marks_process_witness:
  "returns (\<lambda>_ s. Some s) two_procs (kill 2) (\<lambda>r t. r = 0 \<and> p_killed (procs t 1) \<and> p_state (procs t 1) = RUNNABLE)"
proof -
  have "find (\<lambda>p. p_pid (procs two_procs p) = 2) [0..<NPROC] = Some 1"
    by (auto simp: find_Some_iff two_procs_def zero_proc_def intro!: exI [of _ 1])
  then show ?thesis
    by (intro returns_mono [OF kill_marks_process])
      (simp_all add: two_procs_ok, simp_all add: two_procs_def)
qed

section \<open>Switching threads\<close>

text \<open>
  The environment's part of a switch: from the state in which process \<open>p\<close> holds its own lock
  and nothing else, it eventually resumes \<open>p\<close>, with its lock held again, in the state \<open>r\<close>
  (\<^verbatim>\<open>intena\<close> is then still the scheduler's; \<^verbatim>\<open>sched\<close> restores it).
\<close>

definition with_intena :: "bool \<Rightarrow> 'z machine_scheme \<Rightarrow> 'z machine_scheme" where
  "with_intena b u = u\<lparr>cpus := (cpus u)(tp u := (cpus u (tp u))\<lparr>intena := b\<rparr>)\<rparr>"

definition resumes :: "(lockid, 'z proc_state_scheme) env \<Rightarrow> nat \<Rightarrow> 'z proc_state_scheme \<Rightarrow> 'z proc_state_scheme \<Rightarrow> bool" where
  "resumes E p s r \<longleftrightarrow>
     (\<forall>t. lk_eq (acquired (ProcLock p) s) t \<longrightarrow>
        (\<exists>u. E AtSwtch t = Some u \<and> lk_eq (acquired (ProcLock p) r) (with_intena (intr_enabled s) u)))"

lemma holding_wp [kwp]: "returns E s (holding l) Q = Q (held s l) s"
  by (simp add: returns_def holding_eq)

lemma intr_get_wp [kwp]: "returns E s intr_get Q = Q (intr_enabled s) s"
  by (simp add: returns_def kdefs intr_enabled_def)

lemma cpu_room_0: "noff (cpus s (tp s)) = 0 \<Longrightarrow> n < 2 ^ 31 \<Longrightarrow> cpu_room n s"
  by (simp add: cpu_room_def)

lemma ends_sched [kends]:
  assumes cpu: "noff (cpus s (tp s)) = 0" and p: "cproc (cpus s (tp s)) = Some p"
    and st: "p_state (procs s p) \<noteq> RUNNING" and r: "resumes E p s r"
    and Q: "Q () (acquired (ProcLock p) r)"
  shows "ends E (acquired (ProcLock p) s) sched Q"
  unfolding sched_def
proof (rule ends_bnd, rule ends_curproc, goal_cases)
  case 3
  show ?case
  proof (unfold ends_def [of E "acquired (ProcLock p) s"], intro allI impI, goal_cases)
    case (1 t)
    obtain u where u: "E AtSwtch t = Some u" "lk_eq (acquired (ProcLock p) r) (with_intena (intr_enabled s) u)"
      using r 1 by (auto simp: resumes_def)
    have "tp t = tp s" "held t (ProcLock p)" "noff (cpus t (tp s)) = 1"
      "p_state (procs t p) \<noteq> RUNNING" "\<not> intr_enabled t"
      using 1 cpu p st by (simp_all add: lk_fields)
    moreover have "intena (cpus t (tp s)) = intr_enabled s"
      using 1 cpu by (simp add: lk_eq_def lk_same_def acquired_def pushed_def)
    ultimately show ?case
      using u Q p by (auto simp: kwp upd_cpu_def with_intena_def)
  qed
qed (use cpu p in \<open>simp_all add: cpu_ok_acquired cpu_room_0\<close>)

definition asleep :: "nat \<Rightarrow> chan \<Rightarrow> 'z proc_state_scheme \<Rightarrow> 'z proc_state_scheme" where
  "asleep p ch s = s\<lparr>procs := (procs s)(p := (procs s p)\<lparr>p_chan := Some ch, p_state := SLEEPING\<rparr>)\<rparr>"

definition awake :: "nat \<Rightarrow> 'z proc_state_scheme \<Rightarrow> 'z proc_state_scheme" where
  "awake p s = s\<lparr>procs := (procs s)(p := (procs s p)\<lparr>p_chan := None\<rparr>)\<rparr>"

lemma asleep_simps [simp]:
  "tp (asleep p ch s) = tp s" "cpus (asleep p ch s) = cpus s" "csr (asleep p ch s) = csr s"
  "locks (asleep p ch s) = locks s" "cpu_room n (asleep p ch s) = cpu_room n s"
  "intr_enabled (asleep p ch s) = intr_enabled s" "p_state (procs (asleep p ch s) p) = SLEEPING"
  by (simp_all add: asleep_def intr_enabled_def)

lemma awake_simps [simp]:
  "tp (awake p s) = tp s" "cpus (awake p s) = cpus s" "csr (awake p s) = csr s" "locks (awake p s) = locks s"
  "cpu_room n (awake p s) = cpu_room n s" "intr_enabled (awake p s) = intr_enabled s"
  by (simp_all add: awake_def intr_enabled_def)

text \<open>
  \<^verbatim>\<open>sleep\<close> waits for the process's own lock with \<open>lk\<close> still held, and gives up \<open>lk\<close> only then; the rest of the machine
  next gets to run with the process marked as sleeping. When it is resumed it takes \<open>lk\<close> again.
\<close>

lemma ends_sleep:
  assumes cpu: "noff (cpus x (tp x)) = 0" "cproc (cpus x (tp x)) = Some p" "cproc (cpus s (tp s)) = Some p" "cpu_room 2 s"
    and lk: "lk \<noteq> ProcLock p" "locked (locks x lk) = 0" "locked (locks x (ProcLock p)) = 0" "\<not> held s (ProcLock p)"
    and own: "waiting E (ProcLock p) (acquired lk s) (acquired lk x)"
    and r: "resumes E p (asleep p ch x) r" "cpu_room 1 r" "locked (locks r (ProcLock p)) = 0" "\<not> held r lk"
    and again: "waiting E lk (awake p r) y" "locked (locks y lk) = 0"
    and Q: "Q () (acquired lk y)"
  shows "ends E (acquired lk s) (sleep ch lk) Q"
  unfolding sleep_def
proof (rule ends_bnd, rule ends_curproc, goal_cases)
  case 3
  let ?P = "ProcLock p"
  have ne: "?P \<noteq> lk" using lk(1) by simp
  have rel: "ends E (acquired ?P (acquired lk x)) (release lk) R" if "R () (acquired ?P x)" for R
    using that cpu lk ne
    by (intro ends_release [where s = "acquired ?P x"]) (auto simp: acquired_commute cpu_ok_acquired cpu_room_0)
  have acq: "ends E (awake p r) (acquire lk) Q"
    using r(4) again Q by (intro ends_acquire_waiting) (simp_all add: held_def)
  have woken: "ends E (acquired ?P r) (thn (upd_proc p (\<lambda>pr. pr\<lparr>p_chan := None\<rparr>)) (
      thn (release ?P) (acquire lk))) Q"
    by (intro ends_thn ends_upd_proc, simp add: awake_def [symmetric])
      (use r acq in \<open>intro ends_release_same, simp_all\<close>)
  have slept: "ends E (acquired ?P (asleep p ch x)) sched R" if "R () (acquired ?P r)" for R
    using that cpu r by (intro ends_sched [where r = r]) simp_all
  have own': "ends E (acquired lk s) (acquire ?P) R" if "R () (acquired ?P (acquired lk x))" for R
    using that lk ne by (intro ends_acquire_waiting [OF _ own]) simp_all
  have me: "the (cproc (cpus (acquired lk s) (tp (acquired lk s)))) = p" using cpu(3) by simp
  show ?case
    unfolding me by (intro ends_thn own' rel ends_upd_proc, simp add: asleep_def [symmetric])
      (intro slept woken)
qed (use assms in \<open>simp_all add: cpu_ok_acquired\<close>)

lemma with_intena_same:
  assumes "lk_eq (acquired l s) t" "noff (cpus s (tp s)) = 0"
  shows "lk_eq (acquired l s) (with_intena (intr_enabled s) t)"
  using assms by (auto simp: lk_eq_def lk_same_def with_intena_def acquired_def pushed_def)

lemma resumes_map:
  assumes "\<And>t. E AtSwtch t = Some (f t)" "\<And>t u. lk_eq t u \<Longrightarrow> lk_eq (f t) (f u)"
    and "\<And>t. f (acquired (ProcLock p) t) = acquired (ProcLock p) (f t)" "\<And>b t. with_intena b (f t) = f (with_intena b t)"
    and "noff (cpus x (tp x)) = 0"
  shows "resumes E p x (f x)"
  unfolding resumes_def using with_intena_same [OF _ assms(5)] assms(1-4) by metis

text \<open>Process \<open>p\<close> runs outside any \<^verbatim>\<open>push_off\<close>, and neither \<open>lk\<close> nor its own lock is taken.\<close>

definition quiet :: "nat \<Rightarrow> lockid \<Rightarrow> 'z proc_state_scheme \<Rightarrow> bool" where
  "quiet p lk x \<longleftrightarrow> noff (cpus x (tp x)) = 0 \<and> cproc (cpus x (tp x)) = Some p
     \<and> locked (locks x lk) = 0 \<and> locked (locks x (ProcLock p)) = 0"

text \<open>C20. \<^verbatim>\<open>sleep\<close>, called with \<open>lk\<close> held, beside other threads that keep the protocol: data \<open>D\<close> that \<open>lk\<close>
  protects (the condition the caller waits for) they change only when the caller does not hold \<open>lk\<close>. They run
  while the caller waits for its process's lock, and there \<open>lk\<close> is still held. The next time they run, the
  caller is switched out: it is marked as sleeping on the channel, \<open>lk\<close> is free, only its process's lock is
  held, and \<open>D\<close> is still what it was at the call; so whoever changes \<open>D\<close> and then calls \<^verbatim>\<open>wakeup\<close> comes later
  and finds the process asleep. If the others then resume it, and let it have \<open>lk\<close> again in a state \<open>y\<close>, the
  call returns in that state with \<open>lk\<close> held, and it does not panic.\<close>

theorem sleep_hands_over_lock:
  assumes "noff (cpus s (tp s)) = 0" "cproc (cpus s (tp s)) = Some p" "lk \<noteq> ProcLock p" "\<not> held s (ProcLock p)"
    and others: "\<exists>x. waiting E (ProcLock p) (acquired lk s) (acquired lk x) \<and> quiet p lk x \<and> D x = D s"
    and switch: "\<And>x. quiet p lk x \<Longrightarrow> D x = D s \<Longrightarrow>
      \<exists>r y. resumes E p (asleep p ch x) r \<and> cpu_room 1 r \<and> locked (locks r (ProcLock p)) = 0 \<and> \<not> held r lk
        \<and> waiting E lk (awake p r) y \<and> locked (locks y lk) = 0 \<and> R y"
  shows "returns E (acquired lk s) (sleep ch lk) (\<lambda>_ t. held t lk \<and> (\<exists>y. R y \<and> lk_eq (acquired lk y) t))"
proof -
  obtain x where x: "waiting E (ProcLock p) (acquired lk s) (acquired lk x)" "quiet p lk x" "D x = D s"
    using others by blast
  obtain r y where r: "resumes E p (asleep p ch x) r" "cpu_room 1 r" "locked (locks r (ProcLock p)) = 0" "\<not> held r lk"
    "waiting E lk (awake p r) y" "locked (locks y lk) = 0" "R y"
    using switch [OF x(2,3)] by blast
  have "ends E (acquired lk s) (sleep ch lk) (\<lambda>_ t. t = acquired lk y)"
    using assms(1-4) x(1,2) r by (intro ends_sleep [where x = x and r = r and y = y and p = p])
      (auto simp: quiet_def cpu_room_0)
  then show ?thesis by (rule returns_mono [OF ends_returns]) (use r(7) in \<open>auto simp: lk_fields\<close>)
qed

text \<open>Here the process is woken up and scheduled again at once; the lock protects the count of clock ticks.\<close>

definition run_again :: "proc_state \<Rightarrow> proc_state" where
  "run_again s = s\<lparr>procs := (procs s)(0 := (procs s 0)\<lparr>p_state := RUNNING\<rparr>)\<rparr>"

lemma run_again_resumes:
  assumes "noff (cpus x (tp x)) = 0"
  shows "resumes (\<lambda>e s. Some (if e = AtSwtch then run_again s else s)) 0 x (run_again x)"
  using assms by (intro resumes_map) (simp_all add: run_again_def with_intena_def lk_fields)

theorem sleep_hands_over_lock_witness:
  "returns (\<lambda>e s. Some (if e = AtSwtch then run_again s else s)) (acquired TicksLock two_procs)
     (sleep ChTicks TicksLock) (\<lambda>_ t. held t TicksLock \<and> p_state (procs t 0) = RUNNING \<and> ticks t = 0)"
    (is "returns ?E _ _ _")
proof -
  have u: "waiting ?E l z z" for l and z :: proc_state
    by (rule uncontended_waiting) (simp add: uncontended_def)
  have "\<exists>r y. resumes ?E 0 (asleep 0 ChTicks x) r \<and> cpu_room 1 r \<and> locked (locks r (ProcLock 0)) = 0 \<and> \<not> held r TicksLock
      \<and> waiting ?E TicksLock (awake 0 r) y \<and> locked (locks y TicksLock) = 0 \<and> p_state (procs y 0) = RUNNING \<and> ticks y = 0"
    if x: "quiet 0 TicksLock x" "ticks x = ticks two_procs" for x
  proof (intro exI conjI)
    let ?r = "run_again (asleep 0 ChTicks x)"
    show "resumes ?E 0 (asleep 0 ChTicks x) ?r" by (rule run_again_resumes) (use x in \<open>simp add: quiet_def\<close>)
    show "waiting ?E TicksLock (awake 0 ?r) (awake 0 ?r)" by (rule u)
  qed (use x in \<open>simp_all add: quiet_def run_again_def cpu_room_0 held_def\<close>,
       simp_all add: awake_def asleep_def two_procs_def)
  moreover have "quiet 0 TicksLock two_procs" "\<not> held two_procs (ProcLock 0)"
    by (simp_all add: quiet_def held_def two_procs_def zero_defs)
  ultimately have "returns ?E (acquired TicksLock two_procs) (sleep ChTicks TicksLock)
      (\<lambda>_ t. held t TicksLock \<and> (\<exists>y. (p_state (procs y 0) = RUNNING \<and> ticks y = 0) \<and> lk_eq (acquired TicksLock y) t))"
    using u by (intro sleep_hands_over_lock [where p = 0 and D = ticks]) (auto simp: quiet_def)
  then show ?thesis by (rule returns_mono) (auto simp: lk_fields)
qed

end
