(* ===== verification/Sleeplock.thy ===== *)
theory Sleeplock
  imports Proc
begin

text \<open>
  Sleep locks, \<^verbatim>\<open>kernel/sleeplock.c\<close>: locks that a process keeps across disk operations.
  Each has a spin lock \<open>SleepSpin i\<close> that protects its fields and is its own sleep channel.
\<close>

section \<open>Operations\<close>

record sleeplock =
  sl_locked :: uint32
  sl_name :: string
  sl_pid :: uint32

record slk_state = proc_state +
  slks :: "sleepid \<Rightarrow> sleeplock"

definition upd_slk :: "sleepid \<Rightarrow> (sleeplock \<Rightarrow> sleeplock) \<Rightarrow> ('z slk_state_scheme, unit) K" where
  [kdefs]: "upd_slk i f = modify (\<lambda>s. s\<lparr>slks := (slks s)(i := f (slks s i))\<rparr>)"

definition initsleeplock :: "sleepid \<Rightarrow> string \<Rightarrow> ('z slk_state_scheme, unit) K" where
  "initsleeplock i name =
     thn (initlock (SleepSpin i) ''sleep lock'') (
     thn (upd_slk i (\<lambda>l. l\<lparr>sl_name := name\<rparr>)) (
     thn (upd_slk i (\<lambda>l. l\<lparr>sl_locked := 0\<rparr>)) (
     upd_slk i (\<lambda>l. l\<lparr>sl_pid := 0\<rparr>))))"

partial_function (option) sleep_while_locked ::
  "sleepid \<Rightarrow> (lockid, 'z slk_state_scheme) env \<Rightarrow> 'z slk_state_scheme \<Rightarrow>
     ('z slk_state_scheme, unit) outcome option" where
  "sleep_while_locked i E s =
     bnd (gets (\<lambda>s. sl_locked (slks s i))) (\<lambda>l.
     if l \<noteq> 0
     then thn (sleep (ChSleep i) (SleepSpin i)) (sleep_while_locked i)
     else ret ()) E s"

definition acquiresleep :: "sleepid \<Rightarrow> ('z slk_state_scheme, unit) K" where
  "acquiresleep i =
     thn (acquire (SleepSpin i)) (
     thn (sleep_while_locked i) (
     thn (upd_slk i (\<lambda>l. l\<lparr>sl_locked := 1\<rparr>)) (
     bnd curproc (\<lambda>p.
     bnd (gets (\<lambda>s. p_pid (procs s p))) (\<lambda>pid.
     thn (upd_slk i (\<lambda>l. l\<lparr>sl_pid := pid\<rparr>)) (
     release (SleepSpin i)))))))"

definition releasesleep :: "sleepid \<Rightarrow> ('z slk_state_scheme, unit) K" where
  "releasesleep i =
     thn (acquire (SleepSpin i)) (
     thn (upd_slk i (\<lambda>l. l\<lparr>sl_locked := 0\<rparr>)) (
     thn (upd_slk i (\<lambda>l. l\<lparr>sl_pid := 0\<rparr>)) (
     thn (wakeup (Some (ChSleep i))) (
     release (SleepSpin i)))))"

definition holdingsleep :: "sleepid \<Rightarrow> ('z slk_state_scheme, bool) K" where
  "holdingsleep i =
     thn (acquire (SleepSpin i)) (
     bnd (gets (\<lambda>s. slks s i)) (\<lambda>l.
     bnd (if sl_locked l \<noteq> 0
          then bnd curproc (\<lambda>p. gets (\<lambda>s. sl_pid l = p_pid (procs s p)))
          else ret False) (\<lambda>r.
     thn (release (SleepSpin i)) (
     ret r))))"

section \<open>Sleep locks up to lock statistics\<close>

lemma lk_eq_slk [lk_fields]:
  assumes "lk_eq s t"
  shows "slks t = slks s"
  using assms by (cases s; cases t; simp add: lk_eq_def)+

lemma slk_acquired [simp]:
  "slks (acquired l s) = slks s"
    "(acquired l s)\<lparr>slks := x0\<rparr> = acquired l (s\<lparr>slks := x0\<rparr>)"
  by (simp_all add: lockfx intr_enabled_def)

lemma lk_eq_slk_update [lk_fields]:
  assumes "lk_eq s t"
  shows "lk_eq (s\<lparr>slks := x0\<rparr>) (t\<lparr>slks := x0\<rparr>)"
  using assms by (cases s; cases t; auto simp: lk_eq_def lk_same_def)+

lemma slk_cpu_ok [simp]:
  "cpu_room n (s\<lparr>slks := x0\<rparr>) = cpu_room n s"
  by (simp_all add: cpu_room_def intr_enabled_def)

lemma ends_upd_slk [kends]:
  "Q () (s\<lparr>slks := (slks s)(i := f (slks s i))\<rparr>) \<Longrightarrow> ends E s (upd_slk i f) Q"
  unfolding upd_slk_def by (rule ends_modify) (simp_all add: lk_fields)

text \<open>The lock is free: nobody has to wait.\<close>

lemma ends_sleep_free:
  "sl_locked (slks s i) = 0 \<Longrightarrow> Q () s \<Longrightarrow> ends E s (sleep_while_locked i) Q"
  by (auto simp: ends_def returns_def sleep_while_locked.simps kdefs lk_fields)

text \<open>
  Process \<open>p\<close> runs outside any \<^verbatim>\<open>push_off\<close>; the spin lock of the sleep lock and the locks of the processes are free.
\<close>

definition slk_ready :: "nat \<Rightarrow> sleepid \<Rightarrow> 'z slk_state_scheme \<Rightarrow> bool" where
  "slk_ready p i s \<longleftrightarrow> noff (cpus s (tp s)) = 0 \<and> cproc (cpus s (tp s)) = Some p
     \<and> locked (locks s (SleepSpin i)) = 0 \<and> (\<forall>q. locked (locks s (ProcLock q)) = 0)"

text \<open>
  From \<open>s\<close> to \<open>t\<close>: as long as the sleep lock is taken, the process sleeps on it and the others run; \<open>t\<close> is the first
  state in which they resumed it with the lock free.
\<close>

inductive slk_wait ::
  "(lockid, 'z slk_state_scheme) env \<Rightarrow> nat \<Rightarrow> sleepid \<Rightarrow> 'z slk_state_scheme \<Rightarrow> 'z slk_state_scheme \<Rightarrow> bool"
  for E p i where
  now: "sl_locked (slks s i) = 0 \<Longrightarrow> slk_wait E p i s s"
| later: "sl_locked (slks s i) \<noteq> 0 \<Longrightarrow> resumes E p (asleep p (ChSleep i) s) r \<Longrightarrow> slk_ready p i r \<Longrightarrow>
    slk_wait E p i (awake p r) t \<Longrightarrow> slk_wait E p i s t"

lemma slk_ready_awake [simp]: "slk_ready p i (awake p s) = slk_ready p i s"
  by (simp add: slk_ready_def)

lemma slks_awake [simp]: "slks (awake p s) = slks s" "slks (asleep p ch s) = slks s"
  by (simp_all add: awake_def asleep_def)

lemma slk_wait_ready: "slk_wait E p i s t \<Longrightarrow> slk_ready p i s \<Longrightarrow> slk_ready p i t \<and> sl_locked (slks t i) = 0"
  by (induction rule: slk_wait.induct) simp_all

lemma ends_sleep_slk:
  assumes "uncontended E" "slk_ready p i s" "resumes E p (asleep p (ChSleep i) s) r" "slk_ready p i r"
    and "Q () (acquired (SleepSpin i) (awake p r))"
  shows "ends E (acquired (SleepSpin i) s) (sleep (ChSleep i) (SleepSpin i)) Q"
  using assms uncontended_waiting [OF assms(1)]
  by (intro ends_sleep [where x = s and r = r and y = "awake p r" and p = p])
    (simp_all add: slk_ready_def cpu_room_0 held_def)

lemma ends_sleep_taken:
  assumes "sl_locked (slks s i) \<noteq> 0" "ends E s (thn (sleep (ChSleep i) (SleepSpin i)) (sleep_while_locked i)) Q"
  shows "ends E s (sleep_while_locked i) Q"
  unfolding ends_def
proof (intro allI impI)
  fix t
  assume t: "lk_eq s t"
  then have "sl_locked (slks t i) \<noteq> 0" using assms(1) by (simp add: lk_fields)
  then have "sleep_while_locked i E t = thn (sleep (ChSleep i) (SleepSpin i)) (sleep_while_locked i) E t"
    by (subst sleep_while_locked.simps) (simp add: kdefs)
  then show "returns E t (sleep_while_locked i) (\<lambda>a u. \<exists>s'. lk_eq s' u \<and> Q a s')"
    using endsD [OF assms(2) t] by (simp add: returns_def)
qed

lemma ends_sleep_while:
  assumes "slk_wait E p i s t" "uncontended E" "slk_ready p i s" "Q () (acquired (SleepSpin i) t)"
  shows "ends E (acquired (SleepSpin i) s) (sleep_while_locked i) Q"
  using assms
proof (induction rule: slk_wait.induct)
  case (now s)
  then show ?case by (intro ends_sleep_free) simp_all
next
  case (later s r t)
  then have "ends E (acquired (SleepSpin i) (awake p r)) (sleep_while_locked i) Q" by simp
  then have "ends E (acquired (SleepSpin i) s) (thn (sleep (ChSleep i) (SleepSpin i)) (sleep_while_locked i)) Q"
    using later by (intro ends_thn ends_sleep_slk [where r = r and p = p]) simp_all
  then show ?case using later by (intro ends_sleep_taken) simp_all
qed

lemma ends_acquiresleep_wait:
  assumes "uncontended E" "slk_ready p i s" "slk_wait E p i s t"
    and "Q () (t\<lparr>slks := (slks t)(i := (slks t i)\<lparr>sl_locked := 1, sl_pid := p_pid (procs t p)\<rparr>)\<rparr>)"
  shows "ends E s (acquiresleep i) Q"
proof -
  have t: "slk_ready p i t" using slk_wait_ready [OF assms(3,2)] by simp
  have s: "locked (locks s (SleepSpin i)) = 0" using assms(2) by (simp add: slk_ready_def)
  show ?thesis
    unfolding acquiresleep_def using assms t s
    by (intro ends_thn ends_acquire ends_sleep_while [OF assms(3)] ends_upd_slk ends_bnd kends;
        clarsimp simp: lk_fields cpu_ok_acquired slk_ready_def cpu_room_0)+
qed

text \<open>If the others never free the lock, \<^verbatim>\<open>acquiresleep\<close> never returns.\<close>

definition never_freed :: "(lockid, 'z slk_state_scheme) env \<Rightarrow> nat \<Rightarrow> sleepid \<Rightarrow> bool" where
  "never_freed E p i \<longleftrightarrow> (\<forall>s. slk_ready p i s \<and> sl_locked (slks s i) \<noteq> 0 \<longrightarrow>
     (\<exists>r. resumes E p (asleep p (ChSleep i) s) r \<and> slk_ready p i r \<and> sl_locked (slks r i) \<noteq> 0))"

lemma sleep_while_stuck:
  assumes E: "uncontended E" "never_freed E p i"
    and s: "slk_ready p i s" "sl_locked (slks s i) \<noteq> 0" "lk_eq (acquired (SleepSpin i) s) t"
  shows "sleep_while_locked i E t = None"
proof (rule ccontr)
  let ?P = "\<lambda>j F t r. j = i \<longrightarrow> F = E \<longrightarrow>
    (\<forall>s. slk_ready p i s \<and> sl_locked (slks s i) \<noteq> 0 \<longrightarrow> \<not> lk_eq (acquired (SleepSpin i) s) t)"
  assume "sleep_while_locked i E t \<noteq> None"
  then obtain r where r: "sleep_while_locked i E t = Some r" by blast
  have "?P i E t r"
  proof (rule sleep_while_locked.raw_induct [where P = ?P, OF _ r], intro impI allI notI, elim conjE)
    fix f j F t r and s :: "'a slk_state_scheme"
    assume IH: "\<And>j F t r. f j F t = Some r \<Longrightarrow> ?P j F t r" and j: "j = i" "F = E"
      and step: "bnd (gets (\<lambda>s. sl_locked (slks s j))) (\<lambda>l. if l \<noteq> 0
          then thn (sleep (ChSleep j) (SleepSpin j)) (f j) else ret ()) F t = Some r"
      and s: "slk_ready p i s" "sl_locked (slks s i) \<noteq> 0" and t: "lk_eq (acquired (SleepSpin i) s) t"
    obtain x where x: "resumes E p (asleep p (ChSleep i) s) x" "slk_ready p i x" "sl_locked (slks x i) \<noteq> 0"
      using E(2) s by (auto simp: never_freed_def)
    have "ends E (acquired (SleepSpin i) s) (sleep (ChSleep i) (SleepSpin i)) (\<lambda>_ u. u = acquired (SleepSpin i) (awake p x))"
      using E(1) s(1) x by (intro ends_sleep_slk [where r = x]) simp_all
    from endsD [OF this t] obtain u where u: "sleep (ChSleep i) (SleepSpin i) E t = Some (Ret () u)"
      "lk_eq (acquired (SleepSpin i) (awake p x)) u" by (auto simp: returns_def)
    have "sl_locked (slks t i) \<noteq> 0" using s(2) t by (simp add: lk_fields)
    then have "f i E u = Some r" using step u(1) j by (simp add: kdefs)
    from IH [OF this] show False using x u(2) by auto
  qed
  then show False using s by blast
qed

lemma acquiresleep_stuck:
  assumes "uncontended E" "never_freed E p i" "slk_ready p i s" "sl_locked (slks s i) \<noteq> 0"
  shows "acquiresleep i E s = None"
  using assms sleep_while_stuck [OF assms lk_eq_refl]
  by (simp add: acquiresleep_def kdefs acquire_eq slk_ready_def)

lemma ends_acquiresleep:
  assumes "uncontended E" "cpu_room 2 s" "cproc (cpus s (tp s)) = Some p"
    and "locked (locks s (SleepSpin i)) = 0" "sl_locked (slks s i) = 0"
    and "Q () (s\<lparr>slks := (slks s)(i := (slks s i)\<lparr>sl_locked := 1, sl_pid := p_pid (procs s p)\<rparr>)\<rparr>)"
  shows "ends E s (acquiresleep i) Q"
  unfolding acquiresleep_def using assms
  by (intro kends ends_sleep_free; clarsimp simp: lk_fields cpu_ok_acquired)+

lemma ends_releasesleep:
  assumes "uncontended E" "cpu_room 2 s"
    and "locked (locks s (SleepSpin i)) = 0"
    and "\<And>q. q < NPROC \<Longrightarrow> cproc (cpus s (tp s)) \<noteq> Some q \<Longrightarrow> locked (locks s (ProcLock q)) = 0"
    and "Q () (s\<lparr>slks := (slks s)(i := (slks s i)\<lparr>sl_locked := 0, sl_pid := 0\<rparr>),
           procs := wake (Some (ChSleep i)) (cproc (cpus s (tp s))) NPROC (procs s)\<rparr>)"
  shows "ends E s (releasesleep i) Q"
  unfolding releasesleep_def using assms
  by (intro kends; clarsimp simp: lk_fields cpu_ok_acquired)+

lemma ends_holdingsleep:
  assumes "uncontended E" "cpu_room 2 s" "cproc (cpus s (tp s)) = Some p"
    and "locked (locks s (SleepSpin i)) = 0"
    and "Q (sl_locked (slks s i) \<noteq> 0 \<and> sl_pid (slks s i) = p_pid (procs s p)) s"
  shows "ends E s (holdingsleep i) Q"
  unfolding holdingsleep_def using assms
  by (intro kends ends_if; clarsimp simp: lk_fields cpu_ok_acquired)+

section \<open>Properties\<close>

text \<open>C21. The protocol of a sleep lock. \<^verbatim>\<open>acquiresleep\<close> on a lock that is taken puts the process to sleep on it, again
  and again while the lock is taken, and takes it in the first state in which the others resume the process with the
  lock free; if they never free it, the call never returns. From then on the lock is reported as held by
  \<^verbatim>\<open>holdingsleep\<close>; \<^verbatim>\<open>releasesleep\<close> frees it, makes every process that waits for it runnable, and it is reported as
  not held. The spin lock inside is free after each call and nothing else changes.\<close>

theorem sleeplock_protocol:
  assumes "uncontended E" "slk_ready p i s"
  shows "(\<forall>t. slk_wait E p i s t \<longrightarrow> sl_locked (slks t i) = 0 \<and>
    returns E s (thn (acquiresleep i) (
      bnd (holdingsleep i) (\<lambda>h.
      thn (releasesleep i) (
      bnd (holdingsleep i) (\<lambda>h'. ret (h, h')))))) (\<lambda>r u. r = (True, False) \<and>
    lk_eq (t\<lparr>slks := (slks t)(i := (slks t i)\<lparr>sl_locked := 0, sl_pid := 0\<rparr>), procs := procs u\<rparr>) u \<and>
    (\<forall>q. procs u q =
       (if q < NPROC \<and> q \<noteq> p \<and> p_state (procs t q) = SLEEPING \<and> p_chan (procs t q) = Some (ChSleep i)
        then (procs t q)\<lparr>p_state := RUNNABLE\<rparr> else procs t q))))
    \<and> (never_freed E p i \<and> sl_locked (slks s i) \<noteq> 0 \<longrightarrow> acquiresleep i E s = None)"
proof (intro conjI allI impI, goal_cases)
  case (1 t)
  then show ?case using slk_wait_ready assms(2) by blast
next
  case (2 t)
  have t: "slk_ready p i t" using slk_wait_ready 2 assms(2) by blast
  let ?s = "t\<lparr>slks := (slks t)(i := (slks t i)\<lparr>sl_locked := 0, sl_pid := 0\<rparr>),
    procs := wake (Some (ChSleep i)) (Some p) NPROC (procs t)\<rparr>"
  have "ends E s (thn (acquiresleep i) (
      bnd (holdingsleep i) (\<lambda>h.
      thn (releasesleep i) (
      bnd (holdingsleep i) (\<lambda>h'. ret (h, h')))))) (\<lambda>r t. r = (True, False) \<and> t = ?s)"
    using assms 2 t
    by (intro kends ends_acquiresleep_wait [where p = p and t = t] ends_holdingsleep [where p = p] ends_releasesleep;
        simp add: slk_ready_def cpu_room_0)+
  then show ?case
    by (rule returns_mono [OF ends_returns]) (auto simp: lk_fields wake_def)
next
  case 3
  then show ?case using acquiresleep_stuck assms by blast
qed

definition two_procs_slk :: slk_state where
  "two_procs_slk = proc_state.extend two_procs (slk_state.fields (\<lambda>_. \<lparr>sl_locked = 0, sl_name = [], sl_pid = 0\<rparr>))"

lemma two_procs_slk_below [simp]:
  "tp two_procs_slk = tp two_procs"
    "csr two_procs_slk = csr two_procs"
    "cpus two_procs_slk = cpus two_procs"
    "locks two_procs_slk = locks two_procs"
    "locktab two_procs_slk = locktab two_procs"
    "ram two_procs_slk = ram two_procs"
    "kend two_procs_slk = kend two_procs"
    "freelist two_procs_slk = freelist two_procs"
    "kernel_pagetable two_procs_slk = kernel_pagetable two_procs"
    "procs two_procs_slk = procs two_procs"
    "nextpid two_procs_slk = nextpid two_procs"
    "initproc two_procs_slk = initproc two_procs"
    "syms two_procs_slk = syms two_procs"
    "ticks two_procs_slk = ticks two_procs"
    "forkret_first two_procs_slk = forkret_first two_procs"
  by (simp_all add: two_procs_slk_def proc_state.defs slk_state.defs)

text \<open>The lock is taken; the others free it, or do not, and run process 0 again.\<close>

definition taken_slk :: slk_state where
  "taken_slk = two_procs_slk\<lparr>slks := (\<lambda>_. \<lparr>sl_locked = 1, sl_name = [], sl_pid = 2\<rparr>)\<rparr>"

definition resume_slk :: "bool \<Rightarrow> slk_state \<Rightarrow> slk_state" where
  "resume_slk free s =
     (let s = s\<lparr>procs := (procs s)(0 := (procs s 0)\<lparr>p_state := RUNNING\<rparr>)\<rparr>
      in if free then s\<lparr>slks := (\<lambda>i. (slks s i)\<lparr>sl_locked := 0\<rparr>)\<rparr> else s)"

definition others_slk :: "bool \<Rightarrow> (lockid, slk_state) env" where
  "others_slk free = (\<lambda>e s. Some (if e = AtSwtch then resume_slk free s else s))"

lemma resume_slk_simps [simp]:
  "tp (resume_slk f s) = tp s" "cpus (resume_slk f s) = cpus s" "locks (resume_slk f s) = locks s"
  "sl_locked (slks (resume_slk f s) i) = (if f then 0 else sl_locked (slks s i))"
  by (simp_all add: resume_slk_def Let_def)

lemma others_slk_resumes: "noff (cpus x (tp x)) = 0 \<Longrightarrow> resumes (others_slk f) 0 x (resume_slk f x)"
  by (cases f; rule resumes_map) (simp_all add: others_slk_def resume_slk_def with_intena_def lk_fields)

lemma slk_ready_resume: "slk_ready p i (resume_slk f s) = slk_ready p i s" "slk_ready p i (asleep p c s) = slk_ready p i s"
  by (simp_all add: slk_ready_def)

theorem sleeplock_protocol_witness:
  "returns (others_slk True) taken_slk (thn (acquiresleep (InodeSleep 0)) (
      bnd (holdingsleep (InodeSleep 0)) (\<lambda>h.
      thn (releasesleep (InodeSleep 0)) (
      bnd (holdingsleep (InodeSleep 0)) (\<lambda>h'. ret (h, h')))))) (\<lambda>r t. r = (True, False))
    \<and> acquiresleep (InodeSleep 0) (others_slk False) taken_slk = None"
proof
  let ?i = "InodeSleep 0"
  have u: "uncontended (others_slk f)" for f by (simp add: uncontended_def others_slk_def)
  have rdy: "slk_ready 0 ?i taken_slk"
    by (simp add: slk_ready_def taken_slk_def) (simp add: two_procs_def zero_defs)
  have taken: "sl_locked (slks taken_slk ?i) \<noteq> 0" by (simp add: taken_slk_def)
  have noff: "noff (cpus (asleep 0 (ChSleep ?i) s) (tp s)) = 0" if "slk_ready 0 ?i s" for s :: slk_state
    using that by (simp add: slk_ready_def)
  have "slk_wait (others_slk True) 0 ?i taken_slk (awake 0 (resume_slk True (asleep 0 (ChSleep ?i) taken_slk)))"
  proof (rule slk_wait.later [OF taken others_slk_resumes])
    show "slk_wait (others_slk True) 0 ?i (awake 0 (resume_slk True (asleep 0 (ChSleep ?i) taken_slk)))
        (awake 0 (resume_slk True (asleep 0 (ChSleep ?i) taken_slk)))"
      by (rule slk_wait.now) simp
  qed (use rdy noff [OF rdy] in \<open>simp_all add: slk_ready_resume\<close>)
  from sleeplock_protocol [OF u rdy, THEN conjunct1, rule_format, OF this, THEN conjunct2]
  show "returns (others_slk True) taken_slk (thn (acquiresleep ?i) (
      bnd (holdingsleep ?i) (\<lambda>h. thn (releasesleep ?i) (bnd (holdingsleep ?i) (\<lambda>h'. ret (h, h'))))))
      (\<lambda>r t. r = (True, False))"
    by (rule returns_mono) simp
  have "never_freed (others_slk False) 0 ?i"
    unfolding never_freed_def
    by (intro allI impI exI conjI, rule others_slk_resumes) (simp_all add: slk_ready_resume, simp add: slk_ready_def)
  then show "acquiresleep ?i (others_slk False) taken_slk = None"
    using sleeplock_protocol [OF u rdy, THEN conjunct2] taken by simp
qed

end
