(* ===== verification/Virtio.thy ===== *)
theory Virtio
  imports Sleeplock
begin

text \<open>
  Buffers (\<^verbatim>\<open>kernel/buf.h\<close>) and the disk driver, \<^verbatim>\<open>kernel/virtio_disk.c\<close>. The
  descriptors, rings and book-keeping that driver and device share are fields of one record;
  an address in a descriptor is a value of \<open>daddr\<close>. The device itself is not part of the
  kernel: it works, like other harts, while the driver's thread is switched out, and when the
  driver looks at one of its registers or at the ring of finished requests.
\<close>

section \<open>Buffers\<close>

text \<open>\<^verbatim>\<open>struct buf\<close>; the heads of the lists are buffers too. \<^verbatim>\<open>BSIZE\<close> is 1024.\<close>

abbreviation (input) BSIZE :: nat where "BSIZE \<equiv> 1024"

record buf =
  b_valid :: bool
  b_disk :: bool
  b_dev :: uint32
  b_blockno :: uint32
  b_refcnt :: uint32
  b_prev :: bufptr
  b_next :: bufptr
  b_data :: memory

section \<open>The driver\<close>

abbreviation (input) NUM :: nat where "NUM \<equiv> 8"
abbreviation (input) VRING_DESC_F_NEXT :: uint16 where "VRING_DESC_F_NEXT \<equiv> 1"
abbreviation (input) VRING_DESC_F_WRITE :: uint16 where "VRING_DESC_F_WRITE \<equiv> 2"
abbreviation (input) VIRTIO_BLK_T_IN :: uint32 where "VIRTIO_BLK_T_IN \<equiv> 0"
abbreviation (input) VIRTIO_BLK_T_OUT :: uint32 where "VIRTIO_BLK_T_OUT \<equiv> 1"

datatype daddr = DNull | DOps nat | DData bufptr | DStatus nat

record virtq_desc =
  d_addr :: daddr
  d_len :: uint32
  d_flags :: uint16
  d_next :: uint16

record virtio_blk_req =
  r_type :: uint32
  r_reserved :: uint32
  r_sector :: uint64

text \<open>\<^verbatim>\<open>struct disk\<close>; \<open>used_dev\<close> is \<^verbatim>\<open>disk.used->idx\<close>, \<open>vregs\<close> the device registers.\<close>

record vdisk =
  desc :: "nat \<Rightarrow> virtq_desc"
  avail_idx :: uint16
  avail_ring :: "nat \<Rightarrow> uint16"
  used_dev :: uint16
  used_ring :: "nat \<Rightarrow> uint32"
  dfree :: "nat \<Rightarrow> bool"
  used_idx :: uint16
  info_b :: "nat \<Rightarrow> bufptr option"
  info_status :: "nat \<Rightarrow> uint8"
  ops :: "nat \<Rightarrow> virtio_blk_req"
  pages_pfn :: uint32
  vregs :: "uint64 \<Rightarrow> uint32"

record disk_state = slk_state +
  bufs :: "bufptr \<Rightarrow> buf"
  vd :: vdisk

definition upd_buf :: "bufptr \<Rightarrow> (buf \<Rightarrow> buf) \<Rightarrow> ('z disk_state_scheme, unit) K" where
  [kdefs]: "upd_buf b f = modify (\<lambda>s. s\<lparr>bufs := (bufs s)(b := f (bufs s b))\<rparr>)"

definition upd_vd :: "(vdisk \<Rightarrow> vdisk) \<Rightarrow> ('z disk_state_scheme, unit) K" where
  [kdefs]: "upd_vd f = modify (\<lambda>s. s\<lparr>vd := f (vd s)\<rparr>)"

definition upd_desc :: "nat \<Rightarrow> (virtq_desc \<Rightarrow> virtq_desc) \<Rightarrow> ('z disk_state_scheme, unit) K" where
  [kdefs]: "upd_desc i f = upd_vd (\<lambda>v. v\<lparr>desc := (desc v)(i := f (desc v i))\<rparr>)"

definition rd_reg :: "uint64 \<Rightarrow> ('z disk_state_scheme, uint32) K" where
  [kdefs]: "rd_reg r = thn (interfere (AtDev (VIRTIO0 + r))) (gets (\<lambda>s. vregs (vd s) r))"

definition wr_reg :: "uint64 \<Rightarrow> uint32 \<Rightarrow> ('z disk_state_scheme, unit) K" where
  [kdefs]: "wr_reg r x = upd_vd (\<lambda>v. v\<lparr>vregs := (vregs v)(r := x)\<rparr>)"

text \<open>
  Register offsets of \<^verbatim>\<open>virtio.h\<close>: magic 0x000, version 0x004, device id 0x008, vendor id
  0x00c, device features 0x010, driver features 0x020, page size 0x028, queue select 0x030,
  queue max 0x034, queue size 0x038, queue page 0x040, notify 0x050, interrupt status 0x060,
  interrupt acknowledge 0x064, status 0x070.
\<close>

definition virtio_features :: "uint32 \<Rightarrow> uint32" where
  "virtio_features f =
     fold (\<lambda>k g. g AND NOT (push_bit k 1)) [5, 7, 11, 12, 27, 29, 28] f"

definition virtio_disk_init :: "('z disk_state_scheme, unit) K" where
  "virtio_disk_init =
     thn (initlock VdiskLock ''virtio_disk'') (
     bnd (rd_reg 0x000) (\<lambda>magic.
     bnd (rd_reg 0x004) (\<lambda>version.
     bnd (rd_reg 0x008) (\<lambda>dev.
     bnd (rd_reg 0x00c) (\<lambda>vendor.
     thn (whenK (magic \<noteq> 0x74726976 \<or> version \<noteq> 1 \<or> dev \<noteq> 2 \<or> vendor \<noteq> 0x554d4551)
            (panic ''could not find virtio disk'')) (
     thn (wr_reg 0x070 1) (
     thn (wr_reg 0x070 (1 OR 2)) (
     bnd (rd_reg 0x010) (\<lambda>features.
     thn (wr_reg 0x020 (virtio_features features)) (
     thn (wr_reg 0x070 (1 OR 2 OR 8)) (
     thn (wr_reg 0x070 (1 OR 2 OR 8 OR 4)) (
     thn (wr_reg 0x028 4096) (
     thn (wr_reg 0x030 0) (
     bnd (rd_reg 0x034) (\<lambda>maxq.
     thn (whenK (maxq = 0) (panic ''virtio disk has no queue 0'')) (
     thn (whenK (maxq < 8) (panic ''virtio disk max queue too short'')) (
     thn (wr_reg 0x038 8) (
     thn (upd_vd (\<lambda>v. v\<lparr>desc := (\<lambda>_. \<lparr>d_addr = DNull, d_len = 0, d_flags = 0, d_next = 0\<rparr>),
            avail_idx := 0, avail_ring := (\<lambda>_. 0), used_dev := 0, used_ring := (\<lambda>_. 0)\<rparr>)) (
     bnd (gets (\<lambda>s. pages_pfn (vd s))) (\<lambda>pfn.
     thn (wr_reg 0x040 pfn) (
     upd_vd (\<lambda>v. v\<lparr>dfree := (\<lambda>i. if i < NUM then True else dfree v i)\<rparr>))))))))))))))))))))))"

definition alloc_desc :: "('z disk_state_scheme, nat option) K" where
  "alloc_desc =
     findK [0..<NUM] (\<lambda>i.
       bnd (gets (\<lambda>s. dfree (vd s) i)) (\<lambda>f.
       if f then thn (upd_vd (\<lambda>v. v\<lparr>dfree := (dfree v)(i := False)\<rparr>)) (ret (Some i))
       else ret None))"

definition free_desc :: "nat \<Rightarrow> ('z disk_state_scheme, unit) K" where
  "free_desc i =
     (if i \<ge> NUM then panic ''free_desc 1''
      else bnd (gets (\<lambda>s. dfree (vd s) i)) (\<lambda>f.
           thn (whenK f (panic ''free_desc 2'')) (
           thn (upd_desc i (\<lambda>d. d\<lparr>d_addr := DNull\<rparr>)) (
           thn (upd_desc i (\<lambda>d. d\<lparr>d_len := 0\<rparr>)) (
           thn (upd_desc i (\<lambda>d. d\<lparr>d_flags := 0\<rparr>)) (
           thn (upd_desc i (\<lambda>d. d\<lparr>d_next := 0\<rparr>)) (
           thn (upd_vd (\<lambda>v. v\<lparr>dfree := (dfree v)(i := True)\<rparr>)) (
           wakeup (Some ChDiskFree)))))))))"

partial_function (option) free_chain ::
  "nat \<Rightarrow> (lockid, 'z disk_state_scheme) env \<Rightarrow> 'z disk_state_scheme \<Rightarrow>
     ('z disk_state_scheme, unit) outcome option" where
  "free_chain i E s =
     bnd (gets (\<lambda>s. desc (vd s) i)) (\<lambda>d.
     thn (free_desc i) (
     if d_flags d AND VRING_DESC_F_NEXT \<noteq> 0 then free_chain (unat (d_next d)) else ret ())) E s"

text \<open>Three descriptors or none.\<close>

definition alloc3_desc :: "('z disk_state_scheme, (nat \<times> nat \<times> nat) option) K" where
  "alloc3_desc =
     bnd alloc_desc (\<lambda>i0.
     case i0 of None \<Rightarrow> ret None | Some a \<Rightarrow>
     bnd alloc_desc (\<lambda>i1.
     case i1 of None \<Rightarrow> thn (free_desc a) (ret None) | Some b \<Rightarrow>
     bnd alloc_desc (\<lambda>i2.
     case i2 of None \<Rightarrow> thn (free_desc a) (thn (free_desc b) (ret None))
     | Some c \<Rightarrow> ret (Some (a, b, c)))))"

partial_function (option) alloc3_wait ::
  "(lockid, 'z disk_state_scheme) env \<Rightarrow> 'z disk_state_scheme \<Rightarrow>
     ('z disk_state_scheme, nat \<times> nat \<times> nat) outcome option" where
  "alloc3_wait E s =
     bnd alloc3_desc (\<lambda>r.
     case r of
       Some idx \<Rightarrow> ret idx
     | None \<Rightarrow> thn (sleep ChDiskFree VdiskLock) alloc3_wait) E s"

partial_function (option) wait_disk ::
  "bufptr \<Rightarrow> (lockid, 'z disk_state_scheme) env \<Rightarrow> 'z disk_state_scheme \<Rightarrow>
     ('z disk_state_scheme, unit) outcome option" where
  "wait_disk b E s =
     bnd (gets (\<lambda>s. b_disk (bufs s b))) (\<lambda>d.
     if d then thn (sleep (ChBuf b) VdiskLock) (wait_disk b) else ret ()) E s"

definition format_descs :: "bufptr \<Rightarrow> bool \<Rightarrow> nat \<times> nat \<times> nat \<Rightarrow> uint64 \<Rightarrow> ('z disk_state_scheme, unit) K" where
  "format_descs b write idx sector = (case idx of (i0, i1, i2) \<Rightarrow>
     thn (upd_vd (\<lambda>v. v\<lparr>ops := (ops v)(i0 := \<lparr>r_type = (if write then VIRTIO_BLK_T_OUT else VIRTIO_BLK_T_IN),
            r_reserved = 0, r_sector = sector\<rparr>)\<rparr>)) (
     thn (upd_desc i0 (\<lambda>d. \<lparr>d_addr = DOps i0, d_len = 16, d_flags = VRING_DESC_F_NEXT, d_next = of_nat i1\<rparr>)) (
     thn (upd_desc i1 (\<lambda>d. \<lparr>d_addr = DData b, d_len = 1024,
            d_flags = (if write then 0 else VRING_DESC_F_WRITE) OR VRING_DESC_F_NEXT, d_next = of_nat i2\<rparr>)) (
     thn (upd_vd (\<lambda>v. v\<lparr>info_status := (info_status v)(i0 := 0xff)\<rparr>)) (
     upd_desc i2 (\<lambda>d. \<lparr>d_addr = DStatus i0, d_len = 1, d_flags = VRING_DESC_F_WRITE, d_next = 0\<rparr>))))))"

definition virtio_disk_rw :: "bufptr \<Rightarrow> bool \<Rightarrow> ('z disk_state_scheme, unit) K" where
  "virtio_disk_rw b write =
     bnd (gets (\<lambda>s. ucast (b_blockno (bufs s b) * 2) :: uint64)) (\<lambda>sector.
     thn (acquire VdiskLock) (
     bnd alloc3_wait (\<lambda>idx.
     thn (format_descs b write idx sector) (
     thn (upd_buf b (\<lambda>x. x\<lparr>b_disk := True\<rparr>)) (
     thn (upd_vd (\<lambda>v. v\<lparr>info_b := (info_b v)(fst idx := Some b)\<rparr>)) (
     thn (upd_vd (\<lambda>v. v\<lparr>avail_ring := (avail_ring v)(unat (avail_idx v) mod NUM := of_nat (fst idx))\<rparr>)) (
     thn (upd_vd (\<lambda>v. v\<lparr>avail_idx := avail_idx v + 1\<rparr>)) (
     thn (wr_reg 0x050 0) (
     thn (wait_disk b) (
     thn (upd_vd (\<lambda>v. v\<lparr>info_b := (info_b v)(fst idx := None)\<rparr>)) (
     thn (free_chain (fst idx)) (
     release VdiskLock))))))))))))"

partial_function (option) intr_loop ::
  "(lockid, 'z disk_state_scheme) env \<Rightarrow> 'z disk_state_scheme \<Rightarrow>
     ('z disk_state_scheme, unit) outcome option" where
  "intr_loop E s =
     thn (interfere (AtDev VIRTIO0)) (
     bnd (gets vd) (\<lambda>v.
     if used_idx v \<noteq> used_dev v
     then let id = unat (used_ring v (unat (used_idx v) mod NUM)) in
          thn (whenK (info_status v id \<noteq> 0) (panic ''virtio_disk_intr status'')) (
          bnd (deref (info_b v id)) (\<lambda>b.
          thn (upd_buf b (\<lambda>x. x\<lparr>b_disk := False\<rparr>)) (
          thn (wakeup (Some (ChBuf b))) (
          thn (upd_vd (\<lambda>v. v\<lparr>used_idx := used_idx v + 1\<rparr>)) (
          intr_loop)))))
     else ret ())) E s"

definition virtio_disk_intr :: "('z disk_state_scheme, unit) K" where
  "virtio_disk_intr =
     thn (acquire VdiskLock) (
     bnd (rd_reg 0x060) (\<lambda>st.
     thn (wr_reg 0x064 (st AND 0x3)) (
     thn intr_loop (
     release VdiskLock))))"

section \<open>Up to lock statistics\<close>

lemma lk_eq_disk [lk_fields]:
  assumes "lk_eq s t"
  shows "bufs t = bufs s"
    "vd t = vd s"
  using assms by (cases s; cases t; simp add: lk_eq_def)+

lemma disk_acquired [simp]:
  "bufs (acquired l s) = bufs s"
    "vd (acquired l s) = vd s"
    "(acquired l s)\<lparr>bufs := x0\<rparr> = acquired l (s\<lparr>bufs := x0\<rparr>)"
    "(acquired l s)\<lparr>vd := x1\<rparr> = acquired l (s\<lparr>vd := x1\<rparr>)"
  by (simp_all add: lockfx intr_enabled_def)

lemma lk_eq_disk_update [lk_fields]:
  assumes "lk_eq s t"
  shows "lk_eq (s\<lparr>bufs := x0\<rparr>) (t\<lparr>bufs := x0\<rparr>)"
    "lk_eq (s\<lparr>vd := x1\<rparr>) (t\<lparr>vd := x1\<rparr>)"
  using assms by (cases s; cases t; auto simp: lk_eq_def lk_same_def)+

lemma disk_cpu_ok [simp]:
  "cpu_room n (s\<lparr>bufs := x0\<rparr>) = cpu_room n s"
    "cpu_room n (s\<lparr>vd := x1\<rparr>) = cpu_room n s"
  by (simp_all add: cpu_room_def intr_enabled_def)

lemma ends_upd_buf [kends]:
  "Q () (s\<lparr>bufs := (bufs s)(b := f (bufs s b))\<rparr>) \<Longrightarrow> ends E s (upd_buf b f) Q"
  unfolding upd_buf_def by (rule ends_modify) (simp_all add: lk_fields)

lemma ends_upd_vd [kends]: "Q () (s\<lparr>vd := f (vd s)\<rparr>) \<Longrightarrow> ends E s (upd_vd f) Q"
  unfolding upd_vd_def by (rule ends_modify) (simp_all add: lk_fields)

text \<open>An example state.\<close>

definition demo_disk :: disk_state where
  "demo_disk = slk_state.extend two_procs_slk (disk_state.fields
     (\<lambda>b. \<lparr>b_valid = False, b_disk = False, b_dev = 0, b_blockno = 0, b_refcnt = 0, b_prev = b, b_next = b,
        b_data = (\<lambda>_. 0)\<rparr>)
     \<lparr>desc = (\<lambda>_. \<lparr>d_addr = DNull, d_len = 0, d_flags = 0, d_next = 0\<rparr>), avail_idx = 0,
      avail_ring = (\<lambda>_. 0), used_dev = 0, used_ring = (\<lambda>_. 0), dfree = (\<lambda>i. i < NUM), used_idx = 0,
      info_b = (\<lambda>_. None), info_status = (\<lambda>_. 0), ops = (\<lambda>_. \<lparr>r_type = 0, r_reserved = 0, r_sector = 0\<rparr>),
      pages_pfn = 0, vregs = (\<lambda>_. 0)\<rparr>)"

lemma demo_disk_below [simp]:
  "tp demo_disk = tp two_procs_slk"
    "csr demo_disk = csr two_procs_slk"
    "cpus demo_disk = cpus two_procs_slk"
    "locks demo_disk = locks two_procs_slk"
    "locktab demo_disk = locktab two_procs_slk"
    "ram demo_disk = ram two_procs_slk"
    "kend demo_disk = kend two_procs_slk"
    "freelist demo_disk = freelist two_procs_slk"
    "kernel_pagetable demo_disk = kernel_pagetable two_procs_slk"
    "procs demo_disk = procs two_procs_slk"
    "nextpid demo_disk = nextpid two_procs_slk"
    "initproc demo_disk = initproc two_procs_slk"
    "syms demo_disk = syms two_procs_slk"
    "ticks demo_disk = ticks two_procs_slk"
    "forkret_first demo_disk = forkret_first two_procs_slk"
    "slks demo_disk = slks two_procs_slk"
  by (simp_all add: demo_disk_def slk_state.defs disk_state.defs)

end
