(* ===== verification/Bio.thy ===== *)
theory Bio
  imports Virtio
begin

text \<open>
  The buffer cache, \<^verbatim>\<open>kernel/bio.c\<close>: \<^verbatim>\<open>NBUCKETS\<close> doubly linked lists of buffers with
  a lock each; a buffer that caches a block is on the list of the block's hash bucket. A miss
  takes an unused buffer from the other buckets' lists, in cyclic order.
\<close>

section \<open>Operations\<close>

abbreviation (input) NBUCKETS :: nat where "NBUCKETS \<equiv> 53"

text \<open>\<^verbatim>\<open>unsigned char getIndex(uint)\<close>\<close>

definition getIndex :: "uint32 \<Rightarrow> uint8" where
  "getIndex blockno = ucast (blockno mod 53)"

abbreviation bucket :: "uint32 \<Rightarrow> nat" where
  "bucket blockno \<equiv> unat (getIndex blockno)"

text \<open>Put \<open>b\<close> right after the head of bucket \<open>i\<close>; take \<open>b\<close> out of its list.\<close>

definition list_insert :: "nat \<Rightarrow> bufptr \<Rightarrow> ('z disk_state_scheme, unit) K" where
  "list_insert i b =
     bnd (gets (\<lambda>s. b_next (bufs s (BHead i)))) (\<lambda>first.
     thn (upd_buf b (\<lambda>x. x\<lparr>b_next := first\<rparr>)) (
     thn (upd_buf b (\<lambda>x. x\<lparr>b_prev := BHead i\<rparr>)) (
     bnd (gets (\<lambda>s. b_next (bufs s (BHead i)))) (\<lambda>first2.
     thn (upd_buf first2 (\<lambda>x. x\<lparr>b_prev := b\<rparr>)) (
     upd_buf (BHead i) (\<lambda>x. x\<lparr>b_next := b\<rparr>))))))"

definition list_remove :: "bufptr \<Rightarrow> ('z disk_state_scheme, unit) K" where
  "list_remove b =
     bnd (gets (\<lambda>s. bufs s b)) (\<lambda>x.
     thn (upd_buf (b_next x) (\<lambda>y. y\<lparr>b_prev := b_prev x\<rparr>)) (
     bnd (gets (\<lambda>s. bufs s b)) (\<lambda>x.
     upd_buf (b_prev x) (\<lambda>y. y\<lparr>b_next := b_next x\<rparr>))))"

definition binit :: "('z disk_state_scheme, unit) K" where
  "binit =
     thn (forK [0..<NBUCKETS] (\<lambda>i.
            thn (initlock (BcacheLock i) ''bcache'') (
            thn (upd_buf (BHead i) (\<lambda>x. x\<lparr>b_prev := BHead i\<rparr>)) (
            upd_buf (BHead i) (\<lambda>x. x\<lparr>b_next := BHead i\<rparr>))))) (
     forK [0..<NBUF] (\<lambda>k.
       let b = BBuf k in
       bnd (gets (\<lambda>s. b_next (bufs s (BHead 0)))) (\<lambda>first.
       thn (upd_buf b (\<lambda>x. x\<lparr>b_next := first\<rparr>)) (
       thn (upd_buf b (\<lambda>x. x\<lparr>b_prev := BHead 0\<rparr>)) (
       thn (initsleeplock (BufSleep b) ''buffer'') (
       bnd (gets (\<lambda>s. b_next (bufs s (BHead 0)))) (\<lambda>first2.
       thn (upd_buf first2 (\<lambda>x. x\<lparr>b_prev := b\<rparr>)) (
       upd_buf (BHead 0) (\<lambda>x. x\<lparr>b_next := b\<rparr>)))))))))"

text \<open>The search for a cached block, along \<^verbatim>\<open>next\<close>, and for an unused buffer, along \<^verbatim>\<open>prev\<close>.\<close>

partial_function (option) find_cached ::
  "nat \<Rightarrow> uint32 \<Rightarrow> uint32 \<Rightarrow> bufptr \<Rightarrow> (lockid, 'z disk_state_scheme) env \<Rightarrow>
     'z disk_state_scheme \<Rightarrow> ('z disk_state_scheme, bufptr option) outcome option" where
  "find_cached i dev blockno b E s =
     (if b = BHead i then ret None
      else bnd (gets (\<lambda>s. bufs s b)) (\<lambda>x.
           if b_dev x = dev \<and> b_blockno x = blockno then ret (Some b)
           else find_cached i dev blockno (b_next x))) E s"

partial_function (option) find_free ::
  "nat \<Rightarrow> bufptr \<Rightarrow> (lockid, 'z disk_state_scheme) env \<Rightarrow>
     'z disk_state_scheme \<Rightarrow> ('z disk_state_scheme, bufptr option) outcome option" where
  "find_free i b E s =
     (if b = BHead i then ret None
      else bnd (gets (\<lambda>s. bufs s b)) (\<lambda>x.
           if b_refcnt x = 0 then ret (Some b)
           else find_free i (b_prev x))) E s"

text \<open>An unused buffer \<open>b\<close> of bucket \<open>n\<close> becomes the one for the block and moves to bucket \<open>i\<close>.\<close>

definition take_over :: "uint32 \<Rightarrow> uint32 \<Rightarrow> nat \<Rightarrow> nat \<Rightarrow> bufptr \<Rightarrow> ('z disk_state_scheme, bufptr) K" where
  "take_over dev blockno i n b =
     thn (upd_buf b (\<lambda>x. x\<lparr>b_dev := dev\<rparr>)) (
     thn (upd_buf b (\<lambda>x. x\<lparr>b_blockno := blockno\<rparr>)) (
     thn (upd_buf b (\<lambda>x. x\<lparr>b_valid := False\<rparr>)) (
     thn (upd_buf b (\<lambda>x. x\<lparr>b_refcnt := 1\<rparr>)) (
     thn (list_remove b) (
     thn (release (BcacheLock n)) (
     thn (list_insert i b) (
     thn (release (BcacheLock i)) (
     thn (acquiresleep (BufSleep b)) (
     ret b)))))))))"

text \<open>The loop over the other buckets; bucket \<open>idx\<close> is locked all along.\<close>

partial_function (option) recycle ::
  "uint32 \<Rightarrow> uint32 \<Rightarrow> uint8 \<Rightarrow> uint8 \<Rightarrow> (lockid, 'z disk_state_scheme) env \<Rightarrow>
     'z disk_state_scheme \<Rightarrow> ('z disk_state_scheme, bufptr) outcome option" where
  "recycle dev blockno idx nextIdx E s =
     (if nextIdx = idx then panic ''bget: no buffers''
      else thn (acquire (BcacheLock (unat nextIdx))) (
           bnd (gets (\<lambda>s. b_prev (bufs s (BHead (unat nextIdx))))) (\<lambda>lru.
           bnd (find_free (unat nextIdx) lru) (\<lambda>r.
           case r of
             None \<Rightarrow>
               thn (release (BcacheLock (unat nextIdx))) (
               recycle dev blockno idx (getIndex (ucast nextIdx + 1)))
           | Some b \<Rightarrow> take_over dev blockno (unat idx) (unat nextIdx) b)))) E s"

definition bget :: "uint32 \<Rightarrow> uint32 \<Rightarrow> ('z disk_state_scheme, bufptr) K" where
  "bget dev blockno =
     (let idx = getIndex blockno; i = unat idx in
      thn (acquire (BcacheLock i)) (
      bnd (gets (\<lambda>s. b_next (bufs s (BHead i)))) (\<lambda>first.
      bnd (find_cached i dev blockno first) (\<lambda>r.
      case r of
        Some b \<Rightarrow>
          thn (upd_buf b (\<lambda>x. x\<lparr>b_refcnt := b_refcnt x + 1\<rparr>)) (
          thn (release (BcacheLock i)) (
          thn (acquiresleep (BufSleep b)) (
          ret b)))
      | None \<Rightarrow> recycle dev blockno idx (getIndex (blockno + 1))))))"

definition bread :: "uint32 \<Rightarrow> uint32 \<Rightarrow> ('z disk_state_scheme, bufptr) K" where
  "bread dev blockno =
     bnd (bget dev blockno) (\<lambda>b.
     bnd (gets (\<lambda>s. b_valid (bufs s b))) (\<lambda>v.
     thn (whenK (\<not> v)
            (thn (virtio_disk_rw b False) (
             upd_buf b (\<lambda>x. x\<lparr>b_valid := True\<rparr>)))) (
     ret b)))"

definition bwrite :: "bufptr \<Rightarrow> ('z disk_state_scheme, unit) K" where
  "bwrite b =
     bnd (holdingsleep (BufSleep b)) (\<lambda>h.
     thn (whenK (\<not> h) (panic ''bwrite'')) (
     virtio_disk_rw b True))"

definition brelse :: "bufptr \<Rightarrow> ('z disk_state_scheme, unit) K" where
  "brelse b =
     bnd (holdingsleep (BufSleep b)) (\<lambda>h.
     thn (whenK (\<not> h) (panic ''brelse'')) (
     thn (releasesleep (BufSleep b)) (
     bnd (gets (\<lambda>s. bucket (b_blockno (bufs s b)))) (\<lambda>i.
     thn (acquire (BcacheLock i)) (
     thn (upd_buf b (\<lambda>x. x\<lparr>b_refcnt := b_refcnt x - 1\<rparr>)) (
     bnd (gets (\<lambda>s. b_refcnt (bufs s b))) (\<lambda>r.
     thn (whenK (r = 0) (thn (list_remove b) (list_insert i b))) (
     release (BcacheLock i)))))))))"

definition bpin :: "bufptr \<Rightarrow> ('z disk_state_scheme, unit) K" where
  "bpin b =
     bnd (gets (\<lambda>s. bucket (b_blockno (bufs s b)))) (\<lambda>i.
     thn (acquire (BcacheLock i)) (
     thn (upd_buf b (\<lambda>x. x\<lparr>b_refcnt := b_refcnt x + 1\<rparr>)) (
     release (BcacheLock i))))"

definition bunpin :: "bufptr \<Rightarrow> ('z disk_state_scheme, unit) K" where
  "bunpin b =
     bnd (gets (\<lambda>s. bucket (b_blockno (bufs s b)))) (\<lambda>i.
     thn (acquire (BcacheLock i)) (
     thn (upd_buf b (\<lambda>x. x\<lparr>b_refcnt := b_refcnt x - 1\<rparr>)) (
     release (BcacheLock i))))"

end
