(* ===== verification/Bcache.thy ===== *)
theory Bcache
  imports Bio
begin

text \<open>
  Correctness of the buffer cache (\<^verbatim>\<open>kernel/bio.c\<close>): the buckets are circular doubly linked lists,
  every buffer is on the list of exactly one bucket, the one its block hashes to, and no block is cached
  twice.
\<close>

section \<open>Circular lists\<close>

text \<open>The buffers strictly between \<open>p\<close> and \<open>q\<close>, linked in both directions.\<close>

fun seg :: "(bufptr \<Rightarrow> buf) \<Rightarrow> bufptr \<Rightarrow> bufptr list \<Rightarrow> bufptr \<Rightarrow> bool" where
  "seg bs p [] q \<longleftrightarrow> b_next (bs p) = q \<and> b_prev (bs q) = p"
| "seg bs p (x # xs) q \<longleftrightarrow> b_next (bs p) = x \<and> b_prev (bs x) = p \<and> seg bs x xs q"

lemma seg_append: "seg bs p (xs @ x # ys) q \<longleftrightarrow> seg bs p xs x \<and> seg bs x ys q"
  by (induction xs arbitrary: p) auto

lemma seg_cong:
  assumes "\<And>y. y = p \<or> y \<in> set xs \<Longrightarrow> b_next (bs' y) = b_next (bs y)"
    and "\<And>y. y = q \<or> y \<in> set xs \<Longrightarrow> b_prev (bs' y) = b_prev (bs y)"
  shows "seg bs' p xs q \<longleftrightarrow> seg bs p xs q"
  using assms by (induction xs arbitrary: p) auto

definition ring :: "(bufptr \<Rightarrow> buf) \<Rightarrow> nat \<Rightarrow> bufptr list \<Rightarrow> bool" where
  "ring bs i xs \<longleftrightarrow> seg bs (BHead i) xs (BHead i) \<and> distinct xs \<and> (\<forall>j. BHead j \<notin> set xs)"

text \<open>The effect of \<open>list_insert\<close> and \<open>list_remove\<close>.\<close>

definition buf_ins :: "nat \<Rightarrow> bufptr \<Rightarrow> (bufptr \<Rightarrow> buf) \<Rightarrow> bufptr \<Rightarrow> buf" where
  "buf_ins i b bs =
     (let bs1 = bs(b := (bs b)\<lparr>b_next := b_next (bs (BHead i)), b_prev := BHead i\<rparr>);
          first = b_next (bs1 (BHead i));
          bs2 = bs1(first := (bs1 first)\<lparr>b_prev := b\<rparr>)
      in bs2(BHead i := (bs2 (BHead i))\<lparr>b_next := b\<rparr>))"

definition buf_del :: "bufptr \<Rightarrow> (bufptr \<Rightarrow> buf) \<Rightarrow> bufptr \<Rightarrow> buf" where
  "buf_del b bs =
     (let bs1 = bs(b_next (bs b) := (bs (b_next (bs b)))\<lparr>b_prev := b_prev (bs b)\<rparr>)
      in bs1(b_prev (bs1 b) := (bs1 (b_prev (bs1 b)))\<lparr>b_next := b_next (bs1 b)\<rparr>))"

lemma ends_list_insert [kends]:
  "Q () (s\<lparr>bufs := buf_ins i b (bufs s)\<rparr>) \<Longrightarrow> ends E s (list_insert i b) Q"
  unfolding list_insert_def
  by (intro kends) (simp_all add: lk_fields buf_ins_def Let_def fun_upd_same del: fun_upd_apply)

lemma ends_list_remove [kends]:
  "Q () (s\<lparr>bufs := buf_del b (bufs s)\<rparr>) \<Longrightarrow> ends E s (list_remove b) Q"
  unfolding list_remove_def
  by (intro kends) (simp_all add: lk_fields buf_del_def Let_def fun_upd_same del: fun_upd_apply)

lemma buf_ins_data [simp]:
  "b_valid (buf_ins i b bs x) = b_valid (bs x)" "b_disk (buf_ins i b bs x) = b_disk (bs x)"
  "b_dev (buf_ins i b bs x) = b_dev (bs x)" "b_blockno (buf_ins i b bs x) = b_blockno (bs x)"
  "b_refcnt (buf_ins i b bs x) = b_refcnt (bs x)" "b_data (buf_ins i b bs x) = b_data (bs x)"
  by (simp_all add: buf_ins_def Let_def)

lemma buf_del_data [simp]:
  "b_valid (buf_del b bs x) = b_valid (bs x)" "b_disk (buf_del b bs x) = b_disk (bs x)"
  "b_dev (buf_del b bs x) = b_dev (bs x)" "b_blockno (buf_del b bs x) = b_blockno (bs x)"
  "b_refcnt (buf_del b bs x) = b_refcnt (bs x)" "b_data (buf_del b bs x) = b_data (bs x)"
  by (simp_all add: buf_del_def Let_def)

lemma buf_ins_links:
  assumes "b \<noteq> BHead i"
  shows "b_next (buf_ins i b bs y) = (if y = BHead i then b else if y = b then b_next (bs (BHead i)) else b_next (bs y))"
    and "b_prev (buf_ins i b bs y) = (if y = b_next (bs (BHead i)) then b else if y = b then BHead i else b_prev (bs y))"
  using assms by (auto simp: buf_ins_def Let_def)

lemma buf_del_links:
  assumes "b_next (bs b) \<noteq> b"
  shows "b_next (buf_del b bs y) = (if y = b_prev (bs b) then b_next (bs b) else b_next (bs y))"
    and "b_prev (buf_del b bs y) = (if y = b_next (bs b) then b_prev (bs b) else b_prev (bs y))"
  using assms by (auto simp: buf_del_def Let_def)

lemma seg_first: "seg bs p xs q \<Longrightarrow> b_next (bs p) = hd (xs @ [q])"
  by (cases xs) auto

lemma seg_last: "seg bs p xs q \<Longrightarrow> b_prev (bs q) = last (p # xs)"
  by (induction xs arbitrary: p) auto

lemma ring_buf_ins:
  assumes r: "ring bs i xs" and b: "b \<notin> set xs" "\<forall>j. b \<noteq> BHead j"
  shows "ring (buf_ins i b bs) i (b # xs)"
proof -
  have b': "b \<noteq> BHead i" using b by simp
  note links = buf_ins_links [OF b']
  have "seg (buf_ins i b bs) (BHead i) (b # xs) (BHead i)"
  proof (cases xs)
    case Nil
    then show ?thesis using r b by (auto simp: ring_def links)
  next
    case (Cons x ys)
    then have "b_next (bs (BHead i)) = x" using r by (simp add: ring_def)
    then have "seg (buf_ins i b bs) x ys (BHead i) \<longleftrightarrow> seg bs x ys (BHead i)"
      using r b Cons by (intro seg_cong) (auto simp: ring_def links)
    then show ?thesis using r b Cons by (auto simp: ring_def links)
  qed
  then show ?thesis using r b by (auto simp: ring_def)
qed

lemma ring_buf_ins_other:
  assumes r: "ring bs i xs" and j: "ring bs j ys" "j \<noteq> i" "set ys \<inter> set xs = {}" and b: "b \<notin> set ys" "\<forall>j. b \<noteq> BHead j"
  shows "ring (buf_ins i b bs) j ys"
proof -
  have b': "b \<noteq> BHead i" using b by simp
  have "b_next (bs (BHead i)) \<in> insert (BHead i) (set xs)"
    using r by (cases xs) (auto simp: ring_def)
  then have ne: "y \<noteq> b_next (bs (BHead i))" if "y = BHead j \<or> y \<in> set ys" for y
    using that r j by (auto simp: ring_def)
  have "seg (buf_ins i b bs) (BHead j) ys (BHead j) \<longleftrightarrow> seg bs (BHead j) ys (BHead j)"
    using j b ne by (intro seg_cong) (auto simp: ring_def buf_ins_links [OF b'])
  then show ?thesis using j by (simp add: ring_def)
qed

text \<open>The neighbours of a buffer on a ring.\<close>

lemma ring_neighbours:
  assumes "ring bs n (xs @ b # ys)"
  shows "b_prev (bs b) = last (BHead n # xs)" "b_next (bs b) = hd (ys @ [BHead n])" "b_next (bs b) \<noteq> b" "b_prev (bs b) \<noteq> b"
proof -
  have s: "seg bs (BHead n) xs b" "seg bs b ys (BHead n)" using assms by (auto simp: ring_def seg_append)
  show p: "b_prev (bs b) = last (BHead n # xs)" and q: "b_next (bs b) = hd (ys @ [BHead n])"
    using seg_last [OF s(1)] seg_first [OF s(2)] by simp_all
  show "b_next (bs b) \<noteq> b" "b_prev (bs b) \<noteq> b"
    unfolding p q using assms by (cases ys; auto simp: ring_def hd_append)+
qed

lemma seg_retarget:
  assumes "seg bs p xs b" "b_next (bs' (last (p # xs))) = q" "b_prev (bs' q) = last (p # xs)"
    and "\<forall>y \<in> set (butlast (p # xs)). b_next (bs' y) = b_next (bs y)"
    and "\<forall>y \<in> set xs. b_prev (bs' y) = b_prev (bs y)"
  shows "seg bs' p xs q"
  using assms by (induction xs arbitrary: p) (auto split: if_splits)

lemma last_notin_butlast: "distinct xs \<Longrightarrow> xs \<noteq> [] \<Longrightarrow> last xs \<notin> set (butlast xs)"
  by (metis append_butlast_last_id distinct_butlast not_distinct_conv_prefix)

lemma ring_buf_del:
  assumes r: "ring bs n (xs @ b # ys)"
  shows "ring (buf_del b bs) n (xs @ ys)"
proof -
  let ?h = "BHead n" and ?bs = "buf_del b bs"
  let ?l = "last (BHead n # xs)"
  note n = ring_neighbours [OF r]
  note links = buf_del_links [where bs = bs and b = b, OF n(3)]
  have s: "seg bs ?h xs b" "seg bs b ys ?h" and d: "distinct (xs @ b # ys)" "\<forall>j. BHead j \<notin> set (xs @ b # ys)"
    using r by (auto simp: ring_def seg_append)
  have l: "?l \<in> insert ?h (set xs)" by simp
  have l': "?l \<notin> set (butlast (?h # xs))" using d by (intro last_notin_butlast) auto
  have join: "seg ?bs ?h xs q" if q: "b_next (bs b) = q" "q \<notin> set xs" for q
    using s(1) by (rule seg_retarget) (use q n l' in \<open>auto simp: links\<close>)
  have "seg ?bs ?h (xs @ ys) ?h"
  proof (cases ys)
    case Nil
    then show ?thesis using join n(2) d by simp
  next
    case (Cons y ys')
    have "seg ?bs y ys' ?h \<longleftrightarrow> seg bs y ys' ?h"
    proof (rule seg_cong)
      fix z
      assume "z = y \<or> z \<in> set ys'"
      then have "z \<noteq> ?l" using d l Cons by auto
      then show "b_next (?bs z) = b_next (bs z)" by (simp add: links n(1))
    next
      fix z
      assume "z = ?h \<or> z \<in> set ys'"
      then have "z \<noteq> y" using d Cons by auto
      then show "b_prev (?bs z) = b_prev (bs z)" by (simp add: links n(2) Cons)
    qed
    then show ?thesis using join [of y] s(2) d n(2) Cons by (auto simp: seg_append)
  qed
  then show ?thesis using d by (auto simp: ring_def)
qed

lemma ring_buf_del_other:
  assumes r: "ring bs n (xs @ b # ys)" and j: "ring bs j zs" "j \<noteq> n" "set zs \<inter> set (xs @ b # ys) = {}"
  shows "ring (buf_del b bs) j zs"
proof -
  note n = ring_neighbours [OF r]
  note links = buf_del_links [where bs = bs and b = b, OF n(3)]
  have "b_prev (bs b) \<in> insert (BHead n) (set xs)" "b_next (bs b) \<in> insert (BHead n) (set ys)"
    unfolding n(1,2) by (simp, cases ys) auto
  then have ne: "y \<noteq> b_prev (bs b)" "y \<noteq> b_next (bs b)" if "y = BHead j \<or> y \<in> set zs" for y
    using that r j by (auto simp: ring_def)
  have "seg (buf_del b bs) (BHead j) zs (BHead j) \<longleftrightarrow> seg bs (BHead j) zs (BHead j)"
    using ne by (intro seg_cong) (auto simp: links)
  then show ?thesis using j by (simp add: ring_def)
qed

section \<open>Buckets\<close>

definition rings :: "(bufptr \<Rightarrow> buf) \<Rightarrow> (nat \<Rightarrow> bufptr list) \<Rightarrow> bool" where
  "rings bs B \<longleftrightarrow> (\<forall>i < NBUCKETS. ring bs i (B i)) \<and> (\<forall>i < NBUCKETS. \<forall>j < NBUCKETS. i \<noteq> j \<longrightarrow> set (B i) \<inter> set (B j) = {})"

lemma rings_links:
  assumes "\<And>x. b_next (bs' x) = b_next (bs x)" "\<And>x. b_prev (bs' x) = b_prev (bs x)"
  shows "rings bs' B \<longleftrightarrow> rings bs B"
  using seg_cong [of _ _ bs' bs] assms by (simp add: rings_def ring_def)

lemma rings_del:
  assumes r: "rings bs B" and n: "n < NBUCKETS" and b: "b \<in> set (B n)"
  shows "rings (buf_del b bs) (B(n := remove1 b (B n)))"
proof -
  obtain xs ys where bn: "B n = xs @ b # ys" "b \<notin> set xs" using b by (meson split_list_first)
  have n_ring: "ring bs n (xs @ b # ys)" using r n by (simp add: rings_def flip: bn(1))
  then have rm: "remove1 b (B n) = xs @ ys" by (simp add: bn remove1_append)
  have dis: "set (B j) \<inter> set (xs @ b # ys) = {}" if "j < NBUCKETS" "j \<noteq> n" for j
    using r n that unfolding rings_def bn(1) [symmetric] by blast
  have "ring (buf_del b bs) j ((B(n := xs @ ys)) j)" if "j < NBUCKETS" for j
    using ring_buf_del [OF n_ring] ring_buf_del_other [OF n_ring _ _ dis] r that by (simp add: rings_def)
  moreover have "set (xs @ ys) \<subseteq> set (B n)" by (auto simp: bn)
  ultimately show ?thesis using r n unfolding rm rings_def by (auto; blast)
qed

lemma rings_ins:
  assumes r: "rings bs B" and i: "i < NBUCKETS" and b: "\<And>j. j < NBUCKETS \<Longrightarrow> b \<notin> set (B j)" "\<forall>j. b \<noteq> BHead j"
  shows "rings (buf_ins i b bs) (B(i := b # B i))"
proof -
  have ri: "ring bs i (B i)" using r i by (simp add: rings_def)
  have "ring (buf_ins i b bs) j ((B(i := b # B i)) j)" if j: "j < NBUCKETS" for j
  proof (cases "j = i")
    case True
    then show ?thesis using ring_buf_ins [OF ri b(1) [OF i] b(2)] by simp
  next
    case False
    have "set (B j) \<inter> set (B i) = {}" using r i j False by (simp add: rings_def)
    then show ?thesis using ring_buf_ins_other [OF ri _ False _ b(1) [OF j] b(2)] r j False by (simp add: rings_def)
  qed
  then show ?thesis using r b i unfolding rings_def by auto
qed

text \<open>
  What the cache relies on: an array of lists without common elements, from which an element can be
  removed and into which it can be put at the front.
\<close>

locale list_array =
  fixes lists :: "'h \<Rightarrow> (nat \<Rightarrow> 'b list) \<Rightarrow> bool"
    and ins :: "nat \<Rightarrow> 'b \<Rightarrow> 'h \<Rightarrow> 'h"
    and del :: "'b \<Rightarrow> 'h \<Rightarrow> 'h"
    and num :: nat
    and elem :: "'b \<Rightarrow> bool"
  assumes distinct_lists: "lists h B \<Longrightarrow> i < num \<Longrightarrow> distinct (B i)"
    and disjoint_lists: "lists h B \<Longrightarrow> i < num \<Longrightarrow> j < num \<Longrightarrow> i \<noteq> j \<Longrightarrow> set (B i) \<inter> set (B j) = {}"
    and elem_lists: "lists h B \<Longrightarrow> i < num \<Longrightarrow> b \<in> set (B i) \<Longrightarrow> elem b"
    and lists_del: "lists h B \<Longrightarrow> i < num \<Longrightarrow> b \<in> set (B i) \<Longrightarrow> lists (del b h) (B(i := remove1 b (B i)))"
    and lists_ins: "lists h B \<Longrightarrow> i < num \<Longrightarrow> (\<And>j. j < num \<Longrightarrow> b \<notin> set (B j)) \<Longrightarrow> elem b \<Longrightarrow>
      lists (ins i b h) (B(i := b # B i))"
begin

lemma only_there:
  assumes "lists h B" "i < num" "b \<in> set (B i)" "j < num"
  shows "b \<notin> set ((B(i := remove1 b (B i))) j)"
  using assms distinct_lists [OF assms(1,2)] disjoint_lists [OF assms(1,2,4)] by auto

lemma lists_front:
  assumes "lists h B" "i < num" "b \<in> set (B i)"
  shows "lists (ins i b (del b h)) (B(i := b # remove1 b (B i)))"
proof -
  let ?B = "B(i := remove1 b (B i))"
  have "lists (ins i b (del b h)) (?B(i := b # ?B i))"
    by (rule lists_ins [OF lists_del [OF assms] assms(2) _ elem_lists [OF assms]]) (rule only_there [OF assms])
  then show ?thesis by simp
qed

lemma lists_move:
  assumes "lists h B" "n < num" "b \<in> set (B n)" "i < num" "i \<noteq> n"
  shows "lists (ins i b (del b h)) (B(n := remove1 b (B n), i := b # B i))"
proof -
  let ?B = "B(n := remove1 b (B n))"
  have "lists (ins i b (del b h)) (?B(i := b # ?B i))"
    by (rule lists_ins [OF lists_del [OF assms(1-3)] assms(4) _ elem_lists [OF assms(1-3)]])
      (rule only_there [OF assms(1-3)])
  then show ?thesis using assms(5) by simp
qed

end

interpretation buckets: list_array rings buf_ins buf_del NBUCKETS "\<lambda>b. \<forall>j. b \<noteq> BHead j"
  by unfold_locales (rule rings_del rings_ins; blast | force simp: rings_def ring_def)+

text \<open>
  The invariant of the cache: the lists of the buckets hold every buffer once, on the list its block number
  hashes to, and a block of a device (0 is none) is in at most one buffer.
\<close>

definition one_copy :: "(bufptr \<Rightarrow> buf) \<Rightarrow> bool" where
  "one_copy bs \<longleftrightarrow> (\<forall>b \<in> BBuf ` {..<NBUF}. \<forall>c \<in> BBuf ` {..<NBUF}. b_dev (bs b) \<noteq> 0 \<longrightarrow> b_dev (bs b) = b_dev (bs c) \<longrightarrow>
     b_blockno (bs b) = b_blockno (bs c) \<longrightarrow> b = c)"

definition cache_ok :: "(bufptr \<Rightarrow> buf) \<Rightarrow> (nat \<Rightarrow> bufptr list) \<Rightarrow> bool" where
  "cache_ok bs B \<longleftrightarrow> rings bs B \<and> (\<Union>i < NBUCKETS. set (B i)) = BBuf ` {..<NBUF}
     \<and> (\<forall>i < NBUCKETS. \<forall>b \<in> set (B i). bucket (b_blockno (bs b)) = i) \<and> one_copy bs"

lemma unat_getIndex: "unat (getIndex x) = unat x mod 53"
proof -
  have "unat x mod 53 < 256" using mod_less_divisor [of 53 "unat x"] by linarith
  then show ?thesis by (simp add: getIndex_def unsigned_ucast_eq unat_mod take_bit_nat_eq_self)
qed

lemma bucket_less [simp]: "bucket x < NBUCKETS"
  by (simp add: unat_getIndex)

lemma cache_ok_ring: "cache_ok bs B \<Longrightarrow> i < NBUCKETS \<Longrightarrow> ring bs i (B i)"
  by (simp add: cache_ok_def rings_def)

text \<open>The buffer of a block, and the unused buffer that \<^verbatim>\<open>bget\<close> takes for bucket \<open>i\<close>.\<close>

definition cached :: "(bufptr \<Rightarrow> buf) \<Rightarrow> (nat \<Rightarrow> bufptr list) \<Rightarrow> uint32 \<Rightarrow> uint32 \<Rightarrow> bufptr option" where
  "cached bs B dev blockno = find (\<lambda>b. b_dev (bs b) = dev \<and> b_blockno (bs b) = blockno) (B (bucket blockno))"

definition unused_in :: "(bufptr \<Rightarrow> buf) \<Rightarrow> (nat \<Rightarrow> bufptr list) \<Rightarrow> nat \<Rightarrow> bufptr option" where
  "unused_in bs B n = find (\<lambda>b. b_refcnt (bs b) = 0) (rev (B n))"

fun unused :: "(bufptr \<Rightarrow> buf) \<Rightarrow> (nat \<Rightarrow> bufptr list) \<Rightarrow> nat list \<Rightarrow> (nat \<times> bufptr) option" where
  "unused bs B [] = None"
| "unused bs B (n # ns) = (case unused_in bs B n of Some b \<Rightarrow> Some (n, b) | None \<Rightarrow> unused bs B ns)"

section \<open>The searches\<close>

lemma find_cached_unfold:
  "find_cached i dev blockno b =
     (if b = BHead i then ret None
      else bnd (gets (\<lambda>s. bufs s b)) (\<lambda>x.
           if b_dev x = dev \<and> b_blockno x = blockno then ret (Some b)
           else find_cached i dev blockno (b_next x)))"
  by (intro ext, subst find_cached.simps) simp

lemma find_free_unfold:
  "find_free i b =
     (if b = BHead i then ret None
      else bnd (gets (\<lambda>s. bufs s b)) (\<lambda>x.
           if b_refcnt x = 0 then ret (Some b)
           else find_free i (b_prev x)))"
  by (intro ext, subst find_free.simps) simp

lemma ends_find_cached:
  assumes "seg (bufs s) p xs (BHead i)" "BHead i \<notin> set xs" "b = b_next (bufs s p)"
    and "Q (find (\<lambda>b. b_dev (bufs s b) = dev \<and> b_blockno (bufs s b) = blockno) xs) s"
  shows "ends E s (find_cached i dev blockno b) Q"
  using assms
proof (induction xs arbitrary: p b)
  case Nil
  then show ?case by (subst find_cached_unfold) (simp add: ends_ret)
next
  case (Cons x xs)
  then show ?case
    by (subst find_cached_unfold) (auto intro!: ends_bnd ends_gets ends_ret simp: lk_fields)
qed

lemma ends_find_free:
  assumes "seg (bufs s) (BHead i) xs q" "BHead i \<notin> set xs" "b = b_prev (bufs s q)"
    and "Q (find (\<lambda>b. b_refcnt (bufs s b) = 0) (rev xs)) s"
  shows "ends E s (find_free i b) Q"
  using assms
proof (induction xs arbitrary: q b rule: rev_induct)
  case Nil
  then show ?case by (subst find_free_unfold) (simp add: ends_ret)
next
  case (snoc x xs)
  have "seg (bufs s) (BHead i) xs x" and "b = x"
    using snoc.prems(1,3) by (simp_all add: seg_append)
  then show ?case
    using snoc.IH [of x "b_prev (bufs s x)"] snoc.prems
    by (subst find_free_unfold) (auto intro!: ends_bnd ends_gets ends_ret simp: lk_fields)
qed

section \<open>Recycling a buffer\<close>

definition others :: "nat \<Rightarrow> nat list" where
  "others i = map (\<lambda>k. (i + 1 + k) mod NBUCKETS) [0..<52]"

definition taken :: "uint32 \<Rightarrow> uint32 \<Rightarrow> nat \<Rightarrow> bufptr \<Rightarrow> (bufptr \<Rightarrow> buf) \<Rightarrow> bufptr \<Rightarrow> buf" where
  "taken dev blockno i b bs =
     buf_ins i b (buf_del b (bs(b := (bs b)\<lparr>b_dev := dev, b_blockno := blockno, b_valid := False, b_refcnt := 1\<rparr>)))"

lemma ends_take_over:
  assumes "uncontended E" "cpu_ok s" "cproc (cpus s (tp s)) = Some p" "\<forall>l. locked (locks s l) = 0" "i \<noteq> n"
    and "sl_locked (slks s (BufSleep b)) = 0"
    and "Q b (s\<lparr>bufs := taken dev blockno i b (bufs s),
      slks := (slks s)(BufSleep b := (slks s (BufSleep b))\<lparr>sl_locked := 1, sl_pid := p_pid (procs s p)\<rparr>)\<rparr>)"
  shows "ends E (acquired (BcacheLock n) (acquired (BcacheLock i) s)) (take_over dev blockno i n b) Q"
  unfolding take_over_def using assms
  by (intro kends ends_acquiresleep [where p = p]; clarsimp simp: lk_fields cpu_ok_acquired taken_def)+

lemma recycle_unfold:
  "recycle dev blockno idx nextIdx =
     (if nextIdx = idx then panic ''bget: no buffers''
      else thn (acquire (BcacheLock (unat nextIdx))) (
           bnd (gets (\<lambda>s. b_prev (bufs s (BHead (unat nextIdx))))) (\<lambda>lru.
           bnd (find_free (unat nextIdx) lru) (\<lambda>r.
           case r of
             None \<Rightarrow>
               thn (release (BcacheLock (unat nextIdx))) (
               recycle dev blockno idx (getIndex (ucast nextIdx + 1)))
           | Some b \<Rightarrow> take_over dev blockno (unat idx) (unat nextIdx) b))))"
  by (intro ext, subst recycle.simps) simp

text \<open>The buckets in the order of the loop.\<close>

lemma next_index: "unat n < NBUCKETS \<Longrightarrow> unat (getIndex (ucast (n :: uint8) + 1)) = (unat n + 1) mod NBUCKETS"
proof -
  assume n: "unat n < NBUCKETS"
  have "unat (ucast n + 1 :: uint32) = unat n + 1"
    using n by (simp add: unat_word_ariths unsigned_ucast_eq take_bit_nat_eq_self)
  then show ?thesis by (simp add: unat_getIndex)
qed

lemma others_round:
  assumes "i < NBUCKETS" "j \<le> 52"
  shows "(i + 1 + j) mod NBUCKETS = i \<longleftrightarrow> j = 52"
proof (cases "i + 1 + j < NBUCKETS")
  case True
  then show ?thesis using assms by simp
next
  case False
  then have "(i + 1 + j) mod NBUCKETS = i + 1 + j - NBUCKETS"
    using assms by (simp add: mod_if)
  then show ?thesis using assms False by auto
qed

lemma length_others: "length (others i) = 52"
  by (simp only: others_def length_map length_upt diff_zero)

lemma nth_others: "j < 52 \<Longrightarrow> others i ! j = (i + 1 + j) mod NBUCKETS"
  unfolding others_def using nth_upt [of 0 j 52] by (simp only: nth_map length_upt diff_zero add_0)

lemma others_drop: "j < 52 \<Longrightarrow> drop j (others i) = (i + 1 + j) mod NBUCKETS # drop (Suc j) (others i)"
  using Cons_nth_drop_Suc [of j "others i"] by (simp add: length_others nth_others)

text \<open>
  One turn of the loop at a bucket \<open>n\<close> other than \<open>i\<close>, for runs that return and for runs that panic.
\<close>

lemma recycle_turn:
  assumes e: "uncontended E" "cpu_ok s" "\<forall>l. locked (locks s l) = 0" and r: "ring (bufs s) n (B n)"
    and n: "unat nextIdx = n" "unat idx = i" "n \<noteq> i"
  shows "unused_in (bufs s) B n = None \<Longrightarrow>
      ends E (acquired (BcacheLock i) s) (recycle dev blockno idx (getIndex (ucast nextIdx + 1))) Q \<Longrightarrow>
      ends E (acquired (BcacheLock i) s) (recycle dev blockno idx nextIdx) Q"
    and "unused_in (bufs s) B n = Some b \<Longrightarrow>
      ends E (acquired (BcacheLock n) (acquired (BcacheLock i) s)) (take_over dev blockno i n b) Q \<Longrightarrow>
      ends E (acquired (BcacheLock i) s) (recycle dev blockno idx nextIdx) Q"
    and "unused_in (bufs s) B n = None \<Longrightarrow>
      fails E (acquired (BcacheLock i) s) (recycle dev blockno idx (getIndex (ucast nextIdx + 1))) msg \<Longrightarrow>
      fails E (acquired (BcacheLock i) s) (recycle dev blockno idx nextIdx) msg"
proof -
  have ne: "nextIdx \<noteq> idx" using n by auto
  have seg: "seg (bufs s) (BHead n) (B n) (BHead n)" "BHead n \<notin> set (B n)" using r by (auto simp: ring_def)
  show "ends E (acquired (BcacheLock i) s) (recycle dev blockno idx nextIdx) Q"
    if "unused_in (bufs s) B n = None"
      "ends E (acquired (BcacheLock i) s) (recycle dev blockno idx (getIndex (ucast nextIdx + 1))) Q"
    by (subst recycle_unfold)
      (use that e ne n seg in \<open>auto intro!: kends ends_find_free simp: unused_in_def lk_fields cpu_ok_acquired\<close>)
  show "ends E (acquired (BcacheLock i) s) (recycle dev blockno idx nextIdx) Q"
    if "unused_in (bufs s) B n = Some b"
      "ends E (acquired (BcacheLock n) (acquired (BcacheLock i) s)) (take_over dev blockno i n b) Q"
    by (subst recycle_unfold)
      (use that e ne n seg in \<open>auto intro!: kends ends_find_free simp: unused_in_def lk_fields cpu_ok_acquired\<close>)
  show "fails E (acquired (BcacheLock i) s) (recycle dev blockno idx nextIdx) msg"
    if "unused_in (bufs s) B n = None"
      "fails E (acquired (BcacheLock i) s) (recycle dev blockno idx (getIndex (ucast nextIdx + 1))) msg"
    by (subst recycle_unfold)
      (use that e ne n seg in \<open>auto intro!: fails_thn fails_bnd kends ends_find_free simp: unused_in_def lk_fields cpu_ok_acquired\<close>)
qed

lemma recycle_loop:
  assumes e: "uncontended E" "cpu_ok s" "\<forall>l. locked (locks s l) = 0" and r: "rings (bufs s) B"
    and i: "unat idx = i" "i < NBUCKETS" and j: "j \<le> 52" "unat nextIdx = (i + 1 + j) mod NBUCKETS"
  shows "unused (bufs s) B (drop j (others i)) = Some (n, b) \<Longrightarrow>
      ends E (acquired (BcacheLock n) (acquired (BcacheLock i) s)) (take_over dev blockno i n b) Q \<Longrightarrow>
      ends E (acquired (BcacheLock i) s) (recycle dev blockno idx nextIdx) Q"
    and "unused (bufs s) B (drop j (others i)) = None \<Longrightarrow>
      fails E (acquired (BcacheLock i) s) (recycle dev blockno idx nextIdx) ''bget: no buffers''"
  using j
proof (induction "52 - j" arbitrary: j nextIdx)
  case 0
  {
    case 1
    then show ?case using 0 by (simp add: length_others)
  next
    case 2
    then have "nextIdx = idx" using 0 i others_round [of i j] by (auto simp: word_unat_eq_iff)
    then show ?case by (subst recycle_unfold) (simp add: fails_panic)
  }
next
  case (Suc d)
  let ?m = "(i + 1 + j) mod NBUCKETS"
  have d: "d = 52 - Suc j" "Suc j \<le> 52" "j < 52" using Suc by auto
  {
    case 1
    have m: "?m \<noteq> i" "ring (bufs s) ?m (B ?m)" using others_round [of i j] i d r by (auto simp: rings_def)
    have nx: "unat (getIndex (ucast nextIdx + 1)) = (i + 1 + Suc j) mod NBUCKETS"
      using next_index [of nextIdx] 1(4) by (simp add: mod_Suc_eq)
    show ?case
      using recycle_turn(1,2) [where B = B, OF e m(2) 1(4) i(1) m(1)] Suc.hyps(1) [OF d(1) _ _ d(2) nx] 1(1,2) others_drop [OF d(3), of i]
      by (auto split: option.splits)
  next
    case 2
    have m: "?m \<noteq> i" "ring (bufs s) ?m (B ?m)" using others_round [of i j] i d r by (auto simp: rings_def)
    have nx: "unat (getIndex (ucast nextIdx + 1)) = (i + 1 + Suc j) mod NBUCKETS"
      using next_index [of nextIdx] 2(3) by (simp add: mod_Suc_eq)
    show ?case
      using recycle_turn(3) [where B = B, OF e m(2) 2(3) i(1) m(1)] Suc.hyps(2) [OF d(1) _ d(2) nx] 2(1) others_drop [OF d(3), of i]
      by (auto split: option.splits)
  }
qed

lemma unused_Some:
  "unused bs B ns = Some (n, b) \<Longrightarrow> n \<in> set ns \<and> b \<in> set (B n) \<and> b_refcnt (bs b) = 0"
proof (induction ns)
  case (Cons m ns)
  then show ?case
    by (auto simp: unused_in_def split: option.splits dest: find_SomeD)
qed simp

lemma unused_None: "unused bs B ns = None \<longleftrightarrow> (\<forall>n \<in> set ns. \<forall>b \<in> set (B n). b_refcnt (bs b) \<noteq> 0)"
  by (induction ns) (fastforce simp: unused_in_def find_None_iff split: option.splits dest: find_SomeD)+

lemma set_others: "i < NBUCKETS \<Longrightarrow> set (others i) = {..<NBUCKETS} - {i}"
proof (intro equalityI subsetI)
  fix n
  assume i: "i < NBUCKETS" and "n \<in> {..<NBUCKETS} - {i}"
  then have n: "n < NBUCKETS" "n \<noteq> i" by auto
  let ?j = "if i < n then n - i - 1 else n + 52 - i"
  have "?j < 52" "(i + 1 + ?j) mod NBUCKETS = n" using i n by (auto simp: mod_if)
  then show "n \<in> set (others i)" by (metis in_set_conv_nth length_others nth_others)
next
  fix n
  assume i: "i < NBUCKETS" and "n \<in> set (others i)"
  then obtain j where "j < 52" "n = (i + 1 + j) mod NBUCKETS" by (metis in_set_conv_nth length_others nth_others)
  then show "n \<in> {..<NBUCKETS} - {i}" using others_round [OF i, of j] by auto
qed

lemma taken_data [simp]:
  "b_dev (taken dev blockno i b bs x) = (if x = b then dev else b_dev (bs x))"
  "b_blockno (taken dev blockno i b bs x) = (if x = b then blockno else b_blockno (bs x))"
  "b_valid (taken dev blockno i b bs x) = (x \<noteq> b \<and> b_valid (bs x))"
  "b_refcnt (taken dev blockno i b bs x) = (if x = b then 1 else b_refcnt (bs x))"
  "b_data (taken dev blockno i b bs x) = b_data (bs x)"
  "b_disk (taken dev blockno i b bs x) = b_disk (bs x)"
  by (simp_all add: taken_def)

lemma not_cached:
  assumes ok: "cache_ok bs B" and miss: "cached bs B dev blockno = None" and c: "c \<in> BBuf ` {..<NBUF}"
  shows "b_dev (bs c) \<noteq> dev \<or> b_blockno (bs c) \<noteq> blockno"
proof (rule ccontr)
  assume eq: "\<not> ?thesis"
  have "c \<in> (\<Union>i < NBUCKETS. set (B i))" using ok c by (simp add: cache_ok_def)
  then obtain j where j: "j < NBUCKETS" "c \<in> set (B j)" by auto
  then have "bucket (b_blockno (bs c)) = j" using ok by (simp add: cache_ok_def)
  then have "c \<in> set (B (bucket blockno))" using j eq by simp
  then show False using miss eq unfolding cached_def find_None_iff by blast
qed

lemma cache_ok_taken:
  assumes ok: "cache_ok bs B" and n: "n < NBUCKETS" "n \<noteq> i" "b \<in> set (B n)" and i: "i = bucket blockno"
    and miss: "cached bs B dev blockno = None" and dev: "dev \<noteq> 0"
  shows "cache_ok (taken dev blockno i b bs) (B(n := remove1 b (B n), i := b # B i))"
proof -
  let ?bs = "bs(b := (bs b)\<lparr>b_dev := dev, b_blockno := blockno, b_valid := False, b_refcnt := 1\<rparr>)"
  have rings: "rings bs B" and cover: "(\<Union>i < NBUCKETS. set (B i)) = BBuf ` {..<NBUF}"
    and hash: "\<forall>i < NBUCKETS. \<forall>b \<in> set (B i). bucket (b_blockno (bs b)) = i"
    using ok by (auto simp: cache_ok_def)
  have i53: "i < NBUCKETS" using i by simp
  have "rings ?bs B" using rings by (subst rings_links [of _ bs]) auto
  then have r: "rings (taken dev blockno i b bs) (B(n := remove1 b (B n), i := b # B i))"
    unfolding taken_def using n i53 by (intro buckets.lists_move) auto
  have dis: "distinct (B n)" using buckets.distinct_lists [OF rings n(1)] .
  have only_n: "b \<notin> set (B j)" if "j < NBUCKETS" "j \<noteq> n" for j
    using buckets.disjoint_lists [OF rings that(1) n(1) that(2)] n(3) by blast
  have sets: "set ((B(n := remove1 b (B n), i := b # B i)) j) =
      (if j = i then insert b (set (B i)) else if j = n then set (B n) - {b} else set (B j))" for j
    using n dis by simp
  have "(\<Union>j < NBUCKETS. set ((B(n := remove1 b (B n), i := b # B i)) j)) = BBuf ` {..<NBUF}"
    unfolding sets cover [symmetric] using n i53 by (auto split: if_splits)
  moreover have "\<forall>j < NBUCKETS. \<forall>c \<in> set ((B(n := remove1 b (B n), i := b # B i)) j). bucket (b_blockno (taken dev blockno i b bs c)) = j"
    unfolding sets using hash i n only_n by (auto split: if_splits)
  moreover have "one_copy (taken dev blockno i b bs)"
    using ok not_cached [OF ok miss] by (auto simp: one_copy_def cache_ok_def)
  ultimately show ?thesis using r by (simp add: cache_ok_def)
qed

lemma first_index: "blockno \<noteq> - 1 \<Longrightarrow> unat (getIndex (blockno + 1)) = (bucket blockno + 1 + 0) mod NBUCKETS"
proof -
  assume "blockno \<noteq> - 1"
  then have "unat blockno \<noteq> 2 ^ 32 - 1"
    by (simp add: word_unat_eq_iff unsigned_minus_1_eq_mask mask_eq_exp_minus_1)
  then have "unat (blockno + 1) = unat blockno + 1"
    using unat_less32 [of blockno] by (simp add: unat_word_ariths)
  then show ?thesis by (simp add: unat_getIndex mod_Suc_eq)
qed

text \<open>The lookup in the own bucket, before a run that returns and before one that panics.\<close>

lemma bget_lookup:
  assumes e: "uncontended E" "cpu_ok s" "\<forall>l. locked (locks s l) = 0" and ok: "cache_ok (bufs s) B"
  shows "cached (bufs s) B dev blockno = Some b \<Longrightarrow>
      ends E (s\<lparr>bufs := (bufs s)(b := (bufs s b)\<lparr>b_refcnt := b_refcnt (bufs s b) + 1\<rparr>)\<rparr>) (thn (acquiresleep (BufSleep b)) (ret b)) Q \<Longrightarrow>
      ends E s (bget dev blockno) Q"
    and "cached (bufs s) B dev blockno = None \<Longrightarrow>
      ends E (acquired (BcacheLock (bucket blockno)) s) (recycle dev blockno (getIndex blockno) (getIndex (blockno + 1))) Q \<Longrightarrow>
      ends E s (bget dev blockno) Q"
    and "cached (bufs s) B dev blockno = None \<Longrightarrow>
      fails E (acquired (BcacheLock (bucket blockno)) s) (recycle dev blockno (getIndex blockno) (getIndex (blockno + 1))) msg \<Longrightarrow>
      fails E s (bget dev blockno) msg"
proof -
  let ?i = "bucket blockno"
  have seg: "seg (bufs s) (BHead ?i) (B ?i) (BHead ?i)" "BHead ?i \<notin> set (B ?i)"
    using cache_ok_ring [OF ok bucket_less] by (auto simp: ring_def)
  show "ends E s (bget dev blockno) Q"
    if "cached (bufs s) B dev blockno = Some b"
      "ends E (s\<lparr>bufs := (bufs s)(b := (bufs s b)\<lparr>b_refcnt := b_refcnt (bufs s b) + 1\<rparr>)\<rparr>) (thn (acquiresleep (BufSleep b)) (ret b)) Q"
    unfolding bget_def Let_def
    by (intro ends_thn ends_bnd ends_acquire ends_gets ends_find_cached [where p = "BHead ?i" and xs = "B ?i"])
      (use that e seg in \<open>auto intro!: ends_release_same ends_upd_buf ends_thn [of _ _ "upd_buf _ _"] ends_thn [of _ _ "release _"]
        simp: lk_fields cached_def\<close>)
  show "ends E s (bget dev blockno) Q"
    if "cached (bufs s) B dev blockno = None"
      "ends E (acquired (BcacheLock ?i) s) (recycle dev blockno (getIndex blockno) (getIndex (blockno + 1))) Q"
    unfolding bget_def Let_def
    by (intro ends_thn ends_bnd ends_acquire ends_gets ends_find_cached [where p = "BHead ?i" and xs = "B ?i"])
      (use that e seg in \<open>auto simp: lk_fields cached_def\<close>)
  show "fails E s (bget dev blockno) msg"
    if "cached (bufs s) B dev blockno = None"
      "fails E (acquired (BcacheLock ?i) s) (recycle dev blockno (getIndex blockno) (getIndex (blockno + 1))) msg"
    unfolding bget_def Let_def
    by (intro fails_thn fails_bnd ends_acquire ends_gets ends_find_cached [where p = "BHead ?i" and xs = "B ?i"])
      (use that e seg in \<open>auto simp: lk_fields cached_def\<close>)
qed

lemma cache_ok_data:
  assumes "cache_ok bs B" "\<And>x. b_next (bs' x) = b_next (bs x)" "\<And>x. b_prev (bs' x) = b_prev (bs x)"
    and "\<And>x. b_dev (bs' x) = b_dev (bs x)" "\<And>x. b_blockno (bs' x) = b_blockno (bs x)"
  shows "cache_ok bs' B"
  using assms rings_links [of bs' bs B] by (simp add: cache_ok_def one_copy_def)

lemma cached_cong:
  assumes "\<And>x. b_dev (bs' x) = b_dev (bs x)" "\<And>x. b_blockno (bs' x) = b_blockno (bs x)"
  shows "cached bs' B dev blockno = cached bs B dev blockno"
  by (simp add: cached_def assms)

lemma cache_ok_front:
  assumes ok: "cache_ok bs B" and i: "i = bucket (b_blockno (bs b))" and b: "b \<in> BBuf ` {..<NBUF}"
  shows "cache_ok (buf_ins i b (buf_del b bs)) (B(i := b # remove1 b (B i)))"
proof -
  have "b \<in> (\<Union>i < NBUCKETS. set (B i))" using ok b by (simp add: cache_ok_def)
  then obtain j where j: "j < NBUCKETS" "b \<in> set (B j)" by auto
  then have "j = i" using ok i by (simp add: cache_ok_def)
  then have bi: "b \<in> set (B i)" "i < NBUCKETS" using j by auto
  have r: "rings bs B" using ok by (simp add: cache_ok_def)
  have "set ((B(i := b # remove1 b (B i))) j) = set (B j)" for j
    using r bi by (auto simp: rings_def ring_def)
  then show ?thesis
    using ok buckets.lists_front [OF r bi(2,1)] by (simp add: cache_ok_def one_copy_def)
qed

section \<open>Initialisation\<close>

text \<open>What \<^verbatim>\<open>binit\<close> needs of the machine while \<open>n\<close> locks are still to be initialised.\<close>

definition boot_ready :: "nat \<Rightarrow> 'z disk_state_scheme \<Rightarrow> bool" where
  "boot_ready n s \<longleftrightarrow> cpu_ok s \<and> locked (locks s LockLocks) = 0 \<and> n \<le> card (free_slots s)"

lemma boot_ready_buf [simp]: "boot_ready n (s\<lparr>bufs := bs\<rparr>) = boot_ready n s" "boot_ready n (s\<lparr>slks := x\<rparr>) = boot_ready n s"
  by (simp_all add: boot_ready_def cpu_room_def intr_enabled_def free_slots_def)

lemma more_eq_bufs: "machine.more t = machine.more s \<Longrightarrow> bufs t = bufs s"
  by (cases t; cases s) simp

lemma returns_initlock_boot:
  assumes "uncontended E" "boot_ready (Suc n) s" "l \<noteq> LockLocks"
  shows "returns E s (initlock l name) (\<lambda>_ t. boot_ready n t \<and> bufs t = bufs (s :: 'z disk_state_scheme))"
proof -
  have "free_slots s \<noteq> {}" using assms(2) by (auto simp: boot_ready_def)
  then obtain j where j: "j < NLOCK" "locktab s j = None" by (auto simp: free_slots_def)
  show ?thesis
  proof (rule returns_mono [OF returns_initlock [OF assms(1) _ _ j assms(3)]])
    fix t :: "'z disk_state_scheme"
    assume "lock_inited l s t"
    note t = lock_inited_simps [OF this]
    show "boot_ready n t \<and> bufs t = bufs s"
      using t(2,6) t(5) [of LockLocks] more_eq_bufs [OF t(3)] assms(2,3) by (simp add: boot_ready_def)
  qed (use assms(2) in \<open>simp_all add: boot_ready_def\<close>)
qed

lemma returns_initsleeplock_boot:
  assumes "uncontended E" "boot_ready (Suc n) s"
  shows "returns E s (initsleeplock i name) (\<lambda>_ t. boot_ready n t \<and> bufs t = bufs (s :: 'z disk_state_scheme))"
  unfolding initsleeplock_def returns_thn
  by (rule returns_mono [OF returns_initlock_boot [OF assms]]) (simp_all add: kwp upd_slk_def)

text \<open>The lists when the first \<open>k\<close> buffers are linked in.\<close>

definition binit_lists :: "nat \<Rightarrow> nat \<Rightarrow> bufptr list" where
  "binit_lists k i = (if i = 0 then rev (map BBuf [0..<k]) else [])"

lemma binit_lists_Suc: "binit_lists (Suc k) = (binit_lists k)(0 := BBuf k # binit_lists k 0)"
  by (simp add: binit_lists_def fun_eq_iff)

lemma rings_empty: "(\<forall>i < NBUCKETS. b_next (bs (BHead i)) = BHead i \<and> b_prev (bs (BHead i)) = BHead i) \<Longrightarrow> rings bs (binit_lists 0)"
  by (simp add: rings_def ring_def binit_lists_def)

definition same_blocks :: "(bufptr \<Rightarrow> buf) \<Rightarrow> (bufptr \<Rightarrow> buf) \<Rightarrow> bool" where
  "same_blocks bs bs' \<longleftrightarrow> (\<forall>b. b_dev (bs' b) = b_dev (bs b) \<and> b_blockno (bs' b) = b_blockno (bs b) \<and> b_refcnt (bs' b) = b_refcnt (bs b))"

lemma returns_binit:
  assumes E: "uncontended E" and s: "boot_ready (NBUCKETS + NBUF) (s :: 'z disk_state_scheme)"
  shows "returns E s binit (\<lambda>_ t. rings (bufs t) (binit_lists NBUF) \<and> same_blocks (bufs s) (bufs t))"
proof -
  define I where "I i t \<longleftrightarrow> boot_ready (NBUF + (NBUCKETS - i)) t \<and> same_blocks (bufs s) (bufs t) \<and>
    (\<forall>j < i. b_next (bufs t (BHead j)) = BHead j \<and> b_prev (bufs t (BHead j)) = BHead j)" for i and t :: "'z disk_state_scheme"
  define J where "J k t \<longleftrightarrow> boot_ready (NBUF - k) t \<and> same_blocks (bufs s) (bufs t) \<and> rings (bufs t) (binit_lists k)"
    for k and t :: "'z disk_state_scheme"
  have heads: "returns E s (forK [0..<NBUCKETS] (\<lambda>i.
            thn (initlock (BcacheLock i) ''bcache'') (
            thn (upd_buf (BHead i) (\<lambda>x. x\<lparr>b_prev := BHead i\<rparr>)) (
            upd_buf (BHead i) (\<lambda>x. x\<lparr>b_next := BHead i\<rparr>))))) (\<lambda>_. I NBUCKETS)"
  proof (rule returns_forK_upt)
    show "I 0 s" using s by (simp add: I_def same_blocks_def)
  next
    fix i and t :: "'z disk_state_scheme"
    assume i: "i < NBUCKETS" and I: "I i t"
    then have "NBUF + (NBUCKETS - i) = Suc (NBUF + (NBUCKETS - Suc i))" by simp
    then have r: "boot_ready (Suc (NBUF + (NBUCKETS - Suc i))) t" using I by (simp add: I_def)
    show "returns E t (thn (initlock (BcacheLock i) ''bcache'') (
            thn (upd_buf (BHead i) (\<lambda>x. x\<lparr>b_prev := BHead i\<rparr>)) (
            upd_buf (BHead i) (\<lambda>x. x\<lparr>b_next := BHead i\<rparr>)))) (\<lambda>_. I (Suc i))"
      unfolding returns_thn
      by (rule returns_mono [OF returns_initlock_boot [OF E r]])
        (use I in \<open>auto simp: kwp upd_buf_def I_def same_blocks_def less_Suc_eq\<close>)
  qed
  have bufs: "returns E t (forK [0..<NBUF] (\<lambda>k.
       let b = BBuf k in
       bnd (gets (\<lambda>s. b_next (bufs s (BHead 0)))) (\<lambda>first.
       thn (upd_buf b (\<lambda>x. x\<lparr>b_next := first\<rparr>)) (
       thn (upd_buf b (\<lambda>x. x\<lparr>b_prev := BHead 0\<rparr>)) (
       thn (initsleeplock (BufSleep b) ''buffer'') (
       bnd (gets (\<lambda>s. b_next (bufs s (BHead 0)))) (\<lambda>first2.
       thn (upd_buf first2 (\<lambda>x. x\<lparr>b_prev := b\<rparr>)) (
       upd_buf (BHead 0) (\<lambda>x. x\<lparr>b_next := b\<rparr>))))))))) (\<lambda>_. J NBUF)" if "I NBUCKETS t" for t
  proof (rule returns_forK_upt)
    show "J 0 t" using that by (simp add: I_def J_def rings_empty)
  next
    fix k and u :: "'z disk_state_scheme"
    assume k: "k < NBUF" and J: "J k u"
    then have "NBUF - k = Suc (NBUF - Suc k)" by simp
    then have r: "boot_ready (Suc (NBUF - Suc k)) u" using J by (simp add: J_def)
    have "rings (buf_ins 0 (BBuf k) (bufs u)) (binit_lists (Suc k))"
      unfolding binit_lists_Suc using J by (intro rings_ins) (auto simp: J_def binit_lists_def)
    moreover have "same_blocks (bufs s) (buf_ins 0 (BBuf k) (bufs u))" using J by (simp add: J_def same_blocks_def)
    ultimately show "returns E u (let b = BBuf k in
       bnd (gets (\<lambda>s. b_next (bufs s (BHead 0)))) (\<lambda>first.
       thn (upd_buf b (\<lambda>x. x\<lparr>b_next := first\<rparr>)) (
       thn (upd_buf b (\<lambda>x. x\<lparr>b_prev := BHead 0\<rparr>)) (
       thn (initsleeplock (BufSleep b) ''buffer'') (
       bnd (gets (\<lambda>s. b_next (bufs s (BHead 0)))) (\<lambda>first2.
       thn (upd_buf first2 (\<lambda>x. x\<lparr>b_prev := b\<rparr>)) (
       upd_buf (BHead 0) (\<lambda>x. x\<lparr>b_next := b\<rparr>)))))))) (\<lambda>_. J (Suc k))"
      unfolding Let_def kwp upd_buf_def
      by (intro returns_mono [OF returns_initsleeplock_boot [OF E, of "NBUF - Suc k"]])
        (use r in \<open>simp_all add: kwp J_def buf_ins_def Let_def fun_upd_same del: fun_upd_apply\<close>)
  qed
  show ?thesis
    unfolding binit_def returns_thn
    by (rule returns_mono [OF heads], rule returns_mono [OF bufs]) (simp_all add: J_def)
qed

lemma binit_ok:
  assumes "uncontended E" "boot_ready (NBUCKETS + NBUF) s" "\<forall>b. b_dev (bufs s b) = 0 \<and> b_blockno (bufs s b) = 0"
  shows "returns E s binit (\<lambda>_ t. cache_ok (bufs t) (binit_lists NBUF))"
proof (rule returns_mono [OF returns_binit [OF assms(1,2)]])
  fix t
  assume t: "rings (bufs t) (binit_lists NBUF) \<and> same_blocks (bufs s) (bufs t)"
  have "(\<Union>i < NBUCKETS. set (binit_lists NBUF i)) = BBuf ` {..<NBUF}"
    by (auto simp: binit_lists_def atLeast0LessThan)
  then show "cache_ok (bufs t) (binit_lists NBUF)"
    using t assms(3) by (simp add: cache_ok_def one_copy_def same_blocks_def unat_getIndex binit_lists_def)
qed

section \<open>Properties\<close>

text \<open>C33. \<^verbatim>\<open>bget(dev, blockno)\<close> returns the one buffer of the cache for that block, locked by the calling
  process, whenever the block is cached or a bucket other than its own holds an unused buffer. A cached
  block keeps its contents and gains a reference; for another one an unused buffer is recycled, moved to
  the block's bucket and marked invalid. No other buffer changes, and afterwards the buckets are again
  doubly linked lists with every buffer once, on the list its block number hashes to, and no block of a
  device is cached twice.\<close>

theorem bget_serves_block:
  assumes alone: "alone E s p" and ok: "cache_ok (bufs s) B" and block: "dev \<noteq> 0" "blockno \<noteq> - 1"
    and idle: "\<forall>b. b_refcnt (bufs s b) = 0 \<or> cached (bufs s) B dev blockno = Some b \<longrightarrow> sl_locked (slks s (BufSleep b)) = 0"
    and avail: "cached (bufs s) B dev blockno \<noteq> None \<or>
      (\<exists>n < NBUCKETS. n \<noteq> bucket blockno \<and> (\<exists>b \<in> set (B n). b_refcnt (bufs s b) = 0))"
  shows "returns E s (bget dev blockno) (\<lambda>b t.
    (\<exists>B'. cache_ok (bufs t) B' \<and> cached (bufs t) B' dev blockno = Some b)
    \<and> sl_locked (slks t (BufSleep b)) = 1 \<and> sl_pid (slks t (BufSleep b)) = p_pid (procs s p)
    \<and> (case cached (bufs s) B dev blockno of
         Some c \<Rightarrow> b = c \<and> b_refcnt (bufs t b) = b_refcnt (bufs s b) + 1 \<and> b_valid (bufs t b) = b_valid (bufs s b)
           \<and> b_data (bufs t b) = b_data (bufs s b)
       | None \<Rightarrow> b_refcnt (bufs s b) = 0 \<and> b_refcnt (bufs t b) = 1 \<and> \<not> b_valid (bufs t b))
    \<and> (\<forall>c. c \<noteq> b \<longrightarrow> b_dev (bufs t c) = b_dev (bufs s c) \<and> b_blockno (bufs t c) = b_blockno (bufs s c)
         \<and> b_valid (bufs t c) = b_valid (bufs s c) \<and> b_refcnt (bufs t c) = b_refcnt (bufs s c) \<and> b_data (bufs t c) = b_data (bufs s c)))"
  (is "returns E s _ ?P")
proof -
  have e: "uncontended E" "cpu_ok s" "\<forall>l. locked (locks s l) = 0" and p: "cproc (cpus s (tp s)) = Some p"
    using alone by (auto simp: alone_def)
  let ?i = "bucket blockno"
  have "ends E s (bget dev blockno) ?P"
  proof (cases "cached (bufs s) B dev blockno")
    case (Some b)
    let ?bs = "(bufs s)(b := (bufs s b)\<lparr>b_refcnt := b_refcnt (bufs s b) + 1\<rparr>)"
    have "cache_ok ?bs B" using ok by (rule cache_ok_data) auto
    moreover have "cached ?bs B dev blockno = Some b"
      using Some cached_cong [of ?bs "bufs s"] by simp
    ultimately show ?thesis
      using e p Some idle
      by (intro bget_lookup(1) [OF e ok Some] ends_thn ends_acquiresleep [where p = p] ends_ret) auto
  next
    case None
    have "unused (bufs s) B (others ?i) \<noteq> None"
      using avail None by (auto simp: unused_None set_others)
    then obtain n b where nb: "unused (bufs s) B (others ?i) = Some (n, b)" by auto
    then have n: "n < NBUCKETS" "n \<noteq> ?i" "b \<in> set (B n)" "b_refcnt (bufs s b) = 0"
      using unused_Some [OF nb] by (auto simp: set_others)
    have "cache_ok (taken dev blockno ?i b (bufs s)) (B(n := remove1 b (B n), ?i := b # B ?i))"
      using ok n None block by (intro cache_ok_taken) auto
    moreover have "cached (taken dev blockno ?i b (bufs s)) (B(n := remove1 b (B n), ?i := b # B ?i)) dev blockno = Some b"
      by (simp add: cached_def)
    ultimately have "\<exists>B'. cache_ok (taken dev blockno ?i b (bufs s)) B' \<and> cached (taken dev blockno ?i b (bufs s)) B' dev blockno = Some b"
      by blast
    moreover have "rings (bufs s) B" using ok by (simp add: cache_ok_def)
    ultimately show ?thesis
      using e p n idle None nb
      by (intro bget_lookup(2) [OF e ok None] recycle_loop(1) [where j = 0 and B = B and n = n and b = b]
          ends_take_over [where p = p]) (auto simp: first_index [OF block(2)])
  qed
  then show ?thesis
  proof (rule returns_mono [OF ends_returns])
    fix b t
    assume "\<exists>s'. lk_eq s' t \<and> ?P b s'"
    then obtain s' where s': "lk_eq s' t" and P: "?P b s'" by blast
    have eqs: "bufs t = bufs s'" "slks t = slks s'" using s' by (simp_all add: lk_fields)
    show "?P b t" unfolding eqs by (rule P)
  qed
qed

text \<open>C34. \<^verbatim>\<open>bget\<close> never recycles a buffer of the block's own bucket: if the block is not cached and every buffer
  in the other buckets is in use, it panics with ``bget: no buffers'', however many unused buffers the own
  bucket has.\<close>

theorem bget_no_buffers:
  assumes alone: "alone E s p" and ok: "cache_ok (bufs s) B" and block: "blockno \<noteq> - 1"
    and miss: "cached (bufs s) B dev blockno = None"
    and used: "\<forall>n < NBUCKETS. n \<noteq> bucket blockno \<longrightarrow> (\<forall>b \<in> set (B n). b_refcnt (bufs s b) \<noteq> 0)"
  shows "bget dev blockno E s = Some (Panic ''bget: no buffers'')"
proof -
  have e: "uncontended E" "cpu_ok s" "\<forall>l. locked (locks s l) = 0" using alone by (auto simp: alone_def)
  have r: "rings (bufs s) B" using ok by (simp add: cache_ok_def)
  have "unused (bufs s) B (drop 0 (others (bucket blockno))) = None"
    using used by (auto simp: unused_None set_others)
  then have "fails E (acquired (BcacheLock (bucket blockno)) s)
      (recycle dev blockno (getIndex blockno) (getIndex (blockno + 1))) ''bget: no buffers''"
    by (rule recycle_loop(2) [OF e r refl bucket_less _ first_index [OF block], rotated]) simp
  then show ?thesis
    using bget_lookup(3) [OF e ok miss] by (auto simp: fails_def lk_eq_refl)
qed

text \<open>C35. \<^verbatim>\<open>brelse\<close> of a buffer that the process has locked unlocks it, gives back one reference and moves the
  buffer to the front of its bucket when that was the last one; the cache stays well formed, every other
  buffer is unchanged, and a process waiting for the buffer is made runnable. A buffer that the process
  has not locked makes it panic.\<close>

theorem brelse_releases:
  assumes alone: "alone E s p" and ok: "cache_ok (bufs s) B" and b: "b \<in> BBuf ` {..<NBUF}"
    and i: "i = bucket (b_blockno (bufs s b))"
  shows "if sl_locked (slks s (BufSleep b)) \<noteq> 0 \<and> sl_pid (slks s (BufSleep b)) = p_pid (procs s p)
    then returns E s (brelse b) (\<lambda>_ t. sl_locked (slks t (BufSleep b)) = 0
      \<and> b_refcnt (bufs t b) = b_refcnt (bufs s b) - 1
      \<and> cache_ok (bufs t) (if b_refcnt (bufs s b) = 1 then B(i := b # remove1 b (B i)) else B)
      \<and> (\<forall>c. b_dev (bufs t c) = b_dev (bufs s c) \<and> b_blockno (bufs t c) = b_blockno (bufs s c)
          \<and> b_valid (bufs t c) = b_valid (bufs s c) \<and> b_data (bufs t c) = b_data (bufs s c))
      \<and> (\<forall>c. c \<noteq> b \<longrightarrow> b_refcnt (bufs t c) = b_refcnt (bufs s c))
      \<and> procs t = wake (Some (ChSleep (BufSleep b))) (Some p) NPROC (procs s))
    else brelse b E s = Some (Panic ''brelse'')"
proof -
  have e: "uncontended E" "cpu_ok s" "\<forall>l. locked (locks s l) = 0" and p: "cproc (cpus s (tp s)) = Some p"
    using alone by (auto simp: alone_def)
  let ?bs = "(bufs s)(b := (bufs s b)\<lparr>b_refcnt := b_refcnt (bufs s b) - 1\<rparr>)"
  let ?held = "sl_locked (slks s (BufSleep b)) \<noteq> 0 \<and> sl_pid (slks s (BufSleep b)) = p_pid (procs s p)"
  let ?u = "s\<lparr>slks := (slks s)(BufSleep b := (slks s (BufSleep b))\<lparr>sl_locked := 0, sl_pid := 0\<rparr>),
    procs := wake (Some (ChSleep (BufSleep b))) (Some p) NPROC (procs s)\<rparr>"
  have ok': "cache_ok ?bs B" using ok by (rule cache_ok_data) auto
  have front: "cache_ok (buf_ins i b (buf_del b ?bs)) (B(i := b # remove1 b (B i)))"
    using ok' b i by (intro cache_ok_front) auto
  have run: "ends E s (brelse b) (\<lambda>_ t. t = ?u\<lparr>bufs := if b_refcnt (bufs s b) = 1 then buf_ins i b (buf_del b ?bs) else ?bs\<rparr>)" if ?held
    unfolding brelse_def
    by (intro ends_bnd ends_thn ends_holdingsleep [where p = p] ends_whenK ends_releasesleep ends_gets ends_acquire ends_upd_buf)
      (use that e p i in \<open>auto intro!: kends simp: lk_fields cpu_ok_acquired\<close>)
  have stop: "fails E s (brelse b) ''brelse''" if "\<not> ?held"
    unfolding brelse_def
    by (intro fails_bnd ends_holdingsleep [where p = p]) (use that e p in \<open>auto simp: whenK_def thn_def kdefs fails_def\<close>)
  show ?thesis
  proof (cases ?held)
    case True
    show ?thesis
      unfolding if_P [OF True]
      by (rule returns_mono [OF ends_returns [OF run [OF True]]]) (use ok' front in \<open>auto simp: lk_fields\<close>)
  next
    case False
    then show ?thesis using stop by (auto simp: fails_def lk_eq_refl)
  qed
qed

section \<open>Witnesses\<close>

text \<open>The buffers as \<^verbatim>\<open>binit\<close> leaves them: all on the list of bucket 0, unused.\<close>

definition binit_bufs :: "bufptr \<Rightarrow> buf" where
  "binit_bufs b = (case b of
     BHead i \<Rightarrow> \<lparr>b_valid = False, b_disk = False, b_dev = 0, b_blockno = 0, b_refcnt = 0,
       b_prev = (if i = 0 then BBuf 0 else BHead i), b_next = (if i = 0 then BBuf 29 else BHead i), b_data = (\<lambda>_. 0)\<rparr>
   | BBuf k \<Rightarrow> \<lparr>b_valid = False, b_disk = False, b_dev = 0, b_blockno = 0, b_refcnt = 0,
       b_prev = (if k = 29 then BHead 0 else BBuf (k + 1)), b_next = (if k = 0 then BHead 0 else BBuf (k - 1)), b_data = (\<lambda>_. 0)\<rparr>)"

definition demo_cache :: disk_state where
  "demo_cache = demo_disk\<lparr>bufs := binit_bufs\<rparr>"

lemma binit_bufs_ok: "cache_ok binit_bufs (binit_lists NBUF)"
proof -
  have "seg binit_bufs (BHead 0) (rev (map BBuf [0..<30])) (BHead 0)"
    by (simp add: binit_bufs_def upt_rec)
  then have "ring binit_bufs i ((binit_lists NBUF) i)" for i
    by (auto simp: ring_def binit_lists_def binit_bufs_def distinct_map inj_on_def)
  moreover have "(\<Union>i < 53. set ((binit_lists NBUF) i)) = BBuf ` {..<30}"
    by (auto simp: binit_lists_def atLeast0LessThan)
  ultimately show ?thesis
    by (auto simp: cache_ok_def rings_def one_copy_def binit_lists_def unat_getIndex)
      (auto simp: binit_bufs_def)
qed

lemma demo_cache_alone: "alone (\<lambda>_ s. Some s) demo_cache 0" "cache_ok (bufs demo_cache) (binit_lists NBUF)"
  using binit_bufs_ok by (simp_all add: alone_def uncontended_def demo_cache_def two_procs_ok cpu_room_def intr_enabled_def,
      simp add: two_procs_def zero_defs)

theorem bget_serves_block_witness:
  "returns (\<lambda>_ s. Some s) demo_cache (bget 1 7) (\<lambda>b t. b_dev (bufs t b) = 1 \<and> b_blockno (bufs t b) = 7
     \<and> b_refcnt (bufs t b) = 1 \<and> sl_locked (slks t (BufSleep b)) = 1)"
proof -
  have b: "bucket 7 = 7" by (simp add: unat_getIndex)
  have none: "cached (bufs demo_cache) (binit_lists NBUF) 1 7 = None"
    by (simp add: cached_def b binit_lists_def)
  have free: "BBuf 0 \<in> set ((binit_lists NBUF) 0)" "b_refcnt (bufs demo_cache x) = 0" "sl_locked (slks demo_cache y) = 0" for x y
    by (simp_all add: binit_lists_def demo_cache_def binit_bufs_def split: bufptr.split)
      (simp add: demo_disk_def slk_state.defs disk_state.defs two_procs_slk_def proc_state.defs)
  show ?thesis
    by (rule returns_mono [OF bget_serves_block [OF demo_cache_alone, of 1 7]])
      (use free none in \<open>auto simp: b none cached_def dest!: find_SomeD intro!: exI [of _ 0]\<close>)
qed

theorem bget_no_buffers_witness:
  "bget 1 53 (\<lambda>_ s. Some s) demo_cache = Some (Panic ''bget: no buffers'') \<and> b_refcnt (bufs demo_cache (BBuf 0)) = 0"
proof -
  have b: "bucket 53 = 0" by (simp add: unat_getIndex)
  have none: "cached (bufs demo_cache) (binit_lists NBUF) 1 53 = None"
    by (auto simp: cached_def b find_None_iff binit_lists_def demo_cache_def binit_bufs_def)
  show ?thesis
    using bget_no_buffers [OF demo_cache_alone _ none]
    by (simp add: b binit_lists_def) (simp add: demo_cache_def binit_bufs_def)
qed

theorem brelse_releases_witness:
  "returns (\<lambda>_ s. Some s) (demo_cache\<lparr>slks := (\<lambda>_. \<lparr>sl_locked = 1, sl_name = [], sl_pid = 1\<rparr>)\<rparr>) (brelse (BBuf 3))
     (\<lambda>_ t. sl_locked (slks t (BufSleep (BBuf 3))) = 0 \<and> cache_ok (bufs t) (binit_lists NBUF))"
proof -
  let ?s = "demo_cache\<lparr>slks := (\<lambda>_. \<lparr>sl_locked = 1, sl_name = [], sl_pid = 1\<rparr>)\<rparr>"
  have a: "alone (\<lambda>_ s. Some s) ?s 0" "cache_ok (bufs ?s) (binit_lists NBUF)"
    using demo_cache_alone by (simp_all add: alone_def)
  have "p_pid (procs ?s 0) = 1" "b_refcnt (bufs ?s (BBuf 3)) = 0"
    by (simp_all add: demo_cache_def binit_bufs_def) (simp add: two_procs_def)
  then show ?thesis
    using brelse_releases [OF a, of "BBuf 3", OF _ refl] by (simp, elim returns_mono) simp
qed

end
