(* ===== verification/Klog.thy ===== *)
theory Klog
  imports Bio
begin

text \<open>
  The logging layer, \<^verbatim>\<open>kernel/log.c\<close>: system calls bracket their writes with
  \<^verbatim>\<open>begin_op\<close> and \<^verbatim>\<open>end_op\<close>; the last one to finish commits all of them at once.
\<close>

section \<open>Operations\<close>

text \<open>\<^verbatim>\<open>struct superblock\<close> of \<^verbatim>\<open>fs.h\<close>\<close>

record superblock =
  sb_magic :: uint32
  sb_size :: uint32
  sb_nblocks :: uint32
  sb_ninodes :: uint32
  sb_nlog :: uint32
  sb_logstart :: uint32
  sb_inodestart :: uint32
  sb_bmapstart :: uint32

text \<open>\<^verbatim>\<open>struct log\<close>; \<open>lh_n\<close> and \<open>lh_block\<close> are the in-memory header.\<close>

record klog =
  lg_start :: uint32
  lg_size :: int
  lg_outstanding :: int
  lg_committing :: bool
  lg_dev :: uint32
  lh_n :: int
  lh_block :: "nat \<Rightarrow> uint32"

record log_state = disk_state +
  klg :: klog

definition upd_log :: "(klog \<Rightarrow> klog) \<Rightarrow> ('z log_state_scheme, unit) K" where
  [kdefs]: "upd_log f = modify (\<lambda>s. s\<lparr>klg := f (klg s)\<rparr>)"

definition upd_data :: "bufptr \<Rightarrow> (memory \<Rightarrow> memory) \<Rightarrow> ('z disk_state_scheme, unit) K" where
  [kdefs]: "upd_data b f = upd_buf b (\<lambda>x. x\<lparr>b_data := f (b_data x)\<rparr>)"

definition install_trans :: "bool \<Rightarrow> ('z log_state_scheme, unit) K" where
  "install_trans recovering =
     bnd (gets (\<lambda>s. lh_n (klg s))) (\<lambda>n.
     forK [0..<nat n] (\<lambda>tail.
       bnd (gets klg) (\<lambda>lg.
       bnd (bread (lg_dev lg) (lg_start lg + of_nat tail + 1)) (\<lambda>lbuf.
       bnd (bread (lg_dev lg) (lh_block lg tail)) (\<lambda>dbuf.
       bnd (gets (\<lambda>s. b_data (bufs s lbuf))) (\<lambda>d.
       thn (upd_data dbuf (\<lambda>m. blit m 0 d 0 BSIZE)) (
       thn (bwrite dbuf) (
       thn (whenK (\<not> recovering) (bunpin dbuf)) (
       thn (brelse lbuf) (
       brelse dbuf))))))))))"

text \<open>The header block: the count at offset 0, the block numbers from offset 4 on.\<close>

definition read_head :: "('z log_state_scheme, unit) K" where
  "read_head =
     bnd (gets klg) (\<lambda>lg.
     bnd (bread (lg_dev lg) (lg_start lg)) (\<lambda>b.
     bnd (gets (\<lambda>s. b_data (bufs s b))) (\<lambda>d.
     thn (upd_log (\<lambda>l. l\<lparr>lh_n := sint (load32 d 0)\<rparr>)) (
     bnd (gets (\<lambda>s. lh_n (klg s))) (\<lambda>n.
     thn (forK [0..<nat n] (\<lambda>i.
            upd_log (\<lambda>l. l\<lparr>lh_block := (lh_block l)(i := load32 d (4 + 4 * of_nat i))\<rparr>))) (
     brelse b))))))"

definition write_head :: "('z log_state_scheme, unit) K" where
  "write_head =
     bnd (gets klg) (\<lambda>l.
     bnd (bread (lg_dev l) (lg_start l)) (\<lambda>b.
     bnd (gets klg) (\<lambda>lg.
     thn (upd_data b (\<lambda>m. store32 m 0 (of_int (lh_n lg)))) (
     thn (forK [0..<nat (lh_n lg)] (\<lambda>i.
            upd_data b (\<lambda>m. store32 m (4 + 4 * of_nat i) (lh_block lg i)))) (
     thn (bwrite b) (
     brelse b))))))"

definition recover_from_log :: "('z log_state_scheme, unit) K" where
  "recover_from_log =
     thn read_head (
     thn (install_trans True) (
     thn (upd_log (\<lambda>l. l\<lparr>lh_n := 0\<rparr>)) (
     write_head)))"

text \<open>\<^verbatim>\<open>sizeof(struct logheader)\<close> is 124, so the first check of \<^verbatim>\<open>initlog\<close> passes.\<close>

definition initlog :: "uint32 \<Rightarrow> superblock \<Rightarrow> ('z log_state_scheme, unit) K" where
  "initlog dev sb =
     (if 4 + 4 * LOGSIZE \<ge> BSIZE then panic ''initlog: too big logheader''
      else thn (initlock LogLock ''log'') (
           thn (upd_log (\<lambda>l. l\<lparr>lg_start := sb_logstart sb\<rparr>)) (
           thn (upd_log (\<lambda>l. l\<lparr>lg_size := sint (sb_nlog sb)\<rparr>)) (
           thn (upd_log (\<lambda>l. l\<lparr>lg_dev := dev\<rparr>)) (
           recover_from_log)))))"

partial_function (option) begin_op_loop ::
  "(lockid, 'z log_state_scheme) env \<Rightarrow> 'z log_state_scheme \<Rightarrow>
     ('z log_state_scheme, unit) outcome option" where
  "begin_op_loop E s =
     bnd (gets klg) (\<lambda>lg.
     if lg_committing lg
     then thn (sleep ChLog LogLock) begin_op_loop
     else if lh_n lg + (lg_outstanding lg + 1) * int MAXOPBLOCKS > int LOGSIZE
     then thn (sleep ChLog LogLock) begin_op_loop
     else thn (upd_log (\<lambda>l. l\<lparr>lg_outstanding := lg_outstanding l + 1\<rparr>)) (
          release LogLock)) E s"

definition begin_op :: "('z log_state_scheme, unit) K" where
  "begin_op = thn (acquire LogLock) begin_op_loop"

definition write_log :: "('z log_state_scheme, unit) K" where
  "write_log =
     bnd (gets (\<lambda>s. lh_n (klg s))) (\<lambda>n.
     forK [0..<nat n] (\<lambda>tail.
       bnd (gets klg) (\<lambda>lg.
       bnd (bread (lg_dev lg) (lg_start lg + of_nat tail + 1)) (\<lambda>to.
       bnd (bread (lg_dev lg) (lh_block lg tail)) (\<lambda>from.
       bnd (gets (\<lambda>s. b_data (bufs s from))) (\<lambda>d.
       thn (upd_data to (\<lambda>m. blit m 0 d 0 BSIZE)) (
       thn (bwrite to) (
       thn (brelse from) (
       brelse to)))))))))"

definition commit :: "('z log_state_scheme, unit) K" where
  "commit =
     bnd (gets (\<lambda>s. lh_n (klg s))) (\<lambda>n.
     whenK (n > 0)
       (thn write_log (
        thn write_head (
        thn (install_trans False) (
        thn (upd_log (\<lambda>l. l\<lparr>lh_n := 0\<rparr>)) (
        write_head)))))) "

definition end_op :: "('z log_state_scheme, unit) K" where
  "end_op =
     thn (acquire LogLock) (
     thn (upd_log (\<lambda>l. l\<lparr>lg_outstanding := lg_outstanding l - 1\<rparr>)) (
     bnd (gets klg) (\<lambda>lg.
     thn (whenK (lg_committing lg) (panic ''log.committing'')) (
     let do_commit = (lg_outstanding lg = 0) in
     thn (if do_commit then upd_log (\<lambda>l. l\<lparr>lg_committing := True\<rparr>) else wakeup (Some ChLog)) (
     thn (release LogLock) (
     whenK do_commit
       (thn commit (
        thn (acquire LogLock) (
        thn (upd_log (\<lambda>l. l\<lparr>lg_committing := False\<rparr>)) (
        thn (wakeup (Some ChLog)) (
        release LogLock)))))))))))"

text \<open>The index at which \<^verbatim>\<open>log_write\<close> records the block: absorbed or new.\<close>

definition log_slot :: "klog \<Rightarrow> uint32 \<Rightarrow> nat" where
  "log_slot lg blockno =
     (case List.find (\<lambda>i. lh_block lg i = blockno) [0..<nat (lh_n lg)] of
        Some i \<Rightarrow> i | None \<Rightarrow> nat (lh_n lg))"

definition log_write :: "bufptr \<Rightarrow> ('z log_state_scheme, unit) K" where
  "log_write b =
     thn (acquire LogLock) (
     bnd (gets klg) (\<lambda>lg.
     thn (whenK (lh_n lg \<ge> int LOGSIZE \<or> lh_n lg \<ge> lg_size lg - 1) (panic ''too big a transaction'')) (
     thn (whenK (lg_outstanding lg < 1) (panic ''log_write outside of trans'')) (
     bnd (gets (\<lambda>s. b_blockno (bufs s b))) (\<lambda>blockno.
     let i = log_slot lg blockno in
     thn (upd_log (\<lambda>l. l\<lparr>lh_block := (lh_block l)(i := blockno)\<rparr>)) (
     thn (whenK (i = nat (lh_n lg))
            (thn (bpin b) (upd_log (\<lambda>l. l\<lparr>lh_n := lh_n l + 1\<rparr>)))) (
     release LogLock)))))))"

section \<open>Up to lock statistics\<close>

lemma lk_eq_log [lk_fields]:
  assumes "lk_eq s t"
  shows "klg t = klg s"
  using assms by (cases s; cases t; simp add: lk_eq_def)+

lemma log_acquired [simp]:
  "klg (acquired l s) = klg s"
    "(acquired l s)\<lparr>klg := x0\<rparr> = acquired l (s\<lparr>klg := x0\<rparr>)"
  by (simp_all add: lockfx intr_enabled_def)

lemma lk_eq_log_update [lk_fields]:
  assumes "lk_eq s t"
  shows "lk_eq (s\<lparr>klg := x0\<rparr>) (t\<lparr>klg := x0\<rparr>)"
  using assms by (cases s; cases t; auto simp: lk_eq_def lk_same_def)+

lemma log_cpu_ok [simp]:
  "cpu_room n (s\<lparr>klg := x0\<rparr>) = cpu_room n s"
  by (simp_all add: cpu_room_def intr_enabled_def)

lemma ends_upd_log [kends]: "Q () (s\<lparr>klg := f (klg s)\<rparr>) \<Longrightarrow> ends E s (upd_log f) Q"
  unfolding upd_log_def by (rule ends_modify) (simp_all add: lk_fields)

text \<open>An example state.\<close>

definition demo_log :: log_state where
  "demo_log = disk_state.extend demo_disk (log_state.fields
     \<lparr>lg_start = 2, lg_size = 30, lg_outstanding = 0, lg_committing = False, lg_dev = 1, lh_n = 0,
      lh_block = (\<lambda>_. 0)\<rparr>)"

lemma demo_log_below [simp]:
  "tp demo_log = tp demo_disk"
    "csr demo_log = csr demo_disk"
    "cpus demo_log = cpus demo_disk"
    "locks demo_log = locks demo_disk"
    "locktab demo_log = locktab demo_disk"
    "ram demo_log = ram demo_disk"
    "kend demo_log = kend demo_disk"
    "freelist demo_log = freelist demo_disk"
    "kernel_pagetable demo_log = kernel_pagetable demo_disk"
    "procs demo_log = procs demo_disk"
    "nextpid demo_log = nextpid demo_disk"
    "initproc demo_log = initproc demo_disk"
    "syms demo_log = syms demo_disk"
    "ticks demo_log = ticks demo_disk"
    "forkret_first demo_log = forkret_first demo_disk"
    "slks demo_log = slks demo_disk"
    "bufs demo_log = bufs demo_disk"
    "vd demo_log = vd demo_disk"
  by (simp_all add: demo_log_def disk_state.defs log_state.defs)

end
