(* ===== verification/Log_Crash.thy ===== *)
theory Log_Crash
  imports Klog
begin

text \<open>
  The log (\<^verbatim>\<open>kernel/log.c\<close>) and crashes. The functions that write the disk are modelled a second time as
  the sequences of states in which a crash can find the disk: one after each \<^verbatim>\<open>bwrite\<close>. After any crash,
  also one during recovery, a complete recovery leaves all the blocks of a transaction in place or none.
\<close>

section \<open>Disk and cache\<close>

text \<open>
  The blocks on the disk, and the contents that \<^verbatim>\<open>bread\<close> gives for a block. A crash loses the cache.
\<close>

record bstate =
  ldisk :: "uint32 \<Rightarrow> memory"
  lcache :: "uint32 \<Rightarrow> memory"

definition bwrite_st :: "uint32 \<Rightarrow> bstate \<Rightarrow> bstate" where
  "bwrite_st b s = s\<lparr>ldisk := (ldisk s)(b := lcache s b)\<rparr>"

definition copy_block :: "uint32 \<Rightarrow> uint32 \<Rightarrow> bstate \<Rightarrow> bstate" where
  "copy_block to from s = s\<lparr>lcache := (lcache s)(to := blit (lcache s to) 0 (lcache s from) 0 BSIZE)\<rparr>"

definition rebooted :: "(uint32 \<Rightarrow> memory) \<Rightarrow> bstate" where
  "rebooted d = \<lparr>ldisk = d, lcache = d\<rparr>"

text \<open>The states after the writes of one part of the code, and after those of the next.\<close>

definition andthen :: "(bstate \<Rightarrow> bstate list) \<Rightarrow> (bstate \<Rightarrow> bstate list) \<Rightarrow> bstate \<Rightarrow> bstate list" where
  "andthen f g s = (let ss = f s in ss @ g (last (s # ss)))"

section \<open>The code, write by write\<close>

definition log_block :: "klog \<Rightarrow> nat \<Rightarrow> uint32" where
  "log_block lg tail = lg_start lg + of_nat tail + 1"

fun copy_blocks :: "(nat \<Rightarrow> uint32) \<Rightarrow> (nat \<Rightarrow> uint32) \<Rightarrow> nat list \<Rightarrow> bstate \<Rightarrow> bstate list" where
  "copy_blocks to from [] s = []"
| "copy_blocks to from (tail # tails) s =
     (let t = bwrite_st (to tail) (copy_block (to tail) (from tail) s) in t # copy_blocks to from tails t)"

definition write_log_trace :: "klog \<Rightarrow> bstate \<Rightarrow> bstate list" where
  "write_log_trace lg = copy_blocks (log_block lg) (lh_block lg) [0..<nat (lh_n lg)]"

definition install_trace :: "klog \<Rightarrow> bstate \<Rightarrow> bstate list" where
  "install_trace lg = copy_blocks (lh_block lg) (log_block lg) [0..<nat (lh_n lg)]"

definition put_header :: "klog \<Rightarrow> memory \<Rightarrow> memory" where
  "put_header lg m =
     fold (\<lambda>i m. store32 m (4 + 4 * of_nat i) (lh_block lg i)) [0..<nat (lh_n lg)] (store32 m 0 (of_int (lh_n lg)))"

definition write_head_trace :: "klog \<Rightarrow> bstate \<Rightarrow> bstate list" where
  "write_head_trace lg s =
     [bwrite_st (lg_start lg) (s\<lparr>lcache := (lcache s)(lg_start lg := put_header lg (lcache s (lg_start lg)))\<rparr>)]"

definition commit_trace :: "klog \<Rightarrow> bstate \<Rightarrow> bstate list" where
  "commit_trace lg =
     (if lh_n lg > 0
      then andthen (write_log_trace lg)
          (andthen (write_head_trace lg)
          (andthen (install_trace lg)
          (write_head_trace (lg\<lparr>lh_n := 0\<rparr>))))
      else (\<lambda>s. []))"

definition get_header :: "klog \<Rightarrow> memory \<Rightarrow> klog" where
  "get_header lg m =
     (let n = sint (load32 m 0)
      in lg\<lparr>lh_n := n, lh_block := (\<lambda>i. if i < nat n then load32 m (4 + 4 * of_nat i) else lh_block lg i)\<rparr>)"

definition recover_trace :: "klog \<Rightarrow> bstate \<Rightarrow> bstate list" where
  "recover_trace lg s =
     (let lg' = get_header lg (lcache s (lg_start lg))
      in andthen (install_trace lg') (write_head_trace (lg'\<lparr>lh_n := 0\<rparr>)) s)"

text \<open>The disk after a crash with disk \<open>d\<close> and a complete recovery.\<close>

definition recovered :: "klog \<Rightarrow> (uint32 \<Rightarrow> memory) \<Rightarrow> uint32 \<Rightarrow> memory" where
  "recovered lg d = ldisk (last (rebooted d # recover_trace lg (rebooted d)))"

section \<open>Header and blocks\<close>

text \<open>The bytes of a block.\<close>

definition blk :: "memory \<Rightarrow> nat \<Rightarrow> uint8" where
  "blk m i = (if i < BSIZE then m (of_nat i) else 0)"

lemma blk_blit [simp]: "blk (blit m 0 d 0 BSIZE) = blk d"
  by (simp add: fun_eq_iff blk_def blit_def)

lemma load32_cong:
  "(\<And>i. i < 4 \<Longrightarrow> m (a + of_nat i) = m' (a + of_nat i)) \<Longrightarrow> load32 m a = load32 m' a"
  unfolding load32_def by (metis load_le_cong)

lemma load32_blk:
  assumes "blk m = blk m'" "unat a + 4 \<le> BSIZE"
  shows "load32 m a = load32 m' a"
proof (rule load32_cong)
  fix i :: nat
  assume "i < 4"
  then have i: "unat a + i < BSIZE" using assms(2) by simp
  have "blk m (unat a + i) = blk m' (unat a + i)" by (simp add: assms(1))
  then show "m (a + of_nat i) = m' (a + of_nat i)" using i by (simp add: blk_def)
qed

lemma load32_store32_other:
  assumes "4 \<le> unat (a - b)" "4 \<le> unat (b - a)"
  shows "load32 (store32 m b v) a = load32 m a"
proof (rule load32_cong)
  fix i :: nat
  assume i: "i < 4"
  have "unat (a - b) + unat (b - a) = 2 ^ 64"
    using unat_minus_pos64 [of a b] assms by auto
  then have "unat ((a - b) + of_nat i) = unat (a - b) + i" using i assms by (subst unat_add64) simp_all
  then have "4 \<le> unat (a + of_nat i - b)" using assms by (simp add: algebra_simps)
  then show "store32 m b v (a + of_nat i) = m (a + of_nat i)" by (rule store32_other)
qed

lemma load32_offset:
  assumes "i < 2 ^ 20" "j < 2 ^ 20" "i \<noteq> j"
  shows "load32 (store32 m (4 * of_nat j) v) (4 * of_nat i) = load32 m (4 * of_nat i)"
proof (rule load32_store32_other)
  have *: "4 \<le> unat (4 * of_nat i - 4 * of_nat j :: uint64) \<and> 4 \<le> unat (4 * of_nat j - 4 * of_nat i :: uint64)"
    if "i < j" "j < 2 ^ 20" for i j
  proof -
    have "(4 * of_nat j - 4 * of_nat i :: uint64) = of_nat (4 * (j - i))"
      using that by (simp add: of_nat_diff algebra_simps)
    then have "unat (4 * of_nat j - 4 * of_nat i :: uint64) = 4 * (j - i)" using that by (simp del: of_nat_mult)
    then show ?thesis using that unat_minus_pos64 [of "4 * of_nat j" "4 * of_nat i"] by auto
  qed
  show "4 \<le> unat (4 * of_nat i - 4 * of_nat j :: uint64)" "4 \<le> unat (4 * of_nat j - 4 * of_nat i :: uint64)"
    using assms * [of i j] * [of j i] by (auto simp: nat_neq_iff)
qed

text \<open>The header as it is read back.\<close>

lemma put_header_entries:
  assumes "n \<le> 2 ^ 19" "k < 2 ^ 20"
  shows "load32 (fold (\<lambda>i m. store32 m (4 + 4 * of_nat i) (f i)) [0..<n] m) (4 * of_nat k)
    = (if 0 < k \<and> k \<le> n then f (k - 1) else load32 m (4 * of_nat k))"
  using assms(1)
proof (induction n)
  case (Suc n)
  let ?m = "fold (\<lambda>i m. store32 m (4 + 4 * of_nat i) (f i)) [0..<n] m"
  have at: "(4 + 4 * of_nat n :: uint64) = 4 * of_nat (Suc n)" by simp
  have step: "fold (\<lambda>i m. store32 m (4 + 4 * of_nat i) (f i)) [0..<Suc n] m = store32 ?m (4 * of_nat (Suc n)) (f n)"
    unfolding at [symmetric] by simp
  show ?case
  proof (cases "k = Suc n")
    case True
    then show ?thesis unfolding step by simp
  next
    case False
    have "load32 (store32 ?m (4 * of_nat (Suc n)) (f n)) (4 * of_nat k) = load32 ?m (4 * of_nat k)"
      using Suc.prems assms(2) False by (intro load32_offset) auto
    then show ?thesis unfolding step using Suc False by (auto simp: le_Suc_eq)
  qed
qed auto

lemma get_put_header:
  assumes "0 \<le> lh_n lg" "lh_n lg \<le> int LOGSIZE"
  shows "lh_n (get_header lg' (put_header lg m)) = lh_n lg"
    and "i < nat (lh_n lg) \<Longrightarrow> lh_block (get_header lg' (put_header lg m)) i = lh_block lg i"
proof -
  let ?n = "nat (lh_n lg)"
  have n: "?n \<le> 2 ^ 19" using assms by simp
  have "load32 (put_header lg m) 0 = of_int (lh_n lg)"
    using put_header_entries [OF n, of 0 "lh_block lg"] by (simp add: put_header_def)
  moreover have "sint (of_int (lh_n lg) :: uint32) = lh_n lg"
    using assms by (simp add: signed_of_int signed_take_bit_int_eq_self)
  ultimately show nn: "lh_n (get_header lg' (put_header lg m)) = lh_n lg"
    by (simp add: get_header_def Let_def)
  show "lh_block (get_header lg' (put_header lg m)) i = lh_block lg i" if i: "i < ?n"
  proof -
    have "Suc i < 2 ^ 20" using i n by simp
    then have "load32 (put_header lg m) (4 * of_nat (Suc i)) = lh_block lg i"
      using put_header_entries [OF n, of "Suc i" "lh_block lg"] i by (simp add: put_header_def)
    then show ?thesis using i nn by (simp add: get_header_def Let_def)
  qed
qed

section \<open>Copying blocks\<close>

text \<open>In \<open>t\<close> the blocks with indices in \<open>X\<close> have been copied and nothing else has changed since \<open>s\<close>.\<close>

definition copied_set :: "(nat \<Rightarrow> uint32) \<Rightarrow> (nat \<Rightarrow> uint32) \<Rightarrow> nat set \<Rightarrow> bstate \<Rightarrow> bstate \<Rightarrow> bool" where
  "copied_set to from X s t \<longleftrightarrow>
     (\<forall>i \<in> X. blk (ldisk t (to i)) = blk (lcache s (from i)) \<and> blk (lcache t (to i)) = blk (lcache s (from i)))
     \<and> (\<forall>b. b \<notin> to ` X \<longrightarrow> ldisk t b = ldisk s b \<and> lcache t b = lcache s b)"

lemma copied_set_empty: "copied_set to from {} s s"
  by (simp add: copied_set_def)

lemma copied_set_insert:
  assumes "copied_set to from X (bwrite_st (to i) (copy_block (to i) (from i) s)) t"
    and "to i \<notin> to ` X" "to i \<notin> from ` X"
  shows "copied_set to from (insert i X) s t"
  using assms by (auto simp: copied_set_def bwrite_st_def copy_block_def image_iff)

lemma copy_blocks_sound:
  assumes "inj_on to (set tails)" "distinct tails" "to ` set tails \<inter> from ` set tails = {}"
  shows "(\<forall>t \<in> set (copy_blocks to from tails s). \<exists>X \<subseteq> set tails. copied_set to from X s t)
    \<and> copied_set to from (set tails) s (last (s # copy_blocks to from tails s))"
  using assms
proof (induction tails arbitrary: s)
  case Nil
  then show ?case by (simp add: copied_set_empty)
next
  case (Cons i tails)
  let ?u = "bwrite_st (to i) (copy_block (to i) (from i) s)"
  have fresh: "to i \<notin> to ` X" "to i \<notin> from ` X" if "X \<subseteq> set tails" for X
    using Cons.prems that by (auto simp: inj_on_def)
  have ins: "copied_set to from (insert i X) s t" if "copied_set to from X ?u t" "X \<subseteq> set tails" for X t
    using copied_set_insert [OF that(1) fresh] that(2) by blast
  have IH: "\<forall>t \<in> set (copy_blocks to from tails ?u). \<exists>X \<subseteq> set tails. copied_set to from X ?u t"
    "copied_set to from (set tails) ?u (last (?u # copy_blocks to from tails ?u))"
    using Cons.IH [of ?u] Cons.prems by (auto simp: inj_on_def)
  have steps: "copy_blocks to from (i # tails) s = ?u # copy_blocks to from tails ?u" by (simp add: Let_def)
  have "\<exists>X \<subseteq> set (i # tails). copied_set to from X s t" if "t \<in> set (copy_blocks to from (i # tails) s)" for t
  proof (cases "t = ?u")
    case True
    then show ?thesis using ins [of "{}"] copied_set_empty by (intro exI [of _ "{i}"]) auto
  next
    case False
    then have "t \<in> set (copy_blocks to from tails ?u)" using that unfolding steps by simp
    then obtain X where "X \<subseteq> set tails" "copied_set to from X ?u t" using IH(1) by blast
    then show ?thesis using ins [of X] by (intro exI [of _ "insert i X"]) auto
  qed
  moreover have "copied_set to from (set (i # tails)) s (last (s # copy_blocks to from (i # tails) s))"
    using ins [OF IH(2)] unfolding steps by simp
  ultimately show ?case by blast
qed

section \<open>The layout of the log\<close>

text \<open>A block outside the log area, which starts at \<^verbatim>\<open>log.start\<close> and has \<^verbatim>\<open>log.size\<close> blocks.\<close>

definition home :: "klog \<Rightarrow> uint32 \<Rightarrow> bool" where
  "home lg b \<longleftrightarrow> lg_size lg \<le> int (unat (b - lg_start lg))"

text \<open>
  A transaction that is ready to commit: \<^verbatim>\<open>log_write\<close> has recorded different home blocks, no more
  than fit into the log.
\<close>

definition trans_ok :: "klog \<Rightarrow> bool" where
  "trans_ok lg \<longleftrightarrow> 0 \<le> lh_n lg \<and> lh_n lg \<le> int LOGSIZE \<and> lh_n lg < lg_size lg
     \<and> inj_on (lh_block lg) {..<nat (lh_n lg)} \<and> (\<forall>i < nat (lh_n lg). home lg (lh_block lg i))"

lemma log_block_offset: "i < 2 ^ 31 \<Longrightarrow> unat (log_block lg i - lg_start lg) = i + 1"
proof -
  assume "i < 2 ^ 31"
  moreover have "log_block lg i - lg_start lg = of_nat (i + 1)" by (simp add: log_block_def)
  moreover have "unat (of_nat (i + 1) :: uint32) = i + 1" if "i < 2 ^ 31"
    using that by (simp only: unat_of_nat) (simp add: take_bit_nat_eq_self)
  ultimately show ?thesis by (simp add: add.commute)
qed

lemma log_layout:
  assumes "trans_ok lg"
  shows "inj_on (log_block lg) {..<nat (lh_n lg)}"
    and "log_block lg ` {..<nat (lh_n lg)} \<inter> lh_block lg ` {..<nat (lh_n lg)} = {}"
    and "i < nat (lh_n lg) \<Longrightarrow> log_block lg i \<noteq> lg_start lg"
    and "i < nat (lh_n lg) \<Longrightarrow> \<not> home lg (log_block lg i)"
    and "\<not> home lg (lg_start lg)"
proof -
  let ?n = "nat (lh_n lg)"
  have n: "?n \<le> 30" "int ?n < lg_size lg" using assms by (auto simp: trans_ok_def)
  have off: "unat (log_block lg i - lg_start lg) = i + 1" if "i < ?n" for i
    using that n by (intro log_block_offset) simp
  have far: "\<not> home lg (log_block lg i)" if "i < ?n" for i
    unfolding home_def off [OF that] using that n(2) by linarith
  show "inj_on (log_block lg) {..<?n}" by (rule inj_onI) (metis off add_right_cancel lessThan_iff)
  show "log_block lg ` {..<?n} \<inter> lh_block lg ` {..<?n} = {}"
    using far assms by (force simp: trans_ok_def)
  show "log_block lg i \<noteq> lg_start lg" if "i < ?n" using off [OF that] by auto
  show "\<not> home lg (log_block lg i)" if "i < ?n" using far that .
  show "\<not> home lg (lg_start lg)" using assms by (simp add: home_def trans_ok_def)
qed

section \<open>Crashes\<close>

text \<open>
  The transaction in memory, \<open>lg\<close> with the cached blocks of \<open>s\<close>, and a disk \<open>d\<close>: the log is empty on disk
  (\<open>clean\<close>); the disk agrees with \<open>f\<close> outside the log (\<open>holds\<close>); the log on disk describes the transaction, and
  the blocks it does not write are the old ones (\<open>committed\<close>).
\<close>

definition clean :: "klog \<Rightarrow> (uint32 \<Rightarrow> memory) \<Rightarrow> bool" where
  "clean lg d \<longleftrightarrow> load32 (d (lg_start lg)) 0 = 0"

definition holds :: "klog \<Rightarrow> (uint32 \<Rightarrow> memory) \<Rightarrow> (uint32 \<Rightarrow> nat \<Rightarrow> uint8) \<Rightarrow> bool" where
  "holds lg d f \<longleftrightarrow> (\<forall>b. home lg b \<longrightarrow> blk (d b) = f b)"

definition old_blocks :: "bstate \<Rightarrow> uint32 \<Rightarrow> nat \<Rightarrow> uint8" where
  "old_blocks s b = blk (ldisk s b)"

definition new_blocks :: "klog \<Rightarrow> bstate \<Rightarrow> uint32 \<Rightarrow> nat \<Rightarrow> uint8" where
  "new_blocks lg s b = (if b \<in> lh_block lg ` {..<nat (lh_n lg)} then blk (lcache s b) else blk (ldisk s b))"

definition committed :: "klog \<Rightarrow> bstate \<Rightarrow> (uint32 \<Rightarrow> memory) \<Rightarrow> bool" where
  "committed lg s d \<longleftrightarrow>
     lh_n (get_header lg (d (lg_start lg))) = lh_n lg
     \<and> (\<forall>i < nat (lh_n lg). lh_block (get_header lg (d (lg_start lg))) i = lh_block lg i
          \<and> blk (d (log_block lg i)) = blk (lcache s (lh_block lg i)))
     \<and> (\<forall>b. home lg b \<longrightarrow> b \<notin> lh_block lg ` {..<nat (lh_n lg)} \<longrightarrow> blk (d b) = blk (ldisk s b))"

definition crash_ok :: "klog \<Rightarrow> bstate \<Rightarrow> (uint32 \<Rightarrow> memory) \<Rightarrow> bool" where
  "crash_ok lg s d \<longleftrightarrow> clean lg d \<and> holds lg d (old_blocks s) \<or> committed lg s d \<or> clean lg d \<and> holds lg d (new_blocks lg s)"

lemma write_head_zero:
  assumes "\<not> home lg (lg_start lg)" "lg_start lg' = lg_start lg" "t \<in> set (write_head_trace (lg'\<lparr>lh_n := 0\<rparr>) u)"
  shows "clean lg (ldisk t)" and "holds lg (ldisk t) f = holds lg (ldisk u) f"
proof -
  let ?h = "store32 (lcache u (lg_start lg)) 0 0"
  have d: "ldisk t = (ldisk u)(lg_start lg := ?h)"
    using assms(2,3) by (simp add: write_head_trace_def put_header_def bwrite_st_def)
  show "clean lg (ldisk t)" by (simp add: d clean_def)
  show "holds lg (ldisk t) f = holds lg (ldisk u) f"
    unfolding d holds_def using assms(1) by (intro iff_allI imp_cong) auto
qed

lemma header_congs:
  assumes "d (lg_start lg) = d' (lg_start lg)"
  shows "clean lg d = clean lg d'" "get_header lg (d (lg_start lg)) = get_header lg (d' (lg_start lg))"
  using assms by (simp_all add: clean_def)

text \<open>The writes of \<^verbatim>\<open>write_log\<close> stay in the log area and leave the header alone.\<close>

lemma write_log_states:
  assumes "trans_ok lg" "0 < lh_n lg"
  shows "\<forall>t \<in> set (s # write_log_trace lg s). ldisk t (lg_start lg) = ldisk s (lg_start lg)
      \<and> (\<forall>b. home lg b \<longrightarrow> ldisk t b = ldisk s b \<and> lcache t b = lcache s b)"
    and "\<forall>i < nat (lh_n lg). blk (ldisk (last (s # write_log_trace lg s)) (log_block lg i)) = blk (lcache s (lh_block lg i))"
    and "\<forall>i < nat (lh_n lg). blk (lcache (last (s # write_log_trace lg s)) (log_block lg i)) = blk (lcache s (lh_block lg i))"
proof -
  note lay = log_layout [OF assms(1)]
  have set: "set [0..<nat (lh_n lg)] = {..<nat (lh_n lg)}" by auto
  have cb: "(\<forall>t \<in> set (write_log_trace lg s). \<exists>X \<subseteq> {..<nat (lh_n lg)}. copied_set (log_block lg) (lh_block lg) X s t)
    \<and> copied_set (log_block lg) (lh_block lg) {..<nat (lh_n lg)} s (last (s # write_log_trace lg s))"
    using copy_blocks_sound [of "log_block lg" "[0..<nat (lh_n lg)]" "lh_block lg" s] lay(1,2)
    unfolding write_log_trace_def set by simp
  show "\<forall>i < nat (lh_n lg). blk (ldisk (last (s # write_log_trace lg s)) (log_block lg i)) = blk (lcache s (lh_block lg i))"
    "\<forall>i < nat (lh_n lg). blk (lcache (last (s # write_log_trace lg s)) (log_block lg i)) = blk (lcache s (lh_block lg i))"
    using cb by (auto simp: copied_set_def)
  show "\<forall>t \<in> set (s # write_log_trace lg s). ldisk t (lg_start lg) = ldisk s (lg_start lg)
      \<and> (\<forall>b. home lg b \<longrightarrow> ldisk t b = ldisk s b \<and> lcache t b = lcache s b)"
  proof
    fix t
    assume "t \<in> set (s # write_log_trace lg s)"
    then obtain X where X: "X \<subseteq> {..<nat (lh_n lg)}" "copied_set (log_block lg) (lh_block lg) X s t"
      using cb copied_set_empty by force
    have "lg_start lg \<notin> log_block lg ` X" "\<And>b. home lg b \<Longrightarrow> b \<notin> log_block lg ` X"
      using lay(3,4) X(1) by (auto simp: subset_iff) metis
    then show "ldisk t (lg_start lg) = ldisk s (lg_start lg)
      \<and> (\<forall>b. home lg b \<longrightarrow> ldisk t b = ldisk s b \<and> lcache t b = lcache s b)"
      using X(2) by (simp add: copied_set_def)
  qed
qed

text \<open>The second header write is the commit point.\<close>

lemma write_head_commits:
  assumes "trans_ok lg" "0 < lh_n lg" "u = last (s # write_log_trace lg s)" "t \<in> set (write_head_trace lg u)"
  shows "committed lg s (ldisk t)"
    and "i < nat (lh_n lg) \<Longrightarrow> blk (lcache t (log_block lg i)) = blk (lcache s (lh_block lg i))"
proof -
  note lay = log_layout [OF assms(1)]
  have u: "u \<in> set (s # write_log_trace lg s)" unfolding assms(3) by (rule last_in_set) simp
  have d: "ldisk t = (ldisk u)(lg_start lg := put_header lg (lcache u (lg_start lg)))"
    and c: "lcache t = (lcache u)(lg_start lg := put_header lg (lcache u (lg_start lg)))"
    using assms(4) by (simp_all add: write_head_trace_def bwrite_st_def)
  have n: "0 \<le> lh_n lg" "lh_n lg \<le> int LOGSIZE" using assms(1) by (simp_all add: trans_ok_def)
  have keep: "ldisk u b = ldisk s b" if "home lg b" for b
    using write_log_states(1) [OF assms(1,2), of s] u that by blast
  have start: "b \<noteq> lg_start lg" if "home lg b" for b using lay(5) that by auto
  show "committed lg s (ldisk t)"
    using write_log_states(2) [OF assms(1,2), of s] lay(3) keep start
    unfolding assms(3) [symmetric] by (simp add: committed_def d get_put_header [OF n])
  show "blk (lcache t (log_block lg i)) = blk (lcache s (lh_block lg i))" if "i < nat (lh_n lg)"
    using write_log_states(3) [OF assms(1,2), of s] lay(3) [OF that] that
    unfolding assms(3) [symmetric] by (simp add: c)
qed

lemma copy_blocks_cong:
  assumes "\<And>i. i \<in> set tails \<Longrightarrow> to i = to' i \<and> from i = from' i"
  shows "copy_blocks to from tails s = copy_blocks to' from' tails s"
  using assms by (induction tails arbitrary: s) (simp_all add: Let_def)

text \<open>Installing, in \<^verbatim>\<open>commit\<close> or in recovery, keeps the log in place until all blocks are written.\<close>

lemma install_states:
  assumes "trans_ok lg" "0 < lh_n lg" "committed lg s (ldisk u)"
    and "\<And>i. i < nat (lh_n lg) \<Longrightarrow> blk (lcache u (log_block lg i)) = blk (lcache s (lh_block lg i))"
  shows "\<forall>t \<in> set (u # install_trace lg u). committed lg s (ldisk t)"
    and "holds lg (ldisk (last (u # install_trace lg u))) (new_blocks lg s)"
proof -
  note lay = log_layout [OF assms(1)]
  let ?N = "{..<nat (lh_n lg)}"
  have set: "set [0..<nat (lh_n lg)] = ?N" by auto
  have inj: "inj_on (lh_block lg) ?N" and home: "\<And>i. i < nat (lh_n lg) \<Longrightarrow> home lg (lh_block lg i)"
    using assms(1) by (simp_all add: trans_ok_def)
  have cb: "(\<forall>t \<in> set (install_trace lg u). \<exists>X \<subseteq> ?N. copied_set (lh_block lg) (log_block lg) X u t)
    \<and> copied_set (lh_block lg) (log_block lg) ?N u (last (u # install_trace lg u))"
    using copy_blocks_sound [of "lh_block lg" "[0..<nat (lh_n lg)]" "log_block lg" u] inj lay(2)
    unfolding install_trace_def set by (simp add: Int_commute)
  have keep: "ldisk t b = ldisk u b"
    if "copied_set (lh_block lg) (log_block lg) X u t" "X \<subseteq> ?N" "b \<notin> lh_block lg ` ?N" for X t b
    using that by (simp add: copied_set_def) blast
  have away: "lg_start lg \<notin> lh_block lg ` ?N" "\<And>i. i < nat (lh_n lg) \<Longrightarrow> log_block lg i \<notin> lh_block lg ` ?N"
    using home lay(4) lay(5) by (auto simp: image_iff) metis+
  have com: "committed lg s (ldisk t)" if "copied_set (lh_block lg) (log_block lg) X u t" "X \<subseteq> ?N" for X t
    using assms(3) away by (simp add: committed_def keep [OF that])
  show "\<forall>t \<in> set (u # install_trace lg u). committed lg s (ldisk t)" using cb com assms(3) by auto
  show "holds lg (ldisk (last (u # install_trace lg u))) (new_blocks lg s)"
    using cb assms(3,4) keep [OF conjunct2 [OF cb] subset_refl]
    by (auto simp: holds_def new_blocks_def committed_def copied_set_def)
qed

text \<open>\<^verbatim>\<open>commit\<close>: before the header is written the disk is old, then the log can be replayed, and at last it is new.\<close>

lemma last_andthen: "last (s # andthen f g s) = last (last (s # f s) # g (last (s # f s)))"
  by (simp add: andthen_def Let_def last_append)

lemma set_andthen: "set (s # andthen f g s) = set (s # f s) \<union> set (last (s # f s) # g (last (s # f s)))"
proof -
  have "last (s # f s) \<in> set (s # f s)" by (rule last_in_set) simp
  then show ?thesis by (auto simp: andthen_def Let_def)
qed

lemma write_head_single: "write_head_trace lg u = [hd (write_head_trace lg u)]"
  by (simp add: write_head_trace_def)

lemma erase_log:
  assumes "trans_ok lg" "lg_start lg' = lg_start lg" "holds lg (ldisk u) f"
    and "t = last (u # write_head_trace (lg'\<lparr>lh_n := 0\<rparr>) u)"
  shows "clean lg (ldisk t)" "holds lg (ldisk t) f"
proof -
  have "t \<in> set (write_head_trace (lg'\<lparr>lh_n := 0\<rparr>) u)" using assms(4) write_head_single by (metis last.simps last_in_set list.distinct(1))
  then show "clean lg (ldisk t)" "holds lg (ldisk t) f"
    using write_head_zero [OF log_layout(5) [OF assms(1)] assms(2)] assms(3) by blast+
qed

lemma install_and_erase:
  assumes "trans_ok lg" "0 < lh_n lg" "committed lg s (ldisk u)" "lg_start lg' = lg_start lg"
    and "\<And>i. i < nat (lh_n lg) \<Longrightarrow> blk (lcache u (log_block lg i)) = blk (lcache s (lh_block lg i))"
    and "T = andthen (install_trace lg) (write_head_trace (lg'\<lparr>lh_n := 0\<rparr>)) u"
  shows "\<forall>t \<in> set (u # T). crash_ok lg s (ldisk t)"
    and "clean lg (ldisk (last (u # T)))" "holds lg (ldisk (last (u # T))) (new_blocks lg s)"
proof -
  note inst = install_states [OF assms(1,2,3,5)]
  let ?v = "last (u # install_trace lg u)"
  note er = erase_log [OF assms(1,4) inst(2) refl]
  show fin: "clean lg (ldisk (last (u # T)))" "holds lg (ldisk (last (u # T))) (new_blocks lg s)"
    using er unfolding assms(6) last_andthen by blast+
  have v: "?v \<in> set (u # install_trace lg u)" by (rule last_in_set) simp
  have "set (u # T) = set (u # install_trace lg u) \<union> {last (u # T)}"
    using v unfolding assms(6) set_andthen last_andthen by (subst write_head_single) (auto simp: write_head_trace_def)
  then show "\<forall>t \<in> set (u # T). crash_ok lg s (ldisk t)" using inst(1) fin by (auto simp: crash_ok_def)
qed

lemma commit_crash_ok:
  assumes "trans_ok lg" "clean lg (ldisk s)"
  shows "\<forall>t \<in> set (s # commit_trace lg s). crash_ok lg s (ldisk t)"
    and "clean lg (ldisk (last (s # commit_trace lg s)))"
      "holds lg (ldisk (last (s # commit_trace lg s))) (new_blocks lg s)"
proof -
  let ?s = "last (s # commit_trace lg s)"
  have "(\<forall>t \<in> set (s # commit_trace lg s). crash_ok lg s (ldisk t)) \<and> clean lg (ldisk ?s) \<and> holds lg (ldisk ?s) (new_blocks lg s)"
  proof (cases "0 < lh_n lg")
    case True
    let ?u = "last (s # write_log_trace lg s)"
    let ?h = "hd (write_head_trace lg ?u)"
    let ?I = "andthen (install_trace lg) (write_head_trace (lg\<lparr>lh_n := 0\<rparr>))"
    have h: "?h \<in> set (write_head_trace lg ?u)" by (simp add: write_head_trace_def)
    note ie = install_and_erase [OF assms(1) True write_head_commits(1) [OF assms(1) True refl h] refl
        write_head_commits(2) [OF assms(1) True refl h] refl]
    have tr: "commit_trace lg s = andthen (write_log_trace lg) (andthen (write_head_trace lg) ?I) s"
      using True by (simp add: commit_trace_def)
    have lasth: "last (?u # write_head_trace lg ?u) = ?h" by (simp add: write_head_trace_def)
    have "set (s # commit_trace lg s) = set (s # write_log_trace lg s) \<union> set (?h # ?I ?h)"
      unfolding tr set_andthen [of s] set_andthen [of ?u] lasth
      using last_in_set [of "s # write_log_trace lg s"] by (auto simp: write_head_trace_def)
    moreover have "crash_ok lg s (ldisk t)" if "t \<in> set (s # write_log_trace lg s)" for t
      using write_log_states(1) [OF assms(1) True, of s] that assms(2)
      unfolding crash_ok_def clean_def holds_def old_blocks_def by metis
    moreover have "?s = last (?h # ?I ?h)" unfolding tr last_andthen [of s] last_andthen [of ?u] lasth ..
    ultimately show ?thesis using ie by auto
  next
    case False
    then have "lh_n lg = 0" using assms(1) by (simp add: trans_ok_def)
    then show ?thesis using assms(2) by (simp add: commit_trace_def crash_ok_def holds_def old_blocks_def new_blocks_def)
  qed
  then show "\<forall>t \<in> set (s # commit_trace lg s). crash_ok lg s (ldisk t)"
    "clean lg (ldisk ?s)" "holds lg (ldisk ?s) (new_blocks lg s)" by blast+
qed

text \<open>Recovery from a disk that a crash can leave.\<close>

lemma get_header_same [simp]:
  "lg_start (get_header lg m) = lg_start lg" "lh_n (get_header lg m) = sint (load32 m 0)"
  by (simp_all add: get_header_def Let_def)

lemma recover_clean:
  assumes "trans_ok lg" "clean lg d" "holds lg d f"
  shows "\<forall>t \<in> set (recover_trace lg (rebooted d)). clean lg (ldisk t) \<and> holds lg (ldisk t) f"
    and "recovered lg d = ldisk (last (recover_trace lg (rebooted d)))" "recover_trace lg (rebooted d) \<noteq> []"
proof -
  let ?lg = "get_header lg (d (lg_start lg))"
  have n: "lh_n ?lg = 0" using assms(2) by (simp add: clean_def)
  have tr: "recover_trace lg (rebooted d) = write_head_trace (?lg\<lparr>lh_n := 0\<rparr>) (rebooted d)"
    by (simp only: recover_trace_def Let_def andthen_def rebooted_def bstate.simps install_trace_def n) simp
  show "recover_trace lg (rebooted d) \<noteq> []" unfolding tr by (simp add: write_head_trace_def)
  then show "recovered lg d = ldisk (last (recover_trace lg (rebooted d)))" by (simp add: recovered_def)
  show "\<forall>t \<in> set (recover_trace lg (rebooted d)). clean lg (ldisk t) \<and> holds lg (ldisk t) f"
    unfolding tr using write_head_zero [OF log_layout(5) [OF assms(1)] get_header_same(1)] assms(3)
    by (simp add: rebooted_def)
qed

lemma recover_committed:
  assumes "trans_ok lg" "0 < lh_n lg" "committed lg s d"
  shows "\<forall>t \<in> set (rebooted d # recover_trace lg (rebooted d)). crash_ok lg s (ldisk t)"
    and "clean lg (recovered lg d)" "holds lg (recovered lg d) (new_blocks lg s)"
proof -
  let ?lg = "get_header lg (d (lg_start lg))"
  have n: "lh_n ?lg = lh_n lg" and bl: "\<forall>i < nat (lh_n lg). lh_block ?lg i = lh_block lg i"
    using assms(3) by (simp_all add: committed_def)
  have lb: "log_block ?lg = log_block lg" by (simp add: fun_eq_iff log_block_def)
  have "install_trace ?lg = install_trace lg"
    unfolding install_trace_def n lb using bl by (intro ext copy_blocks_cong) simp
  then have tr: "recover_trace lg (rebooted d)
      = andthen (install_trace lg) (write_head_trace (?lg\<lparr>lh_n := 0\<rparr>)) (rebooted d)"
    by (simp add: recover_trace_def Let_def rebooted_def)
  have logged: "blk (lcache (rebooted d) (log_block lg i)) = blk (lcache s (lh_block lg i))" if "i < nat (lh_n lg)" for i
    using assms(3) that by (simp add: committed_def rebooted_def)
  have "committed lg s (ldisk (rebooted d))" using assms(3) by (simp add: rebooted_def)
  from install_and_erase [OF assms(1,2) this get_header_same(1) logged tr]
  show "\<forall>t \<in> set (rebooted d # recover_trace lg (rebooted d)). crash_ok lg s (ldisk t)"
    and "clean lg (recovered lg d)" "holds lg (recovered lg d) (new_blocks lg s)"
    by (simp_all add: recovered_def)
qed

section \<open>Atomic commits\<close>

text \<open>The disks after any number of crashes in the middle of recovery.\<close>

inductive crashes :: "klog \<Rightarrow> (uint32 \<Rightarrow> memory) \<Rightarrow> (uint32 \<Rightarrow> memory) \<Rightarrow> bool" for lg d where
  no_crash: "crashes lg d d"
| crash: "crashes lg d d' \<Longrightarrow> t \<in> set (recover_trace lg (rebooted d')) \<Longrightarrow> crashes lg d (ldisk t)"

lemma recovered_clean:
  assumes "trans_ok lg" "clean lg d" "holds lg d f"
  shows "clean lg (recovered lg d) \<and> holds lg (recovered lg d) f"
  using recover_clean [OF assms] last_in_set by metis

lemma crashes_clean:
  assumes "crashes lg d d'" "trans_ok lg" "clean lg d" "holds lg d f"
  shows "clean lg d' \<and> holds lg d' f"
  using assms(1)
proof induction
  case (crash d' t)
  then show ?case using recover_clean(1) assms(2) by blast
qed (use assms in simp)

lemma crashes_ok:
  assumes "crashes lg d d'" "trans_ok lg" "0 < lh_n lg" "crash_ok lg s d"
  shows "crash_ok lg s d'"
  using assms(1)
proof induction
  case (crash d' t)
  then show ?case using recover_clean(1) [of lg d'] recover_committed(1) [of lg s d'] assms(2,3)
    unfolding crash_ok_def by (metis list.set_intros(2))
qed (use assms in simp)

text \<open>C36. Commits are atomic and durable: let the computer crash before, after or at any disk write of commit and
  then again any number of times during recovery; when recovery has at last run to its end, the log is empty and
  outside of it the disk holds either all the blocks of the transaction or none of them, and everything else as it was.
  After a commit that has run to its end it holds all of them.\<close>

theorem log_commit_atomic:
  assumes "trans_ok lg" "0 < lh_n lg" "clean lg (ldisk s)"
    and "t \<in> set (s # commit_trace lg s)" "crashes lg (ldisk t) d"
  shows "clean lg (recovered lg d)
    \<and> (holds lg (recovered lg d) (old_blocks s) \<or> holds lg (recovered lg d) (new_blocks lg s))
    \<and> (t = last (s # commit_trace lg s) \<longrightarrow> holds lg (recovered lg d) (new_blocks lg s))"
proof -
  note com = commit_crash_ok [OF assms(1,3)]
  have "crash_ok lg s d" using crashes_ok [OF assms(5,1,2)] com(1) assms(4) by blast
  then have "clean lg (recovered lg d)
    \<and> (holds lg (recovered lg d) (old_blocks s) \<or> holds lg (recovered lg d) (new_blocks lg s))"
    unfolding crash_ok_def using recovered_clean [OF assms(1), of d] recover_committed(2,3) [OF assms(1,2), of s d] by blast
  moreover have "holds lg (recovered lg d) (new_blocks lg s)" if "t = last (s # commit_trace lg s)"
    using crashes_clean [OF assms(5,1)] com(2,3) recovered_clean [OF assms(1)] that by blast
  ultimately show ?thesis by blast
qed

text \<open>
  A transaction that writes block 40 in a log of blocks 2 to 31, on a disk of zeroes. The crash happens right after the
  header has been written and once more after block 40 has been installed.
\<close>

definition demo_trans :: klog where
  "demo_trans = \<lparr>lg_start = 2, lg_size = 30, lg_outstanding = 0, lg_committing = True, lg_dev = 1, lh_n = 1,
     lh_block = (\<lambda>_. 40)\<rparr>"

definition demo_blocks :: bstate where
  "demo_blocks = \<lparr>ldisk = (\<lambda>_ _. 0), lcache = (\<lambda>b _. if b = 40 then 7 else 0)\<rparr>"

lemma demo_trans_ok: "trans_ok demo_trans" "0 < lh_n demo_trans" "clean demo_trans (ldisk demo_blocks)"
proof -
  show "trans_ok demo_trans" by (simp add: demo_trans_def trans_ok_def home_def inj_on_def)
  show "0 < lh_n demo_trans" by (simp add: demo_trans_def)
  have "load_le k (\<lambda>_. 0) a = 0" for k a by (induction k arbitrary: a) simp_all
  then show "clean demo_trans (ldisk demo_blocks)" by (simp add: clean_def demo_blocks_def load32_def)
qed

theorem log_commit_atomic_witness:
  "\<exists>d. crashes demo_trans (ldisk (commit_trace demo_trans demo_blocks ! 1)) d
    \<and> clean demo_trans (recovered demo_trans d)
    \<and> (holds demo_trans (recovered demo_trans d) (old_blocks demo_blocks)
       \<or> holds demo_trans (recovered demo_trans d) (new_blocks demo_trans demo_blocks))"
proof -
  let ?t = "commit_trace demo_trans demo_blocks ! 1"
  have len: "1 < length (commit_trace demo_trans demo_blocks)"
    by (simp add: commit_trace_def demo_trans_def andthen_def Let_def write_log_trace_def install_trace_def write_head_trace_def)
  then have t: "?t \<in> set (demo_blocks # commit_trace demo_trans demo_blocks)" by simp
  let ?d = "ldisk (hd (recover_trace demo_trans (rebooted (ldisk ?t))))"
  have "hd (recover_trace demo_trans (rebooted (ldisk ?t))) \<in> set (recover_trace demo_trans (rebooted (ldisk ?t)))"
    by (rule hd_in_set) (simp add: recover_trace_def Let_def andthen_def write_head_trace_def)
  then have cr: "crashes demo_trans (ldisk ?t) ?d" by (rule crash [OF no_crash])
  from log_commit_atomic [OF demo_trans_ok t cr] cr show ?thesis by blast
qed

section \<open>The kernel code\<close>

text \<open>\<open>put_header\<close> and \<open>get_header\<close> are what the loops of \<^verbatim>\<open>write_head\<close> and \<^verbatim>\<open>read_head\<close> compute.\<close>

lemma write_head_loop:
  "ends E s (thn (upd_data b (\<lambda>m. store32 m 0 (of_int (lh_n lg))))
      (forK [0..<nat (lh_n lg)] (\<lambda>i. upd_data b (\<lambda>m. store32 m (4 + 4 * of_nat i) (lh_block lg i)))))
    (\<lambda>_ t. t = s\<lparr>bufs := (bufs s)(b := (bufs s b)\<lparr>b_data := put_header lg (b_data (bufs s b))\<rparr>)\<rparr>)"
proof -
  let ?st = "\<lambda>m k. fold (\<lambda>i m. store32 m (4 + 4 * of_nat i) (lh_block lg i)) [0..<k] (store32 m 0 (of_int (lh_n lg)))"
  let ?I = "\<lambda>k t. t = s\<lparr>bufs := (bufs s)(b := (bufs s b)\<lparr>b_data := ?st (b_data (bufs s b)) k\<rparr>)\<rparr>"
  have step: "ends E t (upd_data b (\<lambda>m. store32 m (4 + 4 * of_nat i) (lh_block lg i))) (\<lambda>_. ?I (Suc i))" if "?I i t" for i t
    unfolding upd_data_def using that by (intro ends_upd_buf) simp
  have loop: "ends E t (forK [0..<nat (lh_n lg)] (\<lambda>i. upd_data b (\<lambda>m. store32 m (4 + 4 * of_nat i) (lh_block lg i))))
      (\<lambda>_. ?I (nat (lh_n lg)))" if "?I 0 t" for t
    by (rule ends_forK_upt [where I = ?I, OF that step])
  have "ends E s (upd_data b (\<lambda>m. store32 m 0 (of_int (lh_n lg)))) (\<lambda>_. ?I 0)"
    unfolding upd_data_def by (rule ends_upd_buf) simp
  then show ?thesis unfolding put_header_def by (intro ends_thn) (erule ends_mono, erule loop)
qed

lemma read_head_loop:
  "ends E s (thn (upd_log (\<lambda>l. l\<lparr>lh_n := sint (load32 d 0)\<rparr>)) (bnd (gets (\<lambda>s. lh_n (klg s))) (\<lambda>n.
      forK [0..<nat n] (\<lambda>i. upd_log (\<lambda>l. l\<lparr>lh_block := (lh_block l)(i := load32 d (4 + 4 * of_nat i))\<rparr>)))))
    (\<lambda>_ t. t = s\<lparr>klg := get_header (klg s) d\<rparr>)"
proof -
  let ?I = "\<lambda>k t. t = s\<lparr>klg := (klg s)\<lparr>lh_n := sint (load32 d 0),
    lh_block := (\<lambda>i. if i < k then load32 d (4 + 4 * of_nat i) else lh_block (klg s) i)\<rparr>\<rparr>"
  have step: "ends E t (upd_log (\<lambda>l. l\<lparr>lh_block := (lh_block l)(i := load32 d (4 + 4 * of_nat i))\<rparr>)) (\<lambda>_. ?I (Suc i))"
    if "?I i t" for i t
    using that by (intro ends_upd_log) (simp add: fun_eq_iff less_Suc_eq)
  let ?n = "sint (load32 d 0)"
  have loop: "ends E t (bnd (gets (\<lambda>s. lh_n (klg s))) (\<lambda>n. forK [0..<nat n] (\<lambda>i.
      upd_log (\<lambda>l. l\<lparr>lh_block := (lh_block l)(i := load32 d (4 + 4 * of_nat i))\<rparr>)))) (\<lambda>_. ?I (nat ?n))" if "?I 0 t" for t
  proof (intro ends_bnd ends_gets)
    have n: "lh_n (klg t) = ?n" using that by simp
    show "ends E t (forK [0..<nat (lh_n (klg t))] (\<lambda>i.
      upd_log (\<lambda>l. l\<lparr>lh_block := (lh_block l)(i := load32 d (4 + 4 * of_nat i))\<rparr>))) (\<lambda>_. ?I (nat ?n))"
      unfolding n by (rule ends_forK_upt [where I = ?I, OF that step])
  qed (simp add: lk_fields)
  have "ends E s (upd_log (\<lambda>l. l\<lparr>lh_n := ?n\<rparr>)) (\<lambda>_. ?I 0)" by (rule ends_upd_log) simp
  then show ?thesis unfolding get_header_def Let_def by (intro ends_thn) (erule ends_mono, erule loop)
qed

text \<open>The blocks of the transaction in memory, and \<^verbatim>\<open>log_write\<close> of one more.\<close>

definition logged :: "klog \<Rightarrow> uint32 set" where
  "logged lg = lh_block lg ` {..<nat (lh_n lg)}"

definition recorded :: "klog \<Rightarrow> uint32 \<Rightarrow> klog" where
  "recorded lg b = (if b \<in> logged lg then lg else lg\<lparr>lh_n := lh_n lg + 1, lh_block := (lh_block lg)(nat (lh_n lg) := b)\<rparr>)"

lemma log_slot_cases:
  "b \<in> logged lg \<Longrightarrow> log_slot lg b < nat (lh_n lg) \<and> lh_block lg (log_slot lg b) = b"
  "b \<notin> logged lg \<Longrightarrow> log_slot lg b = nat (lh_n lg)"
  by (auto simp: log_slot_def logged_def find_None_iff dest!: find_SomeD split: option.splits)

lemma recorded_ok:
  assumes "trans_ok lg" "lh_n lg < int LOGSIZE" "lh_n lg < lg_size lg - 1" "home lg b"
  shows "trans_ok (recorded lg b)" "logged (recorded lg b) = insert b (logged lg)"
proof -
  have n: "{..<nat (lh_n lg + 1)} = insert (nat (lh_n lg)) {..<nat (lh_n lg)}"
    using assms(1) by (auto simp: trans_ok_def)
  have same: "home (lg\<lparr>lh_n := n, lh_block := f\<rparr>) = home lg" for n f by (simp add: home_def fun_eq_iff)
  show "logged (recorded lg b) = insert b (logged lg)"
    by (auto simp: recorded_def logged_def n)
  show "trans_ok (recorded lg b)"
    using assms unfolding recorded_def
    by (auto simp: trans_ok_def same n logged_def inj_on_def less_Suc_eq)
qed

lemma ends_bpin:
  assumes "uncontended E" "cpu_room 1 s" "locked (locks s (BcacheLock (bucket (b_blockno (bufs s b))))) = 0"
    and "Q () (s\<lparr>bufs := (bufs s)(b := (bufs s b)\<lparr>b_refcnt := b_refcnt (bufs s b) + 1\<rparr>)\<rparr>)"
  shows "ends E s (bpin b) Q"
  unfolding bpin_def using assms by (intro kends; clarsimp simp: lk_fields cpu_ok_acquired)+

lemma ends_log_write:
  assumes e: "uncontended E" "cpu_ok s" "\<forall>l. locked (locks s l) = 0"
    and fits: "lh_n (klg s) < int LOGSIZE" "lh_n (klg s) < lg_size (klg s) - 1" "lg_outstanding (klg s) \<ge> 1"
    and n: "0 \<le> lh_n (klg s)" and no: "no = b_blockno (bufs s b)"
    and u: "u = s\<lparr>bufs := (bufs s)(b := (bufs s b)\<lparr>b_refcnt := b_refcnt (bufs s b) + (if no \<in> logged (klg s) then 0 else 1)\<rparr>),
      klg := recorded (klg s) no\<rparr>"
  shows "ends E s (log_write b) (\<lambda>_ t. t = u)"
proof (cases "no \<in> logged (klg s)")
  case True
  have "log_slot (klg s) no < nat (lh_n (klg s))" "lh_block (klg s) (log_slot (klg s) no) = no"
    using log_slot_cases(1) [OF True] by blast+
  moreover from this have "(lh_block (klg s))(log_slot (klg s) (b_blockno (bufs s b)) := b_blockno (bufs s b)) = lh_block (klg s)"
    using no by (simp add: fun_upd_idem)
  ultimately show ?thesis
    unfolding log_write_def Let_def using e fits no u True
    by (intro kends; clarsimp simp: lk_fields cpu_ok_acquired recorded_def)+
next
  case False
  have "log_slot (klg s) no = nat (lh_n (klg s))" using log_slot_cases(2) [OF False] .
  then show ?thesis
    unfolding log_write_def Let_def using e fits no u False
    by (intro kends ends_bpin; clarsimp simp: lk_fields cpu_ok_acquired recorded_def)+
qed

text \<open>C37. \<^verbatim>\<open>log_write\<close> panics if the header or the log on disk is full, or outside of a transaction. Otherwise the
  block of the buffer belongs to the transaction, once, which stays ready to commit (\<open>trans_ok\<close>, the premise of
  \<open>log_commit_atomic\<close>); a block that is new to it is pinned in the cache by one more reference.\<close>

theorem log_write_records:
  assumes "alone E s p" "trans_ok (klg s)" "home (klg s) (b_blockno (bufs s b))"
  shows "if lh_n (klg s) \<ge> int LOGSIZE \<or> lh_n (klg s) \<ge> lg_size (klg s) - 1
    then log_write b E s = Some (Panic ''too big a transaction'')
    else if lg_outstanding (klg s) < 1
    then log_write b E s = Some (Panic ''log_write outside of trans'')
    else returns E s (log_write b) (\<lambda>_ t. trans_ok (klg t)
      \<and> logged (klg t) = insert (b_blockno (bufs s b)) (logged (klg s))
      \<and> bufs t = (bufs s)(b := (bufs s b)\<lparr>b_refcnt := b_refcnt (bufs s b)
          + (if b_blockno (bufs s b) \<in> logged (klg s) then 0 else 1)\<rparr>)
      \<and> alone E t p)"
proof -
  have e: "uncontended E" "cpu_ok s" "\<forall>l. locked (locks s l) = 0" using assms(1) by (auto simp: alone_def)
  have n: "0 \<le> lh_n (klg s)" using assms(2) by (simp add: trans_ok_def)
  let ?full = "lh_n (klg s) \<ge> int LOGSIZE \<or> lh_n (klg s) \<ge> lg_size (klg s) - 1"
  have full: "fails E s (log_write b) ''too big a transaction''" if ?full
    unfolding log_write_def using e that
    by (intro fails_check fails_thn [OF ends_acquire] fails_bnd [OF ends_gets]) (auto simp: lk_fields)
  have outside: "fails E s (log_write b) ''log_write outside of trans''" if "\<not> ?full" "lg_outstanding (klg s) < 1"
    unfolding log_write_def using e that
    by (intro passes_check fails_check fails_thn [OF ends_acquire] fails_bnd [OF ends_gets]) (auto simp: lk_fields)
  have run: "returns E s (log_write b) (\<lambda>_ t. trans_ok (klg t)
      \<and> logged (klg t) = insert (b_blockno (bufs s b)) (logged (klg s))
      \<and> bufs t = (bufs s)(b := (bufs s b)\<lparr>b_refcnt := b_refcnt (bufs s b)
          + (if b_blockno (bufs s b) \<in> logged (klg s) then 0 else 1)\<rparr>)
      \<and> alone E t p)" if "\<not> ?full" "\<not> lg_outstanding (klg s) < 1"
  proof (rule returns_mono [OF ends_returns [OF ends_log_write [OF e _ _ _ n refl refl]]], goal_cases)
    case (4 a t)
    then obtain u where u: "lk_eq u t" "u = s\<lparr>bufs := (bufs s)(b := (bufs s b)\<lparr>b_refcnt := b_refcnt (bufs s b)
          + (if b_blockno (bufs s b) \<in> logged (klg s) then 0 else 1)\<rparr>),
        klg := recorded (klg s) (b_blockno (bufs s b))\<rparr>" by blast
    have "alone E u p" using assms(1) unfolding u(2) by (simp add: alone_def)
    then have "alone E t p" using lk_eq_cpu_ok [OF u(1)] by (simp add: alone_def lk_eq_machine [OF u(1)])
    then show ?case
      using recorded_ok [OF assms(2) _ _ assms(3)] that
      by (simp add: lk_eq_log [OF u(1)] lk_eq_disk [OF u(1)] u(2))
  qed (use that in auto)
  show ?thesis using full outside run by (auto simp: fails_def lk_eq_refl)
qed

theorem log_write_records_witness:
  "returns (\<lambda>_ s. Some s) (demo_log\<lparr>klg := demo_trans\<lparr>lg_outstanding := 1\<rparr>,
       bufs := (\<lambda>b. (bufs demo_log b)\<lparr>b_blockno := 45\<rparr>)\<rparr>) (log_write (BBuf 3))
     (\<lambda>_ t. logged (klg t) = {40, 45} \<and> b_refcnt (bufs t (BBuf 3)) = 1 \<and> trans_ok (klg t))"
proof -
  let ?s = "demo_log\<lparr>klg := demo_trans\<lparr>lg_outstanding := 1\<rparr>, bufs := (\<lambda>b. (bufs demo_log b)\<lparr>b_blockno := 45\<rparr>)\<rparr>"
  have a: "alone (\<lambda>_ s. Some s) ?s 0"
    by (simp add: alone_def uncontended_def two_procs_ok cpu_room_def intr_enabled_def) (simp add: two_procs_def zero_defs)
  have ok: "trans_ok (klg ?s)" "home (klg ?s) (b_blockno (bufs ?s (BBuf 3)))" "logged (klg ?s) = {40}"
    by (auto simp: demo_trans_def trans_ok_def home_def inj_on_def logged_def)
  have "b_refcnt (bufs ?s (BBuf 3)) = 0" by (simp add: demo_disk_def slk_state.defs disk_state.defs)
  then show ?thesis
    using log_write_records [OF a ok(1,2)] ok(3)
    by (simp add: demo_trans_def insert_commute split: if_splits, elim returns_mono) auto
qed

end
