(* ===== verification/Fs.thy ===== *)
theory Fs
  imports Klog
begin

text \<open>
  The file system, \<^verbatim>\<open>kernel/fs.c\<close> with the on-disk format of \<^verbatim>\<open>fs.h\<close>: blocks, inodes,
  file content, directories, path names. An in-memory inode is its index in
  \<^verbatim>\<open>itable.inode\<close>. A path is the list of the characters of the C string before its NUL; a
  directory entry's name is an object of \<open>DIRSIZ\<close> bytes.
\<close>

section \<open>Format\<close>

abbreviation (input) NDIRECT :: nat where "NDIRECT \<equiv> 12"
abbreviation (input) NINDIRECT :: nat where "NINDIRECT \<equiv> 256"
abbreviation (input) MAXFILE :: nat where "MAXFILE \<equiv> 268"
abbreviation (input) BPB :: nat where "BPB \<equiv> 8192"
abbreviation (input) DIRSIZ :: nat where "DIRSIZ \<equiv> 14"
abbreviation (input) ROOTINO :: uint32 where "ROOTINO \<equiv> 1"
abbreviation (input) FSMAGIC :: uint32 where "FSMAGIC \<equiv> 0x10203040"
abbreviation (input) T_DIR :: uint16 where "T_DIR \<equiv> 1"
abbreviation (input) T_FILE :: uint16 where "T_FILE \<equiv> 2"
abbreviation (input) T_DEVICE :: uint16 where "T_DEVICE \<equiv> 3"

text \<open>\<^verbatim>\<open>struct inode\<close>\<close>

record inode =
  i_dev :: uint32
  i_inum :: uint32
  i_ref :: int
  i_valid :: bool
  i_type :: uint16
  i_major :: uint16
  i_minor :: uint16
  i_nlink :: uint16
  i_size :: uint32
  i_addrs :: "nat \<Rightarrow> uint32"

record fs_state = log_state +
  sb :: superblock
  inodes :: "nat \<Rightarrow> inode"

definition upd_inode :: "nat \<Rightarrow> (inode \<Rightarrow> inode) \<Rightarrow> ('z fs_state_scheme, unit) K" where
  [kdefs]: "upd_inode ip f = modify (\<lambda>s. s\<lparr>inodes := (inodes s)(ip := f (inodes s ip))\<rparr>)"

definition IBLOCK :: "uint32 \<Rightarrow> superblock \<Rightarrow> uint32" where
  "IBLOCK i s = i div 16 + sb_inodestart s"

definition BBLOCK :: "uint32 \<Rightarrow> superblock \<Rightarrow> uint32" where
  "BBLOCK b s = b div 8192 + sb_bmapstart s"

text \<open>The offset of an on-disk inode in its block, and its fields.\<close>

definition dinode_off :: "uint32 \<Rightarrow> uint64" where
  "dinode_off inum = 64 * ucast (inum mod 16)"

definition load_dinode :: "memory \<Rightarrow> uint64 \<Rightarrow> inode \<Rightarrow> inode" where
  "load_dinode d o0 ip = ip\<lparr>
     i_type := load16 d o0, i_major := load16 d (o0 + 2), i_minor := load16 d (o0 + 4),
     i_nlink := load16 d (o0 + 6), i_size := load32 d (o0 + 8),
     i_addrs := (\<lambda>k. if k \<le> NDIRECT then load32 d (o0 + 12 + 4 * of_nat k) else i_addrs ip k)\<rparr>"

definition store_dinode :: "memory \<Rightarrow> uint64 \<Rightarrow> inode \<Rightarrow> memory" where
  "store_dinode d o0 ip =
     (let d1 = store16 d o0 (i_type ip); d2 = store16 d1 (o0 + 2) (i_major ip);
          d3 = store16 d2 (o0 + 4) (i_minor ip); d4 = store16 d3 (o0 + 6) (i_nlink ip);
          d5 = store32 d4 (o0 + 8) (i_size ip)
      in fold (\<lambda>k m. store32 m (o0 + 12 + 4 * of_nat k) (i_addrs ip k)) [0..<Suc NDIRECT] d5)"

text \<open>An object with the given bytes.\<close>

definition obj :: "uint8 list \<Rightarrow> memory" where
  "obj bs = write_bytes (\<lambda>_. 0) 0 bs"

section \<open>Blocks\<close>

definition load_sb :: "memory \<Rightarrow> superblock" where
  "load_sb d = \<lparr>sb_magic = load32 d 0, sb_size = load32 d 4, sb_nblocks = load32 d 8,
     sb_ninodes = load32 d 12, sb_nlog = load32 d 16, sb_logstart = load32 d 20,
     sb_inodestart = load32 d 24, sb_bmapstart = load32 d 28\<rparr>"

definition readsb :: "uint32 \<Rightarrow> ('z fs_state_scheme, unit) K" where
  "readsb dev =
     bnd (bread dev 1) (\<lambda>bp.
     bnd (gets (\<lambda>s. b_data (bufs s bp))) (\<lambda>d.
     thn (modify (\<lambda>s. s\<lparr>sb := load_sb d\<rparr>)) (
     brelse bp)))"

definition fsinit :: "uint32 \<Rightarrow> ('z fs_state_scheme, unit) K" where
  "fsinit dev =
     thn (readsb dev) (
     bnd (gets sb) (\<lambda>sb.
     thn (whenK (sb_magic sb \<noteq> FSMAGIC) (panic ''invalid file system'')) (
     initlog dev sb)))"

definition bzero :: "uint32 \<Rightarrow> uint32 \<Rightarrow> ('z fs_state_scheme, unit) K" where
  "bzero dev bno =
     bnd (bread dev bno) (\<lambda>bp.
     thn (upd_data bp (\<lambda>m. memset m 0 0 1024)) (
     thn (log_write bp) (
     brelse bp)))"

text \<open>The bit of a block in a bitmap block.\<close>

definition bit_mask :: "nat \<Rightarrow> uint8" where
  "bit_mask bi = push_bit (bi mod 8) 1"

definition bit_set :: "memory \<Rightarrow> nat \<Rightarrow> bool" where
  "bit_set d bi \<longleftrightarrow> d (of_nat (bi div 8)) AND bit_mask bi \<noteq> 0"

definition set_bit_at :: "nat \<Rightarrow> memory \<Rightarrow> memory" where
  "set_bit_at bi d = d(of_nat (bi div 8) := d (of_nat (bi div 8)) OR bit_mask bi)"

definition clear_bit_at :: "nat \<Rightarrow> memory \<Rightarrow> memory" where
  "clear_bit_at bi d = d(of_nat (bi div 8) := d (of_nat (bi div 8)) AND NOT (bit_mask bi))"

definition balloc :: "uint32 \<Rightarrow> ('z fs_state_scheme, uint32) K" where
  "balloc dev =
     bnd (gets sb) (\<lambda>sb.
     bnd (findK (map (\<lambda>k. k * BPB) [0..<(unat (sb_size sb) + (BPB - 1)) div BPB]) (\<lambda>b.
            bnd (bread dev (BBLOCK (of_nat b) sb)) (\<lambda>bp.
            bnd (gets (\<lambda>s. b_data (bufs s bp))) (\<lambda>d.
            case List.find (\<lambda>bi. \<not> bit_set d bi) [0..<min BPB (unat (sb_size sb) - b)] of
              Some bi \<Rightarrow>
                thn (upd_data bp (set_bit_at bi)) (
                thn (log_write bp) (
                thn (brelse bp) (
                thn (bzero dev (of_nat (b + bi))) (
                ret (Some (of_nat (b + bi)))))))
            | None \<Rightarrow> thn (brelse bp) (ret None))))) (\<lambda>r.
     case r of Some b \<Rightarrow> ret b | None \<Rightarrow> panic ''balloc: out of blocks''))"

definition bfree :: "uint32 \<Rightarrow> uint32 \<Rightarrow> ('z fs_state_scheme, unit) K" where
  "bfree dev b =
     bnd (gets sb) (\<lambda>sb.
     bnd (bread dev (BBLOCK b sb)) (\<lambda>bp.
     bnd (gets (\<lambda>s. b_data (bufs s bp))) (\<lambda>d.
     let bi = unat b mod BPB in
     thn (whenK (\<not> bit_set d bi) (panic ''freeing free block'')) (
     thn (upd_data bp (clear_bit_at bi)) (
     thn (log_write bp) (
     brelse bp))))))"

section \<open>Inodes\<close>

definition iinit :: "('z fs_state_scheme, unit) K" where
  "iinit =
     thn (initlock ItableLock ''itable'') (
     forK [0..<NINODE] (\<lambda>i. initsleeplock (InodeSleep i) ''inode''))"

definition iget :: "uint32 \<Rightarrow> uint32 \<Rightarrow> ('z fs_state_scheme, nat) K" where
  "iget dev inum =
     thn (acquire ItableLock) (
     bnd (gets (\<lambda>s. List.find (\<lambda>i. i_ref (inodes s i) > 0 \<and> i_dev (inodes s i) = dev
                \<and> i_inum (inodes s i) = inum) [0..<NINODE])) (\<lambda>found.
     case found of
       Some ip \<Rightarrow>
         thn (upd_inode ip (\<lambda>x. x\<lparr>i_ref := i_ref x + 1\<rparr>)) (
         thn (release ItableLock) (
         ret ip))
     | None \<Rightarrow>
         bnd (gets (\<lambda>s. List.find (\<lambda>i. i_ref (inodes s i) = 0) [0..<NINODE])) (\<lambda>empty.
         case empty of
           None \<Rightarrow> panic ''iget: no inodes''
         | Some ip \<Rightarrow>
             thn (upd_inode ip (\<lambda>x. x\<lparr>i_dev := dev, i_inum := inum, i_ref := 1, i_valid := False\<rparr>)) (
             thn (release ItableLock) (
             ret ip)))))"

definition ialloc :: "uint32 \<Rightarrow> uint16 \<Rightarrow> ('z fs_state_scheme, nat) K" where
  "ialloc dev type =
     bnd (gets sb) (\<lambda>sb.
     bnd (findK [1..<unat (sb_ninodes sb)] (\<lambda>inum.
            bnd (bread dev (IBLOCK (of_nat inum) sb)) (\<lambda>bp.
            bnd (gets (\<lambda>s. b_data (bufs s bp))) (\<lambda>d.
            let o0 = dinode_off (of_nat inum) in
            if load16 d o0 = 0
            then thn (upd_data bp (\<lambda>m. store16 (memset m o0 0 64) o0 type)) (
                 thn (log_write bp) (
                 thn (brelse bp) (
                 bnd (iget dev (of_nat inum)) (\<lambda>ip. ret (Some ip)))))
            else thn (brelse bp) (ret None))))) (\<lambda>r.
     case r of Some ip \<Rightarrow> ret ip | None \<Rightarrow> panic ''ialloc: no inodes''))"

definition iupdate :: "nat \<Rightarrow> ('z fs_state_scheme, unit) K" where
  "iupdate ip =
     bnd (gets sb) (\<lambda>sb.
     bnd (gets (\<lambda>s. inodes s ip)) (\<lambda>x.
     bnd (bread (i_dev x) (IBLOCK (i_inum x) sb)) (\<lambda>bp.
     thn (upd_data bp (\<lambda>m. store_dinode m (dinode_off (i_inum x)) x)) (
     thn (log_write bp) (
     brelse bp)))))"

definition idup :: "nat \<Rightarrow> ('z fs_state_scheme, nat) K" where
  "idup ip =
     thn (acquire ItableLock) (
     thn (upd_inode ip (\<lambda>x. x\<lparr>i_ref := i_ref x + 1\<rparr>)) (
     thn (release ItableLock) (
     ret ip)))"

definition ilock :: "nat \<Rightarrow> ('z fs_state_scheme, unit) K" where
  "ilock ip =
     bnd (gets (\<lambda>s. i_ref (inodes s ip))) (\<lambda>r.
     thn (whenK (r < 1) (panic ''ilock'')) (
     thn (acquiresleep (InodeSleep ip)) (
     bnd (gets (\<lambda>s. inodes s ip)) (\<lambda>x.
     whenK (\<not> i_valid x)
       (bnd (gets sb) (\<lambda>sb.
        bnd (bread (i_dev x) (IBLOCK (i_inum x) sb)) (\<lambda>bp.
        bnd (gets (\<lambda>s. b_data (bufs s bp))) (\<lambda>d.
        thn (upd_inode ip (load_dinode d (dinode_off (i_inum x)))) (
        thn (brelse bp) (
        thn (upd_inode ip (\<lambda>x. x\<lparr>i_valid := True\<rparr>)) (
        bnd (gets (\<lambda>s. i_type (inodes s ip))) (\<lambda>t.
        whenK (t = 0) (panic ''ilock: no type'')))))))))))))"

definition iunlock :: "nat \<Rightarrow> ('z fs_state_scheme, unit) K" where
  "iunlock ip =
     bnd (holdingsleep (InodeSleep ip)) (\<lambda>h.
     bnd (gets (\<lambda>s. i_ref (inodes s ip))) (\<lambda>r.
     thn (whenK (\<not> h \<or> r < 1) (panic ''iunlock'')) (
     releasesleep (InodeSleep ip))))"

definition itrunc :: "nat \<Rightarrow> ('z fs_state_scheme, unit) K" where
  "itrunc ip =
     thn (forK [0..<NDIRECT] (\<lambda>i.
            bnd (gets (\<lambda>s. inodes s ip)) (\<lambda>x.
            whenK (i_addrs x i \<noteq> 0)
              (thn (bfree (i_dev x) (i_addrs x i)) (
               upd_inode ip (\<lambda>x. x\<lparr>i_addrs := (i_addrs x)(i := 0)\<rparr>)))))) (
     bnd (gets (\<lambda>s. inodes s ip)) (\<lambda>x.
     thn (whenK (i_addrs x NDIRECT \<noteq> 0)
            (bnd (bread (i_dev x) (i_addrs x NDIRECT)) (\<lambda>bp.
             bnd (gets (\<lambda>s. b_data (bufs s bp))) (\<lambda>d.
             thn (forK [0..<NINDIRECT] (\<lambda>j.
                    let a = load32 d (4 * of_nat j) in
                    whenK (a \<noteq> 0) (bfree (i_dev x) a))) (
             thn (brelse bp) (
             thn (bfree (i_dev x) (i_addrs x NDIRECT)) (
             upd_inode ip (\<lambda>x. x\<lparr>i_addrs := (i_addrs x)(NDIRECT := 0)\<rparr>)))))))) (
     thn (upd_inode ip (\<lambda>x. x\<lparr>i_size := 0\<rparr>)) (
     iupdate ip))))"

definition iput :: "nat \<Rightarrow> ('z fs_state_scheme, unit) K" where
  "iput ip =
     thn (acquire ItableLock) (
     bnd (gets (\<lambda>s. inodes s ip)) (\<lambda>x.
     thn (whenK (i_ref x = 1 \<and> i_valid x \<and> i_nlink x = 0)
            (thn (acquiresleep (InodeSleep ip)) (
             thn (release ItableLock) (
             thn (itrunc ip) (
             thn (upd_inode ip (\<lambda>x. x\<lparr>i_type := 0\<rparr>)) (
             thn (iupdate ip) (
             thn (upd_inode ip (\<lambda>x. x\<lparr>i_valid := False\<rparr>)) (
             thn (releasesleep (InodeSleep ip)) (
             acquire ItableLock))))))))) (
     thn (upd_inode ip (\<lambda>x. x\<lparr>i_ref := i_ref x - 1\<rparr>)) (
     release ItableLock))))"

definition iunlockput :: "nat \<Rightarrow> ('z fs_state_scheme, unit) K" where
  "iunlockput ip = thn (iunlock ip) (iput ip)"

section \<open>Content\<close>

definition bmap :: "nat \<Rightarrow> nat \<Rightarrow> ('z fs_state_scheme, uint32) K" where
  "bmap ip bn =
     bnd (gets (\<lambda>s. inodes s ip)) (\<lambda>x.
     if bn < NDIRECT
     then if i_addrs x bn = 0
          then bnd (balloc (i_dev x)) (\<lambda>addr.
               thn (upd_inode ip (\<lambda>x. x\<lparr>i_addrs := (i_addrs x)(bn := addr)\<rparr>)) (ret addr))
          else ret (i_addrs x bn)
     else if bn - NDIRECT < NINDIRECT
     then bnd (if i_addrs x NDIRECT = 0
               then bnd (balloc (i_dev x)) (\<lambda>addr.
                    thn (upd_inode ip (\<lambda>x. x\<lparr>i_addrs := (i_addrs x)(NDIRECT := addr)\<rparr>)) (ret addr))
               else ret (i_addrs x NDIRECT)) (\<lambda>ind.
          bnd (bread (i_dev x) ind) (\<lambda>bp.
          let slot = 4 * of_nat (bn - NDIRECT) in
          bnd (gets (\<lambda>s. load32 (b_data (bufs s bp)) slot)) (\<lambda>a.
          bnd (if a = 0
               then bnd (balloc (i_dev x)) (\<lambda>addr.
                    thn (upd_data bp (\<lambda>m. store32 m slot addr)) (
                    thn (log_write bp) (ret addr)))
               else ret a) (\<lambda>addr.
          thn (brelse bp) (ret addr)))))
     else panic ''bmap: out of range'')"

text \<open>\<^verbatim>\<open>struct stat\<close>\<close>

record stat =
  st_dev :: uint32
  st_ino :: uint32
  st_type :: uint16
  st_nlink :: uint16
  st_size :: uint64

definition stati :: "nat \<Rightarrow> ('z fs_state_scheme, stat) K" where
  "stati ip = gets (\<lambda>s. let x = inodes s ip in
     \<lparr>st_dev = i_dev x, st_ino = i_inum x, st_type = i_type x, st_nlink = i_nlink x,
      st_size = ucast (i_size x)\<rparr>)"

text \<open>
  The loop of \<^verbatim>\<open>readi\<close>, with \<open>k\<close> bytes to go: whether every copy succeeded, and the bytes
  for a kernel destination.
\<close>

function readi_loop :: "nat \<Rightarrow> bool \<Rightarrow> uint64 \<Rightarrow> nat \<Rightarrow> nat \<Rightarrow> ('z fs_state_scheme, bool \<times> uint8 list) K" where
  "readi_loop ip user_dst dst off k =
     (if k = 0 then ret (True, [])
      else let m = min k (BSIZE - off mod BSIZE) in
           bnd (bmap ip (off div BSIZE)) (\<lambda>addr.
           bnd (gets (\<lambda>s. i_dev (inodes s ip))) (\<lambda>dev.
           bnd (bread dev addr) (\<lambda>bp.
           bnd (gets (\<lambda>s. bytes_at (b_data (bufs s bp)) (of_nat (off mod BSIZE)) m)) (\<lambda>src.
           bnd (either_copyout user_dst dst src) (\<lambda>(r, bs).
           if r = - 1 then thn (brelse bp) (ret (False, []))
           else thn (brelse bp) (
                bnd (readi_loop ip user_dst (dst + of_nat m) (off + m) (k - m)) (\<lambda>(ok, rest).
                ret (ok, bs @ rest)))))))))"
  by pat_completeness auto
termination
  by (relation "measure (\<lambda>(ip, user_dst, dst, off, k). k)") auto

definition readi :: "nat \<Rightarrow> bool \<Rightarrow> uint64 \<Rightarrow> uint32 \<Rightarrow> uint32 \<Rightarrow> ('z fs_state_scheme, int \<times> uint8 list) K" where
  "readi ip user_dst dst off n =
     bnd (gets (\<lambda>s. i_size (inodes s ip))) (\<lambda>sz.
     if off > sz \<or> off + n < off then ret (0, [])
     else let n' = (if off + n > sz then sz - off else n) in
          bnd (readi_loop ip user_dst dst (unat off) (unat n')) (\<lambda>(ok, bs).
          ret (if ok then sint n' else - 1, bs)))"

text \<open>
  The loop of \<^verbatim>\<open>writei\<close>: how many bytes went to logged blocks. A copy that fails half way
  leaves what it copied in the buffer.
\<close>

function writei_loop :: "nat \<Rightarrow> source \<Rightarrow> nat \<Rightarrow> nat \<Rightarrow> ('z fs_state_scheme, nat) K" where
  "writei_loop ip src off k =
     (if k = 0 then ret 0
      else let m = min k (BSIZE - off mod BSIZE) in
           bnd (bmap ip (off div BSIZE)) (\<lambda>addr.
           bnd (gets (\<lambda>s. i_dev (inodes s ip))) (\<lambda>dev.
           bnd (bread dev addr) (\<lambda>bp.
           bnd (either_copyin src m) (\<lambda>(r, bs).
           thn (upd_data bp (\<lambda>d. write_bytes d (of_nat (off mod BSIZE)) bs)) (
           if r = - 1 then thn (brelse bp) (ret 0)
           else thn (log_write bp) (
                thn (brelse bp) (
                bnd (writei_loop ip (src_advance src m) (off + m) (k - m)) (\<lambda>rest.
                ret (m + rest)))))))))) "
  by pat_completeness auto
termination
  by (relation "measure (\<lambda>(ip, src, off, k). k)") auto

definition writei :: "nat \<Rightarrow> source \<Rightarrow> uint32 \<Rightarrow> uint32 \<Rightarrow> ('z fs_state_scheme, int) K" where
  "writei ip src off n =
     bnd (gets (\<lambda>s. i_size (inodes s ip))) (\<lambda>sz.
     if off > sz \<or> off + n < off then ret (- 1)
     else if unat (off + n) > MAXFILE * BSIZE then ret (- 1)
     else bnd (writei_loop ip src (unat off) (unat n)) (\<lambda>tot.
          thn (upd_inode ip (\<lambda>x. if unat off + tot > unat (i_size x)
                 then x\<lparr>i_size := off + of_nat tot\<rparr> else x)) (
          thn (iupdate ip) (
          ret (int tot)))))"

section \<open>Directories\<close>

definition namecmp :: "memory \<Rightarrow> memory \<Rightarrow> uint64 \<Rightarrow> int" where
  "namecmp name de q = strncmp name 0 de q 14"

text \<open>\<^verbatim>\<open>struct dirent\<close>: the inode number at offset 0, the name at offset 2.\<close>

definition de_inum :: "uint8 list \<Rightarrow> uint16" where
  "de_inum de = load16 (obj de) 0"

definition make_dirent :: "uint16 \<Rightarrow> memory \<Rightarrow> uint8 list" where
  "make_dirent inum name =
     bytes_at (store16 (strncpy (\<lambda>_. 0) 2 name 0 14) 0 inum) 0 16"

partial_function (option) dirlookup_loop ::
  "nat \<Rightarrow> memory \<Rightarrow> uint32 \<Rightarrow> (lockid, 'z fs_state_scheme) env \<Rightarrow> 'z fs_state_scheme \<Rightarrow>
     ('z fs_state_scheme, (nat \<times> uint32) option) outcome option" where
  "dirlookup_loop dp name off E s =
     bnd (gets (\<lambda>s. inodes s dp)) (\<lambda>x.
     if off < i_size x
     then bnd (readi dp False 0 off 16) (\<lambda>(r, de).
          if r \<noteq> 16 then panic ''dirlookup read''
          else if de_inum de = 0 then dirlookup_loop dp name (off + 16)
          else if namecmp name (obj de) 2 = 0
          then bnd (iget (i_dev x) (ucast (de_inum de))) (\<lambda>ip. ret (Some (ip, off)))
          else dirlookup_loop dp name (off + 16))
     else ret None) E s"

definition dirlookup :: "nat \<Rightarrow> memory \<Rightarrow> ('z fs_state_scheme, (nat \<times> uint32) option) K" where
  "dirlookup dp name =
     bnd (gets (\<lambda>s. i_type (inodes s dp))) (\<lambda>t.
     if t \<noteq> T_DIR then panic ''dirlookup not DIR''
     else dirlookup_loop dp name 0)"

partial_function (option) empty_dirent ::
  "nat \<Rightarrow> uint32 \<Rightarrow> (lockid, 'z fs_state_scheme) env \<Rightarrow> 'z fs_state_scheme \<Rightarrow>
     ('z fs_state_scheme, uint32) outcome option" where
  "empty_dirent dp off E s =
     bnd (gets (\<lambda>s. i_size (inodes s dp))) (\<lambda>sz.
     if off < sz
     then bnd (readi dp False 0 off 16) (\<lambda>(r, de).
          if r \<noteq> 16 then panic ''dirlink read''
          else if de_inum de = 0 then ret off
          else empty_dirent dp (off + 16))
     else ret off) E s"

definition dirlink :: "nat \<Rightarrow> memory \<Rightarrow> uint32 \<Rightarrow> ('z fs_state_scheme, int) K" where
  "dirlink dp name inum =
     bnd (dirlookup dp name) (\<lambda>found.
     case found of
       Some (ip, _) \<Rightarrow> thn (iput ip) (ret (- 1))
     | None \<Rightarrow>
         bnd (empty_dirent dp 0) (\<lambda>off.
         bnd (writei dp (KernSrc (make_dirent (ucast inum) name)) off 16) (\<lambda>r.
         thn (whenK (r \<noteq> 16) (panic ''dirlink'')) (
         ret 0))))"

section \<open>Paths\<close>

text \<open>The rest of the path and the new content of \<^verbatim>\<open>name\<close>; \<open>47\<close> is the slash.\<close>

definition skipelem :: "uint8 list \<Rightarrow> memory \<Rightarrow> (uint8 list \<times> memory) option" where
  "skipelem path name =
     (let path1 = dropWhile (\<lambda>c. c = 47) path in
      if path1 = [] then None
      else let elem = takeWhile (\<lambda>c. c \<noteq> 47) path1;
               name' = (if length elem \<ge> DIRSIZ then write_bytes name 0 (take DIRSIZ elem)
                        else (write_bytes name 0 elem)(of_nat (length elem) := 0))
           in Some (dropWhile (\<lambda>c. c = 47) (drop (length elem) path1), name'))"

text \<open>
  One turn of the loop of \<^verbatim>\<open>namex\<close>, with the rest of the path and the element in
  \<^verbatim>\<open>name\<close>: the result to return, or the inode to go on with.
\<close>

definition namex_step ::
  "nat \<Rightarrow> uint8 list \<Rightarrow> bool \<Rightarrow> memory \<Rightarrow> ('z fs_state_scheme, (nat \<times> memory) option + nat) K" where
  "namex_step ip path nameiparent name =
     thn (ilock ip) (
     bnd (gets (\<lambda>s. i_type (inodes s ip))) (\<lambda>t.
     if t \<noteq> T_DIR then thn (iunlockput ip) (ret (Inl None))
     else if nameiparent \<and> path = [] then thn (iunlock ip) (ret (Inl (Some (ip, name))))
     else bnd (dirlookup ip name) (\<lambda>next.
          thn (iunlockput ip) (
          ret (case next of None \<Rightarrow> Inl None | Some (ip', _) \<Rightarrow> Inr ip')))))"

partial_function (option) namex_loop ::
  "nat \<Rightarrow> uint8 list \<Rightarrow> bool \<Rightarrow> memory \<Rightarrow> (lockid, 'z fs_state_scheme) env \<Rightarrow> 'z fs_state_scheme \<Rightarrow>
     ('z fs_state_scheme, (nat \<times> memory) option) outcome option" where
  "namex_loop ip path nameiparent name E s =
     (case skipelem path name of
        None \<Rightarrow> if nameiparent then thn (iput ip) (ret None) else ret (Some (ip, name))
      | Some (path', name') \<Rightarrow>
          bnd (namex_step ip path' nameiparent name') (\<lambda>r.
          case r of
            Inl res \<Rightarrow> ret res
          | Inr ip' \<Rightarrow> namex_loop ip' path' nameiparent name')) E s"

definition namex :: "uint8 list \<Rightarrow> bool \<Rightarrow> memory \<Rightarrow> ('z fs_state_scheme, (nat \<times> memory) option) K" where
  "namex path nameiparent name =
     bnd (case path of
            c # _ \<Rightarrow> if c = 47 then iget ROOTDEV ROOTINO
                    else bnd curproc (\<lambda>p. bnd (gets (\<lambda>s. p_cwd (procs s p))) (\<lambda>d. bnd (deref d) idup))
          | [] \<Rightarrow> bnd curproc (\<lambda>p. bnd (gets (\<lambda>s. p_cwd (procs s p))) (\<lambda>d. bnd (deref d) idup))) (\<lambda>ip.
     namex_loop ip path nameiparent name)"

definition namei :: "uint8 list \<Rightarrow> ('z fs_state_scheme, nat option) K" where
  "namei path = bnd (namex path False (\<lambda>_. 0)) (\<lambda>r. ret (map_option fst r))"

definition nameiparent :: "uint8 list \<Rightarrow> memory \<Rightarrow> ('z fs_state_scheme, (nat \<times> memory) option) K" where
  "nameiparent path name = namex path True name"

section \<open>Up to lock statistics\<close>

lemma lk_eq_fs [lk_fields]:
  assumes "lk_eq s t"
  shows "sb t = sb s"
    "inodes t = inodes s"
  using assms by (cases s; cases t; simp add: lk_eq_def)+

lemma fs_acquired [simp]:
  "sb (acquired l s) = sb s"
    "inodes (acquired l s) = inodes s"
    "(acquired l s)\<lparr>sb := x0\<rparr> = acquired l (s\<lparr>sb := x0\<rparr>)"
    "(acquired l s)\<lparr>inodes := x1\<rparr> = acquired l (s\<lparr>inodes := x1\<rparr>)"
  by (simp_all add: lockfx intr_enabled_def)

lemma lk_eq_fs_update [lk_fields]:
  assumes "lk_eq s t"
  shows "lk_eq (s\<lparr>sb := x0\<rparr>) (t\<lparr>sb := x0\<rparr>)"
    "lk_eq (s\<lparr>inodes := x1\<rparr>) (t\<lparr>inodes := x1\<rparr>)"
  using assms by (cases s; cases t; auto simp: lk_eq_def lk_same_def)+

lemma fs_cpu_ok [simp]:
  "cpu_room n (s\<lparr>sb := x0\<rparr>) = cpu_room n s"
    "cpu_room n (s\<lparr>inodes := x1\<rparr>) = cpu_room n s"
  by (simp_all add: cpu_room_def intr_enabled_def)

lemma ends_upd_inode [kends]:
  "Q () (s\<lparr>inodes := (inodes s)(ip := f (inodes s ip))\<rparr>) \<Longrightarrow> ends E s (upd_inode ip f) Q"
  unfolding upd_inode_def by (rule ends_modify) (simp_all add: lk_fields)

text \<open>An example state.\<close>

definition demo_fs :: fs_state where
  "demo_fs = log_state.extend demo_log (fs_state.fields
     \<lparr>sb_magic = 0x10203040, sb_size = 1000, sb_nblocks = 954, sb_ninodes = 200, sb_nlog = 30,
      sb_logstart = 2, sb_inodestart = 32, sb_bmapstart = 45\<rparr>
     (\<lambda>_. \<lparr>i_dev = 0, i_inum = 0, i_ref = 0, i_valid = False, i_type = 0, i_major = 0, i_minor = 0,
        i_nlink = 0, i_size = 0, i_addrs = (\<lambda>_. 0)\<rparr>))"

lemma demo_fs_below [simp]:
  "tp demo_fs = tp demo_log"
    "csr demo_fs = csr demo_log"
    "cpus demo_fs = cpus demo_log"
    "locks demo_fs = locks demo_log"
    "locktab demo_fs = locktab demo_log"
    "ram demo_fs = ram demo_log"
    "kend demo_fs = kend demo_log"
    "freelist demo_fs = freelist demo_log"
    "kernel_pagetable demo_fs = kernel_pagetable demo_log"
    "procs demo_fs = procs demo_log"
    "nextpid demo_fs = nextpid demo_log"
    "initproc demo_fs = initproc demo_log"
    "syms demo_fs = syms demo_log"
    "ticks demo_fs = ticks demo_log"
    "forkret_first demo_fs = forkret_first demo_log"
    "slks demo_fs = slks demo_log"
    "bufs demo_fs = bufs demo_log"
    "vd demo_fs = vd demo_log"
    "klg demo_fs = klg demo_log"
  by (simp_all add: demo_fs_def log_state.defs fs_state.defs)

end
