(* ===== verification/Sprintf.thy ===== *)
theory Sprintf
  imports Memory
begin

text \<open>
  Formatting, \<^verbatim>\<open>kernel/sprintf.c\<close> and the part of \<^verbatim>\<open>kernel/printf.c\<close> that decides which
  characters are printed. Characters are bytes; a format is the list of the bytes before its
  NUL. The variadic arguments are a list; reading an argument that was not passed, which C
  leaves undefined, gives 0 here.
\<close>

section \<open>Numbers\<close>

definition lit :: "string \<Rightarrow> uint8 list option" where
  "lit s = Some (map of_char s)"

definition digits :: "uint8 list" where
  "digits = map of_char ''0123456789abcdef''"

lemma div_smaller:
  assumes "x div base \<noteq> 0" "\<not> base < (2 :: uint32)"
  shows "unat (x div base) < unat x"
proof -
  have "2 \<le> unat base" "unat x div unat base \<noteq> 0"
    using assms by (auto simp: word_less_nat_alt unat_div [symmetric] unat_eq_zero)
  then show ?thesis
    by (cases "unat x = 0") (simp_all add: unat_div)
qed

text \<open>The digits, the last one first. All callers pass the base 10 or 16.\<close>

function digits_rev :: "uint32 \<Rightarrow> uint32 \<Rightarrow> uint8 list" where
  "digits_rev x base =
     digits ! unat (x mod base) #
     (if x div base = 0 \<or> base < 2 then [] else digits_rev (x div base) base)"
  by pat_completeness auto
termination
  by (relation "measure (\<lambda>(x, base). unat x)") (auto intro: div_smaller)

lemmas [simp del] = digits_rev.simps

definition sprintint :: "uint32 \<Rightarrow> uint32 \<Rightarrow> bool \<Rightarrow> uint8 list" where
  "sprintint xx base sign =
     (let neg = (sign \<and> sint xx < 0);
          x = (if neg then - xx else xx)
      in rev (digits_rev x base @ (if neg then [45] else [])))"

text \<open>\<^verbatim>\<open>printint\<close> of \<^verbatim>\<open>printf.c\<close>; \<^verbatim>\<open>sign = xx < 0\<close> is an assignment there.\<close>

definition printint :: "uint32 \<Rightarrow> uint32 \<Rightarrow> bool \<Rightarrow> uint8 list" where
  "printint xx base sign =
     (if sign \<and> sint xx < 0 then rev (digits_rev (- xx) base @ [45]) else rev (digits_rev xx base))"

lemma printint_sprintint: "printint xx base sign = sprintint xx base sign"
  by (auto simp: printint_def sprintint_def Let_def)

fun ptr_digits :: "nat \<Rightarrow> uint64 \<Rightarrow> uint8 list" where
  "ptr_digits 0 x = []"
| "ptr_digits (Suc k) x = digits ! unat (drop_bit 60 x) # ptr_digits k (push_bit 4 x)"

definition printptr_out :: "uint64 \<Rightarrow> uint8 list" where
  "printptr_out x = [48, 120] @ ptr_digits 16 x"

section \<open>Formats\<close>

datatype fmtarg = AInt uint32 | APtr uint64 | AStr "uint8 list option"

fun arg_int :: "fmtarg list \<Rightarrow> uint32 \<times> fmtarg list" where
  "arg_int (AInt x # as) = (x, as)"
| "arg_int (a # as) = (0, as)"
| "arg_int [] = (0, [])"

fun arg_ptr :: "fmtarg list \<Rightarrow> uint64 \<times> fmtarg list" where
  "arg_ptr (APtr x # as) = (x, as)"
| "arg_ptr (a # as) = (0, as)"
| "arg_ptr [] = (0, [])"

text \<open>A null string prints as \<^verbatim>\<open>(null)\<close>.\<close>

fun arg_str :: "fmtarg list \<Rightarrow> uint8 list \<times> fmtarg list" where
  "arg_str (AStr (Some s) # as) = (s, as)"
| "arg_str (a # as) = (map of_char ''(null)'', as)"
| "arg_str [] = (map of_char ''(null)'', [])"

text \<open>
  One directive of \<^verbatim>\<open>snprintf\<close>, with \<open>room\<close> bytes left: only the loop for \<^verbatim>\<open>%s\<close>
  looks at the room.
\<close>

definition sn_directive :: "nat \<Rightarrow> uint8 \<Rightarrow> fmtarg list \<Rightarrow> uint8 list \<times> fmtarg list" where
  "sn_directive room c args =
     (if c = of_char CHR ''d'' then (let (x, as) = arg_int args in (sprintint x 10 True, as))
      else if c = of_char CHR ''x'' then (let (x, as) = arg_int args in (sprintint x 16 True, as))
      else if c = of_char CHR ''s'' then (let (s, as) = arg_str args in (take room s, as))
      else if c = 37 then ([37], args)
      else ([37, c], args))"

text \<open>The loop of \<^verbatim>\<open>snprintf\<close>: what it stores from \<open>buf\<close> on, having stored \<open>off\<close> bytes.\<close>

fun snprintf_loop :: "int \<Rightarrow> nat \<Rightarrow> uint8 list \<Rightarrow> fmtarg list \<Rightarrow> uint8 list" where
  "snprintf_loop sz off [] args = []"
| "snprintf_loop sz off [c] args =
     (if int off < sz \<and> c \<noteq> 37 then [c] else [])"
| "snprintf_loop sz off (c # d # fmt) args =
     (if int off < sz
      then if c \<noteq> 37 then c # snprintf_loop sz (off + 1) (d # fmt) args
           else let (out, as) = sn_directive (nat sz - off) d args
                in out @ snprintf_loop sz (off + length out) fmt as
      else [])"

text \<open>The bytes stored at \<open>buf\<close>; their number is the result of the C function.\<close>

definition snprintf :: "int \<Rightarrow> uint8 list option \<Rightarrow> fmtarg list \<Rightarrow> ('z machine_scheme, uint8 list) K" where
  "snprintf sz fmt args =
     (case fmt of
        None \<Rightarrow> panic ''null fmt''
      | Some f \<Rightarrow> ret (snprintf_loop sz 0 f args))"

text \<open>The characters \<^verbatim>\<open>printf\<close> sends to the console.\<close>

definition pr_directive :: "uint8 \<Rightarrow> fmtarg list \<Rightarrow> uint8 list \<times> fmtarg list" where
  "pr_directive c args =
     (if c = of_char CHR ''d'' then (let (x, as) = arg_int args in (printint x 10 True, as))
      else if c = of_char CHR ''x'' then (let (x, as) = arg_int args in (printint x 16 True, as))
      else if c = of_char CHR ''p'' then (let (x, as) = arg_ptr args in (printptr_out x, as))
      else if c = of_char CHR ''s'' then arg_str args
      else if c = 37 then ([37], args)
      else ([37, c], args))"

fun printf_out :: "uint8 list \<Rightarrow> fmtarg list \<Rightarrow> uint8 list" where
  "printf_out [] args = []"
| "printf_out [c] args = (if c \<noteq> 37 then [c] else [])"
| "printf_out (c # d # fmt) args =
     (if c \<noteq> 37 then c # printf_out (d # fmt) args
      else let (out, as) = pr_directive d args in out @ printf_out fmt as)"

section \<open>Reading a number back\<close>

fun digit_val :: "uint8 \<Rightarrow> nat" where
  "digit_val c = (if c < 97 then unat c - 48 else unat c - 87)"

definition read_digits :: "nat \<Rightarrow> uint8 list \<Rightarrow> nat" where
  "read_digits base cs = foldl (\<lambda>n c. n * base + digit_val c) 0 cs"

definition read_int :: "nat \<Rightarrow> uint8 list \<Rightarrow> int" where
  "read_int base cs =
     (case cs of c # ds \<Rightarrow> if c = 45 then - int (read_digits base ds) else int (read_digits base cs)
      | [] \<Rightarrow> 0)"

lemma length_digits: "length digits = 16"
  by (simp add: digits_def)

lemma digit_val_digits: "n < 16 \<Longrightarrow> digit_val (digits ! n) = n"
proof -
  assume "n < 16"
  then have "n \<in> set [0..<16]" by simp
  moreover have "\<forall>n \<in> set [0..<16]. digit_val (digits ! n) = n"
    by code_simp
  ultimately show ?thesis by blast
qed

lemma digits_no_minus: "n < 16 \<Longrightarrow> digits ! n \<noteq> 45"
proof -
  assume "n < 16"
  then have "n \<in> set [0..<16]" by simp
  moreover have "\<forall>n \<in> set [0..<16]. digits ! n \<noteq> 45"
    by code_simp
  ultimately show ?thesis by blast
qed

lemma unat_mod_base: "0 < unat base \<Longrightarrow> unat (x mod base :: uint32) < unat base"
  by (simp add: unat_mod)

lemma digits_rev_props:
  assumes "2 \<le> unat base" "unat base \<le> 16"
  shows "foldr (\<lambda>c n. n * unat base + digit_val c) (digits_rev x base) 0 = unat x
    \<and> 45 \<notin> set (digits_rev x base) \<and> digits_rev x base \<noteq> []
    \<and> (\<forall>k. unat x < unat base ^ k \<longrightarrow> 0 < k \<longrightarrow> length (digits_rev x base) \<le> k)"
  using assms
proof (induction x base rule: digits_rev.induct)
  case (1 x base)
  define d where "d = digits ! unat (x mod base)"
  have lt: "unat (x mod base) < 16"
    using unat_mod_base [of base x] "1.prems" by simp
  have d: "digit_val d = unat x mod unat base" "d \<noteq> 45"
    using lt digit_val_digits [OF lt] digits_no_minus [OF lt]
    unfolding d_def by (simp_all add: unat_mod del: digit_val.simps)
  have base2: "\<not> base < 2" using "1.prems" by (simp add: word_less_nat_alt)
  show ?case
  proof (cases "x div base = 0")
    case True
    then have "unat x div unat base = 0" by (simp add: unat_div [symmetric])
    then have "unat x < unat base" using "1.prems" by (simp add: div_eq_0_iff)
    with True d show ?thesis
      by (subst (1 2 3 4) digits_rev.simps) (simp add: d_def [symmetric] del: digit_val.simps)
  next
    case False
    note IH = "1.IH" [OF _ "1.prems"]
    have eq: "digits_rev x base = d # digits_rev (x div base) base"
      using False base2 by (subst digits_rev.simps) (simp add: d_def)
    have len: "length (digits_rev x base) \<le> k" if k: "unat x < unat base ^ k" "0 < k" for k
    proof -
      obtain j where j: "k = Suc j" using k by (cases k) auto
      have "unat x div unat base \<noteq> 0" using False by (simp add: unat_div [symmetric] unat_eq_zero)
      then have "0 < j" using k j by (cases j) auto
      moreover have "unat (x div base) < unat base ^ j"
        using k "1.prems" by (simp add: j unat_div less_mult_imp_div_less mult.commute)
      ultimately show ?thesis using IH False base2 by (simp add: eq j)
    qed
    show ?thesis
      using IH False base2 d len by (simp add: eq unat_div del: digit_val.simps)
  qed
qed


lemma digits_rev_length32:
  assumes "base = 10 \<or> base = (16 :: uint32)"
  shows "length (digits_rev x base) \<le> 10"
proof -
  have "unat x < 2 ^ 32" by (rule unat_less32)
  moreover have "(2 :: nat) ^ 32 \<le> 10 ^ 10" "(10 :: nat) ^ 10 \<le> 16 ^ 10" by simp_all
  ultimately have "unat x < unat base ^ 10" using assms by auto
  then show ?thesis using digits_rev_props [of base x] assms by auto
qed

lemma read_digits_rev:
  "read_digits b (rev ds) = foldr (\<lambda>c n. n * b + digit_val c) ds 0"
  by (simp add: read_digits_def foldl_conv_foldr del: digit_val.simps)


lemma length_sprintint: "base = 10 \<or> base = 16 \<Longrightarrow> length (sprintint xx base sign) \<le> 11"
  using digits_rev_length32 [of base xx] digits_rev_length32 [of base "- xx"]
  by (auto simp: sprintint_def Let_def)

lemma read_int_sprintint:
  assumes base: "base = 10 \<or> base = 16"
  shows "read_int (unat base) (sprintint xx base True) = sint xx"
proof -
  have b: "2 \<le> unat base" "unat base \<le> 16" using base by auto
  have D: "read_digits (unat base) (rev (digits_rev x base)) = unat x"
    "45 \<notin> set (digits_rev x base)" "digits_rev x base \<noteq> []" for x
    using digits_rev_props [OF b, of x] by (simp_all add: read_digits_rev del: digit_val.simps)
  show ?thesis
  proof (cases "sint xx < 0")
    case True
    then show ?thesis
      by (simp add: sprintint_def read_int_def D sint_neg32)
  next
    case False
    have "rev (digits_rev xx base) \<noteq> []" using D(3) by simp
    then obtain c cs where c: "rev (digits_rev xx base) = c # cs" by (cases "rev (digits_rev xx base)") auto
    then have "c \<in> set (digits_rev xx base)" by (metis list.set_intros(1) set_rev)
    then have "c \<noteq> 45" using D(2) by auto
    then show ?thesis
      using False D(1) [of xx] by (simp add: sprintint_def read_int_def c sint_nonneg32)
  qed
qed

lemma length_sn_directive: "length (fst (sn_directive room c args)) \<le> max room 11"
  using length_sprintint [of 10] length_sprintint [of 16]
  by (auto simp: sn_directive_def le_max_iff_disj split: prod.splits)

lemma snprintf_loop_le: "length (snprintf_loop sz off fmt args) \<le> nat (sz + 10 - int off)"
proof (induction sz off fmt args rule: snprintf_loop.induct)
  case (3 sz off c d fmt args)
  show ?case
  proof (cases "int off < sz")
    case True
    show ?thesis
    proof (cases "c = 37")
      case False
      then have "length (snprintf_loop sz (off + 1) (d # fmt) args) \<le> nat (sz + 10 - int (off + 1))"
        using 3(1) True by simp
      then show ?thesis using True False by simp
    next
      case c: True
      obtain out as where o: "sn_directive (nat sz - off) d args = (out, as)" by fastforce
      have l: "length out \<le> max (nat sz - off) 11"
        using length_sn_directive [of "nat sz - off" d args] by (simp add: o)
      have "length (snprintf_loop sz (off + length out) fmt as) \<le> nat (sz + 10 - int (off + length out))"
        using 3(2) [OF True _ o [symmetric] refl] c by simp
      then show ?thesis using True l by (simp add: c o)
    qed
  qed simp
qed auto

text \<open>C16. Printed numbers read back. In base 10 and in base 16 the characters \<^verbatim>\<open>sprintint\<close>
  stores for a signed 32-bit integer are its numeral, with a minus sign for a negative
  number, the most negative one included; and they fit the local array of 16 characters.
\<close>

theorem sprintint_roundtrip:
  assumes "base = 10 \<or> base = 16"
  shows "read_int (unat base) (sprintint xx base True) = sint xx
    \<and> length (sprintint xx base True) \<le> 11"
  using read_int_sprintint [OF assms] length_sprintint [OF assms] by simp

theorem sprintint_roundtrip_witness:
  "read_int (unat (10 :: uint32)) (sprintint 0x80000000 10 True) = - 2147483648"
  using sprintint_roundtrip [of 10 "0x80000000"] by simp

text \<open>C17. How far \<^verbatim>\<open>snprintf\<close> writes. Whatever the format and the arguments are, at most
  ten bytes are stored past the size that was given, none when the size is not positive;
  and the ten bytes are reached, because a number is stored without looking at the size.
\<close>

theorem snprintf_overrun:
  "length (snprintf_loop sz 0 fmt args) \<le> nat (sz + 10)
   \<and> (sz \<le> 0 \<longrightarrow> snprintf_loop sz 0 fmt args = [])
   \<and> length (snprintf_loop 1 0 (map of_char ''%d'') [AInt 0x80000000]) = 11"
proof (intro conjI impI)
  show "length (snprintf_loop sz 0 fmt args) \<le> nat (sz + 10)"
    using snprintf_loop_le [of sz 0] by simp
  show "snprintf_loop sz 0 fmt args = []" if "sz \<le> 0"
    using that by (cases "(sz, 0::nat, fmt, args)" rule: snprintf_loop.cases) auto
  show "length (snprintf_loop 1 0 (map of_char ''%d'') [AInt 0x80000000]) = 11"
    by code_simp
qed

theorem snprintf_overrun_witness:
  "snprintf_loop 0 0 (map of_char ''%d'') [AInt 7] = []"
  using snprintf_overrun [of 0] by simp

end
