(* ===== verification/Ring.thy ===== *)
theory Ring
  imports Kernel_Prelude
begin

text \<open>
  Ring buffers whose read and write positions are machine words that count for ever and wrap
  around: the transmit buffer of the serial port, the input buffer of the console, pipes. The
  abstract content of such a buffer is a list; the locale says what an implementation has to
  provide, and that it then is a queue.
\<close>

definition ring_count :: "'w::len word \<Rightarrow> 'w word \<Rightarrow> nat" where
  "ring_count r w = unat (w - r)"

definition ring_list :: "nat \<Rightarrow> 'w::len word \<Rightarrow> 'w word \<Rightarrow> (nat \<Rightarrow> 'b) \<Rightarrow> 'b list" where
  "ring_list cap r w d = map (\<lambda>i. d (unat (r + of_nat i) mod cap)) [0..<ring_count r w]"

lemma length_ring_list [simp]: "length (ring_list cap r w d) = ring_count r w"
  by (simp add: ring_list_def)

lemma ring_count_0 [simp]: "ring_count r r = 0"
  by (simp add: ring_count_def)

lemma ring_count_eq_0: "ring_count r w = 0 \<longleftrightarrow> r = w"
  by (auto simp: ring_count_def unat_eq_zero)

lemma ring_list_Nil: "ring_list cap r w d = [] \<longleftrightarrow> r = w"
  using length_ring_list [of cap r w d] ring_count_eq_0 [of r w] by (cases "ring_list cap r w d") auto

lemma ring_count_full:
  assumes "cap < 2 ^ LENGTH('w)"
  shows "ring_count r (w :: 'w::len word) = cap \<longleftrightarrow> w = r + of_nat cap"
proof
  assume "ring_count r w = cap"
  then have "w - r = of_nat cap" by (auto simp: ring_count_def)
  then show "w = r + of_nat cap" by (simp add: algebra_simps)
qed (use assms in \<open>simp add: ring_count_def unat_of_nat take_bit_nat_eq_self\<close>)

lemma slot_index:
  assumes "cap dvd 2 ^ LENGTH('w)"
  shows "unat (r + of_nat i :: 'w::len word) mod cap = (unat r + i) mod cap"
proof -
  have "unat (r + of_nat i :: 'w word) = (unat r + i) mod 2 ^ LENGTH('w)"
    by (simp add: unat_word_ariths unat_of_nat take_bit_eq_mod mod_add_right_eq)
  then show ?thesis using assms by (simp add: mod_mod_cancel)
qed

lemma slots_differ:
  assumes "i < j" "j < i + cap"
  shows "(n + i) mod cap \<noteq> (n + j) mod (cap :: nat)"
proof
  assume "(n + i) mod cap = (n + j) mod cap"
  then have "cap dvd (n + j) - (n + i)"
    using mod_eq_dvd_iff_nat [of "n + i" "n + j" cap] assms(1) by simp
  then have "cap dvd j - i" using assms by simp
  then show False using assms by (auto dest!: dvd_imp_le)
qed

lemma ring_count_inc:
  assumes "Suc (ring_count r w) < 2 ^ LENGTH('w)"
  shows "ring_count r (w + 1 :: 'w::len word) = Suc (ring_count r w)"
proof -
  have "unat ((w - r) + 1) = Suc (unat (w - r))"
    using assms by (simp add: ring_count_def unat_word_ariths(1))
  then show ?thesis by (simp add: ring_count_def algebra_simps)
qed

lemma ring_count_dec:
  assumes "r \<noteq> (w :: 'w::len word)"
  shows "ring_count r w = Suc (ring_count (r + 1) w)"
proof -
  have "w - r \<noteq> 0" using assms by auto
  then have "unat (w - r) = Suc (unat (w - r - 1))"
    by (metis Suc_pred' unat_gt_0 unat_minus_one)
  then show ?thesis by (simp add: ring_count_def diff_diff_eq)
qed

section \<open>The interface\<close>

text \<open>
  \<open>put\<close> stores an element at the write position and advances it; \<open>skip\<close> advances the
  read position.
\<close>

locale ring =
  fixes cap :: nat
    and rd :: "'r \<Rightarrow> 'w::len word"
    and wr :: "'r \<Rightarrow> 'w word"
    and slot :: "'r \<Rightarrow> nat \<Rightarrow> 'b"
    and put :: "'b \<Rightarrow> 'r \<Rightarrow> 'r"
    and skip :: "'r \<Rightarrow> 'r"
  assumes cap_pos: "0 < cap" and cap_less: "cap < 2 ^ LENGTH('w)" and cap_dvd: "cap dvd 2 ^ LENGTH('w)"
    and put_laws: "rd (put b r) = rd r" "wr (put b r) = wr r + 1"
      "slot (put b r) = (slot r)(unat (wr r) mod cap := b)"
    and skip_laws: "rd (skip r) = rd r + 1" "wr (skip r) = wr r" "slot (skip r) = slot r"
begin

lemma put_appends:
  assumes "ring_count (rd r) (wr r) < cap"
  shows "ring_list cap (rd (put b r)) (wr (put b r)) (slot (put b r))
    = ring_list cap (rd r) (wr r) (slot r) @ [b]"
proof -
  define n where "n = ring_count (rd r) (wr r)"
  have n: "n < cap" using assms by (simp add: n_def)
  have cnt: "ring_count (rd r) (wr r + 1) = Suc n"
    using ring_count_inc [of "rd r" "wr r"] n cap_less by (simp add: n_def)
  have w: "wr r = rd r + of_nat n"
    by (simp add: n_def ring_count_def)
  have wi: "unat (wr r) mod cap = (unat (rd r) + n) mod cap"
    unfolding w by (rule slot_index [OF cap_dvd])
  have ne: "(unat (rd r) + i) mod cap \<noteq> (unat (rd r) + n) mod cap" if "i < n" for i
    using slots_differ [of i n cap "unat (rd r)"] that n by simp
  show ?thesis
    unfolding ring_list_def put_laws cnt
    by (simp add: ne wi slot_index [OF cap_dvd] n_def [symmetric])
qed

lemma put_count:
  assumes "ring_count (rd r) (wr r) < cap"
  shows "ring_count (rd (put b r)) (wr (put b r)) \<le> cap"
  using put_appends [OF assms, of b] assms
  by (metis Suc_leI length_append_singleton length_ring_list)

lemma skip_removes:
  assumes "rd r \<noteq> wr r"
  shows "ring_list cap (rd r) (wr r) (slot r)
    = slot r (unat (rd r) mod cap) # ring_list cap (rd (skip r)) (wr (skip r)) (slot (skip r))"
proof -
  have cnt: "ring_count (rd r) (wr r) = Suc (ring_count (rd r + 1) (wr r))"
    by (rule ring_count_dec [OF assms])
  show ?thesis
    unfolding ring_list_def skip_laws cnt upt_conv_Cons [OF zero_less_Suc]
    by (simp add: map_Suc_upt [symmetric] add.assoc del: upt_Suc)
qed

lemma full_iff: "wr r = rd r + of_nat cap \<longleftrightarrow> length (ring_list cap (rd r) (wr r) (slot r)) = cap"
  using ring_count_full [OF cap_less, of "rd r" "wr r"] by simp

end

end
