(* ===== verification/Console.thy ===== *)
theory Console
  imports Fs Sprintf Ring
begin

text \<open>
  The serial port, the console and \<^verbatim>\<open>printf\<close>: \<^verbatim>\<open>kernel/uart.c\<close>,
  \<^verbatim>\<open>kernel/console.c\<close>, \<^verbatim>\<open>kernel/printf.c\<close> and \<^verbatim>\<open>procdump\<close> of \<^verbatim>\<open>proc.c\<close>. A
  register of the device that the kernel reads is a byte the device may change before every
  read; the bytes the kernel writes to registers are kept in the order of the writes.
\<close>

section \<open>State\<close>

record uart =
  u_regs :: "nat \<Rightarrow> uint8"
  u_writes :: "(nat \<times> uint8) list"
  tx_buf :: "nat \<Rightarrow> uint8"
  tx_w :: uint64
  tx_r :: uint64

record cons =
  c_buf :: "nat \<Rightarrow> uint8"
  c_r :: uint32
  c_w :: uint32
  c_e :: uint32

text \<open>A byte into the transmit buffer, and out of it; the same for the input buffer.\<close>

abbreviation (input) UART_TX_BUF_SIZE :: uint64 where "UART_TX_BUF_SIZE \<equiv> 32"

abbreviation (input) INPUT_BUF :: uint32 where "INPUT_BUF \<equiv> 128"

definition uart_put :: "uint8 \<Rightarrow> uart \<Rightarrow> uart" where
  "uart_put c u =
     u\<lparr>tx_buf := (tx_buf u)(unat (tx_w u mod UART_TX_BUF_SIZE) := c), tx_w := tx_w u + 1\<rparr>"

definition uart_skip :: "uart \<Rightarrow> uart" where
  "uart_skip u = u\<lparr>tx_r := tx_r u + 1\<rparr>"

definition cons_put :: "uint8 \<Rightarrow> cons \<Rightarrow> cons" where
  "cons_put c x = x\<lparr>c_buf := (c_buf x)(unat (c_e x mod INPUT_BUF) := c), c_e := c_e x + 1\<rparr>"

definition cons_skip :: "cons \<Rightarrow> cons" where
  "cons_skip x = x\<lparr>c_r := c_r x + 1\<rparr>"

text \<open>\<^verbatim>\<open>struct devsw\<close> of \<^verbatim>\<open>file.h\<close>: the functions that are ever stored in it, by name.\<close>

datatype devfn = Consoleread | Consolewrite | Statsread | Statswrite

record devsw =
  dv_read :: "devfn option"
  dv_write :: "devfn option"

record dev_state = fs_state +
  uartd :: uart
  consd :: cons
  pr_locking :: bool
  panicked :: bool
  devsws :: "nat \<Rightarrow> devsw"

definition upd_uart :: "(uart \<Rightarrow> uart) \<Rightarrow> ('z dev_state_scheme, unit) K" where
  [kdefs]: "upd_uart f = modify (\<lambda>s. s\<lparr>uartd := f (uartd s)\<rparr>)"

definition upd_cons :: "(cons \<Rightarrow> cons) \<Rightarrow> ('z dev_state_scheme, unit) K" where
  [kdefs]: "upd_cons f = modify (\<lambda>s. s\<lparr>consd := f (consd s)\<rparr>)"

section \<open>The serial port\<close>

abbreviation (input) RHR :: nat where "RHR \<equiv> 0"
abbreviation (input) THR :: nat where "THR \<equiv> 0"
abbreviation (input) IER :: nat where "IER \<equiv> 1"
abbreviation (input) FCR :: nat where "FCR \<equiv> 2"
abbreviation (input) LCR :: nat where "LCR \<equiv> 3"
abbreviation (input) LSR :: nat where "LSR \<equiv> 5"
abbreviation (input) LSR_TX_IDLE :: uint8 where "LSR_TX_IDLE \<equiv> 0x20"

definition ReadReg :: "nat \<Rightarrow> ('z dev_state_scheme, uint8) K" where
  [kdefs]: "ReadReg r = thn (interfere (AtDev (UART0 + of_nat r))) (gets (\<lambda>s. u_regs (uartd s) r))"

definition WriteReg :: "nat \<Rightarrow> uint8 \<Rightarrow> ('z dev_state_scheme, unit) K" where
  [kdefs]: "WriteReg r v = upd_uart (\<lambda>u. u\<lparr>u_writes := u_writes u @ [(r, v)]\<rparr>)"

definition uartinit :: "('z dev_state_scheme, unit) K" where
  "uartinit =
     thn (WriteReg IER 0) (
     thn (WriteReg LCR 0x80) (
     thn (WriteReg 0 0x03) (
     thn (WriteReg 1 0x00) (
     thn (WriteReg LCR 3) (
     thn (WriteReg FCR (1 OR 6)) (
     thn (WriteReg IER (2 OR 1)) (
     initlock UartTxLock ''uart'')))))))"

partial_function (option) uartstart ::
  "(lockid, 'z dev_state_scheme) env \<Rightarrow> 'z dev_state_scheme \<Rightarrow>
     ('z dev_state_scheme, unit) outcome option" where
  "uartstart E s =
     bnd (gets uartd) (\<lambda>u.
     if tx_w u = tx_r u then ret ()
     else bnd (ReadReg LSR) (\<lambda>lsr.
          if lsr AND LSR_TX_IDLE = 0 then ret ()
          else bnd (gets (\<lambda>s. tx_buf (uartd s) (unat (tx_r (uartd s) mod UART_TX_BUF_SIZE)))) (\<lambda>c.
               thn (upd_uart uart_skip) (
               thn (wakeup (Some ChUartR)) (
               thn (WriteReg THR c) (
               uartstart)))))) E s"

partial_function (option) uartputc_loop ::
  "uint8 \<Rightarrow> (lockid, 'z dev_state_scheme) env \<Rightarrow> 'z dev_state_scheme \<Rightarrow>
     ('z dev_state_scheme, unit) outcome option" where
  "uartputc_loop c E s =
     bnd (gets uartd) (\<lambda>u.
     if tx_w u = tx_r u + UART_TX_BUF_SIZE
     then thn (sleep ChUartR UartTxLock) (uartputc_loop c)
     else thn (upd_uart (uart_put c)) (
          thn uartstart (
          release UartTxLock))) E s"

definition uartputc :: "uint32 \<Rightarrow> ('z dev_state_scheme, unit) K" where
  "uartputc c =
     thn (acquire UartTxLock) (
     bnd (gets panicked) (\<lambda>pan.
     if pan then hang else uartputc_loop (ucast c)))"

partial_function (option) tx_idle ::
  "(lockid, 'z dev_state_scheme) env \<Rightarrow> 'z dev_state_scheme \<Rightarrow>
     ('z dev_state_scheme, unit) outcome option" where
  "tx_idle E s =
     bnd (ReadReg LSR) (\<lambda>lsr. if lsr AND LSR_TX_IDLE = 0 then tx_idle else ret ()) E s"

definition uartputc_sync :: "uint32 \<Rightarrow> ('z dev_state_scheme, unit) K" where
  "uartputc_sync c =
     thn push_off (
     bnd (gets panicked) (\<lambda>pan.
     if pan then hang
     else thn tx_idle (
          thn (WriteReg THR (ucast c)) (
          pop_off))))"

text \<open>\<^verbatim>\<open>None\<close> for -1.\<close>

definition uartgetc :: "('z dev_state_scheme, uint8 option) K" where
  "uartgetc =
     bnd (ReadReg LSR) (\<lambda>lsr.
     if lsr AND 1 \<noteq> 0 then bnd (ReadReg RHR) (\<lambda>c. ret (Some c))
     else ret None)"

section \<open>Printing\<close>

abbreviation (input) BACKSPACE :: uint32 where "BACKSPACE \<equiv> 0x100"

definition consputc :: "uint32 \<Rightarrow> ('z dev_state_scheme, unit) K" where
  "consputc c =
     (if c = BACKSPACE
      then thn (uartputc_sync 8) (thn (uartputc_sync 32) (uartputc_sync 8))
      else uartputc_sync c)"

definition printf :: "uint8 list option \<Rightarrow> fmtarg list \<Rightarrow> ('z dev_state_scheme, unit) K" where
  "printf fmt args =
     bnd (gets pr_locking) (\<lambda>locking.
     thn (whenK locking (acquire PrLock)) (
     case fmt of
       None \<Rightarrow> panic ''null fmt''
     | Some f \<Rightarrow>
         thn (forK (printf_out f args) (\<lambda>c. consputc (ucast c))) (
         whenK locking (release PrLock))))"

definition printfinit :: "('z dev_state_scheme, unit) K" where
  "printfinit =
     thn (initlock PrLock ''pr'') (
     modify (\<lambda>s. s\<lparr>pr_locking := True\<rparr>))"

fun state_name :: "procstate \<Rightarrow> uint8 list option" where
  "state_name UNUSED = lit ''unused''"
| "state_name USED = lit ''???''"
| "state_name SLEEPING = lit ''sleep ''"
| "state_name RUNNABLE = lit ''runble''"
| "state_name RUNNING = lit ''run   ''"
| "state_name ZOMBIE = lit ''zombie''"

definition procdump :: "('z dev_state_scheme, unit) K" where
  "procdump =
     thn (printf (Some [10]) []) (
     forK [0..<NPROC] (\<lambda>p.
       bnd (gets (\<lambda>s. procs s p)) (\<lambda>pr.
       whenK (p_state pr \<noteq> UNUSED)
         (thn (printf (lit ''%d %s %s'')
                 [AInt (p_pid pr), AStr (state_name (p_state pr)), AStr (Some (cstr (p_name pr) 0 16))]) (
          printf (Some [10]) [])))))"

section \<open>The console\<close>

abbreviation (input) cons_slot :: "uint32 \<Rightarrow> nat" where "cons_slot i \<equiv> unat (i mod 128)"

fun consolewrite_loop :: "source \<Rightarrow> nat \<Rightarrow> nat \<Rightarrow> ('z dev_state_scheme, nat) K" where
  "consolewrite_loop src i 0 = ret i"
| "consolewrite_loop src i (Suc k) =
     bnd (either_copyin src 1) (\<lambda>(r, bs).
     if r = - 1 then ret i
     else thn (uartputc (ucast (hd (bs @ [0])))) (
          consolewrite_loop (src_advance src 1) (i + 1) k))"

definition consolewrite :: "source \<Rightarrow> int \<Rightarrow> ('z dev_state_scheme, int) K" where
  "consolewrite src n =
     bnd (consolewrite_loop src 0 (nat n)) (\<lambda>i. ret (int i))"

text \<open>Wait for input; \<open>False\<close> when the process was killed (the lock is then released).\<close>

partial_function (option) cons_wait ::
  "(lockid, 'z dev_state_scheme) env \<Rightarrow> 'z dev_state_scheme \<Rightarrow>
     ('z dev_state_scheme, bool) outcome option" where
  "cons_wait E s =
     bnd (gets consd) (\<lambda>c.
     if c_r c = c_w c
     then bnd curproc (\<lambda>p.
          bnd (gets (\<lambda>s. p_killed (procs s p))) (\<lambda>killed.
          if killed then thn (release ConsLock) (ret False)
          else thn (sleep ChConsR ConsLock) cons_wait))
     else ret True) E s"

text \<open>
  The loop of \<^verbatim>\<open>consoleread\<close> with \<open>n\<close> bytes to go: how many are left at the end, or
  \<open>None\<close> for a killed process, and the bytes for a kernel destination.
\<close>

fun consoleread_loop ::
  "nat \<Rightarrow> bool \<Rightarrow> uint64 \<Rightarrow> nat \<Rightarrow> ('z dev_state_scheme, nat option \<times> uint8 list) K" where
  "consoleread_loop target user_dst dst 0 = ret (Some 0, [])"
| "consoleread_loop target user_dst dst (Suc n) =
     bnd cons_wait (\<lambda>ok.
     if \<not> ok then ret (None, [])
     else bnd (gets (\<lambda>s. c_buf (consd s) (cons_slot (c_r (consd s))))) (\<lambda>c.
          thn (upd_cons cons_skip) (
          if c = 4
          then thn (whenK (Suc n < target) (upd_cons (\<lambda>x. x\<lparr>c_r := c_r x - 1\<rparr>))) (ret (Some (Suc n), []))
          else bnd (either_copyout user_dst dst [c]) (\<lambda>(r, bs).
               if r = - 1 then ret (Some (Suc n), [])
               else if c = 10 then ret (Some n, bs)
               else bnd (consoleread_loop target user_dst (dst + 1) n) (\<lambda>(left, rest).
                    ret (left, bs @ rest))))))"

definition consoleread :: "bool \<Rightarrow> uint64 \<Rightarrow> int \<Rightarrow> ('z dev_state_scheme, int \<times> uint8 list) K" where
  "consoleread user_dst dst n =
     thn (acquire ConsLock) (
     if n \<le> 0 then thn (release ConsLock) (ret (0, []))
     else bnd (consoleread_loop (nat n) user_dst dst (nat n)) (\<lambda>(r, bs).
          case r of
            None \<Rightarrow> ret (- 1, bs)
          | Some left \<Rightarrow> thn (release ConsLock) (ret (n - int left, bs))))"

partial_function (option) kill_line ::
  "(lockid, 'z dev_state_scheme) env \<Rightarrow> 'z dev_state_scheme \<Rightarrow>
     ('z dev_state_scheme, unit) outcome option" where
  "kill_line E s =
     bnd (gets consd) (\<lambda>c.
     if c_e c \<noteq> c_w c \<and> c_buf c (cons_slot (c_e c - 1)) \<noteq> 10
     then thn (upd_cons (\<lambda>x. x\<lparr>c_e := c_e x - 1\<rparr>)) (
          thn (consputc BACKSPACE) kill_line)
     else ret ()) E s"

text \<open>A character is stored for \<^verbatim>\<open>consoleread\<close>.\<close>

definition cons_store :: "uint32 \<Rightarrow> ('z dev_state_scheme, unit) K" where
  "cons_store c0 =
     (let c = (if c0 = 13 then 10 else c0) in
      thn (consputc c) (
      thn (upd_cons (cons_put (ucast c))) (
      bnd (gets consd) (\<lambda>x.
      whenK (c = 10 \<or> c = 4 \<or> c_e x = c_r x + INPUT_BUF)
        (thn (upd_cons (\<lambda>x. x\<lparr>c_w := c_e x\<rparr>)) (
         wakeup (Some ChConsR)))))))"

definition consoleintr :: "uint32 \<Rightarrow> ('z dev_state_scheme, unit) K" where
  "consoleintr c =
     thn (acquire ConsLock) (
     thn (if c = 16 then procdump
          else if c = 21 then kill_line
          else if c = 8 \<or> c = 0x7f
          then bnd (gets consd) (\<lambda>x.
               whenK (c_e x \<noteq> c_w x)
                 (thn (upd_cons (\<lambda>x. x\<lparr>c_e := c_e x - 1\<rparr>)) (consputc BACKSPACE)))
          else bnd (gets consd) (\<lambda>x.
               whenK (c \<noteq> 0 \<and> c_e x - c_r x < INPUT_BUF) (cons_store c))) (
     release ConsLock))"

definition consoleinit :: "('z dev_state_scheme, unit) K" where
  "consoleinit =
     thn (initlock ConsLock ''cons'') (
     thn uartinit (
     modify (\<lambda>s. s\<lparr>devsws := (devsws s)(1 := \<lparr>dv_read = Some Consoleread, dv_write = Some Consolewrite\<rparr>)\<rparr>)))"

text \<open>Received characters first, then what waits to be sent.\<close>

partial_function (option) uartintr_loop ::
  "(lockid, 'z dev_state_scheme) env \<Rightarrow> 'z dev_state_scheme \<Rightarrow>
     ('z dev_state_scheme, unit) outcome option" where
  "uartintr_loop E s =
     bnd uartgetc (\<lambda>r.
     case r of
       None \<Rightarrow> ret ()
     | Some c \<Rightarrow> thn (consoleintr (ucast c)) uartintr_loop) E s"

definition uartintr :: "('z dev_state_scheme, unit) K" where
  "uartintr =
     thn uartintr_loop (
     thn (acquire UartTxLock) (
     thn uartstart (
     release UartTxLock)))"

section \<open>The buffers are queues\<close>

interpretation uart_ring: ring 32 tx_r tx_w tx_buf uart_put uart_skip
  by unfold_locales (simp_all add: uart_put_def uart_skip_def unat_mod)

interpretation cons_ring: ring 128 c_r c_e c_buf cons_put cons_skip
  by unfold_locales (simp_all add: cons_put_def cons_skip_def unat_mod)

section \<open>Up to lock statistics\<close>

lemma lk_eq_dev [lk_fields]:
  assumes "lk_eq s t"
  shows "uartd t = uartd s"
    "consd t = consd s"
    "pr_locking t = pr_locking s"
    "panicked t = panicked s"
    "devsws t = devsws s"
  using assms by (cases s; cases t; simp add: lk_eq_def)+

lemma dev_acquired [simp]:
  "uartd (acquired l s) = uartd s"
    "consd (acquired l s) = consd s"
    "pr_locking (acquired l s) = pr_locking s"
    "panicked (acquired l s) = panicked s"
    "devsws (acquired l s) = devsws s"
    "(acquired l s)\<lparr>uartd := x0\<rparr> = acquired l (s\<lparr>uartd := x0\<rparr>)"
    "(acquired l s)\<lparr>consd := x1\<rparr> = acquired l (s\<lparr>consd := x1\<rparr>)"
    "(acquired l s)\<lparr>pr_locking := x2\<rparr> = acquired l (s\<lparr>pr_locking := x2\<rparr>)"
    "(acquired l s)\<lparr>panicked := x3\<rparr> = acquired l (s\<lparr>panicked := x3\<rparr>)"
    "(acquired l s)\<lparr>devsws := x4\<rparr> = acquired l (s\<lparr>devsws := x4\<rparr>)"
  by (simp_all add: lockfx intr_enabled_def)

lemma lk_eq_dev_update [lk_fields]:
  assumes "lk_eq s t"
  shows "lk_eq (s\<lparr>uartd := x0\<rparr>) (t\<lparr>uartd := x0\<rparr>)"
    "lk_eq (s\<lparr>consd := x1\<rparr>) (t\<lparr>consd := x1\<rparr>)"
    "lk_eq (s\<lparr>pr_locking := x2\<rparr>) (t\<lparr>pr_locking := x2\<rparr>)"
    "lk_eq (s\<lparr>panicked := x3\<rparr>) (t\<lparr>panicked := x3\<rparr>)"
    "lk_eq (s\<lparr>devsws := x4\<rparr>) (t\<lparr>devsws := x4\<rparr>)"
  using assms by (cases s; cases t; auto simp: lk_eq_def lk_same_def)+

lemma dev_cpu_ok [simp]:
  "cpu_room n (s\<lparr>uartd := x0\<rparr>) = cpu_room n s"
    "cpu_room n (s\<lparr>consd := x1\<rparr>) = cpu_room n s"
    "cpu_room n (s\<lparr>pr_locking := x2\<rparr>) = cpu_room n s"
    "cpu_room n (s\<lparr>panicked := x3\<rparr>) = cpu_room n s"
    "cpu_room n (s\<lparr>devsws := x4\<rparr>) = cpu_room n s"
  by (simp_all add: cpu_room_def intr_enabled_def)

lemma ends_upd_uart [kends]: "Q () (s\<lparr>uartd := f (uartd s)\<rparr>) \<Longrightarrow> ends E s (upd_uart f) Q"
  unfolding upd_uart_def by (rule ends_modify) (simp_all add: lk_fields)

lemma ends_upd_cons [kends]: "Q () (s\<lparr>consd := f (consd s)\<rparr>) \<Longrightarrow> ends E s (upd_cons f) Q"
  unfolding upd_cons_def by (rule ends_modify) (simp_all add: lk_fields)

text \<open>An example state.\<close>

definition demo_dev :: dev_state where
  "demo_dev = fs_state.extend demo_fs (dev_state.fields
     \<lparr>u_regs = (\<lambda>_. 0x20), u_writes = [], tx_buf = (\<lambda>_. 0), tx_w = 0, tx_r = 0\<rparr>
     \<lparr>c_buf = (\<lambda>_. 0), c_r = 0, c_w = 0, c_e = 0\<rparr> True False (\<lambda>_. \<lparr>dv_read = None, dv_write = None\<rparr>))"

lemma demo_dev_below [simp]:
  "tp demo_dev = tp demo_fs"
    "csr demo_dev = csr demo_fs"
    "cpus demo_dev = cpus demo_fs"
    "locks demo_dev = locks demo_fs"
    "locktab demo_dev = locktab demo_fs"
    "ram demo_dev = ram demo_fs"
    "kend demo_dev = kend demo_fs"
    "freelist demo_dev = freelist demo_fs"
    "kernel_pagetable demo_dev = kernel_pagetable demo_fs"
    "procs demo_dev = procs demo_fs"
    "nextpid demo_dev = nextpid demo_fs"
    "initproc demo_dev = initproc demo_fs"
    "syms demo_dev = syms demo_fs"
    "ticks demo_dev = ticks demo_fs"
    "forkret_first demo_dev = forkret_first demo_fs"
    "slks demo_dev = slks demo_fs"
    "bufs demo_dev = bufs demo_fs"
    "vd demo_dev = vd demo_fs"
    "klg demo_dev = klg demo_fs"
    "sb demo_dev = sb demo_fs"
    "inodes demo_dev = inodes demo_fs"
  by (simp_all add: demo_dev_def fs_state.defs dev_state.defs)

end
