(* ===== verification/Stats.thy ===== *)
theory Stats
  imports Console
begin

text \<open>
  The statistics device of the lock lab: \<^verbatim>\<open>statslock\<close> of \<^verbatim>\<open>kernel/spinlock.c\<close> formats
  the counters of the locks, \<^verbatim>\<open>kernel/stats.c\<close> makes the text readable as a device. A lock's
  name is a HOL string.
\<close>

section \<open>Formatting\<close>

definition snprint_lock :: "int \<Rightarrow> spinlock \<Rightarrow> ('z machine_scheme, uint8 list) K" where
  "snprint_lock sz lk =
     (if sint (nacq lk) > 0
      then snprintf sz (lit (''lock: %s: #test-and-set %d #acquire() %d'' @ [CHR 0x0A]))
             [AStr (lit (lkname lk)), AInt (nts lk), AInt (nacq lk)]
      else ret [])"

definition kmem_or_bcache :: "spinlock \<Rightarrow> bool" where
  "kmem_or_bcache lk \<longleftrightarrow> take 6 (lkname lk) = ''bcache'' \<or> take 4 (lkname lk) = ''kmem''"

text \<open>The first loop of \<^verbatim>\<open>statslock\<close>: the text so far and the total; an empty slot ends it.\<close>

fun stats_scan :: "nat list \<Rightarrow> int \<Rightarrow> uint8 list \<Rightarrow> uint32 \<Rightarrow> ('z machine_scheme, uint8 list \<times> uint32) K" where
  "stats_scan [] sz out tot = ret (out, tot)"
| "stats_scan (i # is) sz out tot =
     bnd (gets (\<lambda>s. locktab s i)) (\<lambda>x.
     case x of
       None \<Rightarrow> ret (out, tot)
     | Some l \<Rightarrow>
         bnd (gets (\<lambda>s. locks s l)) (\<lambda>lk.
         if kmem_or_bcache lk
         then bnd (snprint_lock (sz - int (length out)) lk) (\<lambda>bs.
              stats_scan is sz (out @ bs) (tot + nts lk))
         else stats_scan is sz out tot))"

text \<open>The inner loop of the second part: the slot of the most contended lock below \<open>last_nts\<close>.\<close>

fun top_scan :: "nat list \<Rightarrow> int \<Rightarrow> nat \<Rightarrow> ('z machine_scheme, nat) K" where
  "top_scan [] last_nts topi = ret topi"
| "top_scan (i # is) last_nts topi =
     bnd (gets (\<lambda>s. locktab s i)) (\<lambda>x.
     case x of
       None \<Rightarrow> ret topi
     | Some l \<Rightarrow>
         bnd (gets (\<lambda>s. sint (nts (locks s l)))) (\<lambda>n.
         bnd (gets (\<lambda>s. locktab s topi)) (\<lambda>y.
         bnd (deref y) (\<lambda>tl.
         bnd (gets (\<lambda>s. sint (nts (locks s tl)))) (\<lambda>topn.
         top_scan is last_nts (if n > topn \<and> n < last_nts then i else topi))))))"

fun top_locks :: "nat \<Rightarrow> int \<Rightarrow> int \<Rightarrow> uint8 list \<Rightarrow> ('z machine_scheme, uint8 list) K" where
  "top_locks 0 sz last_nts out = ret out"
| "top_locks (Suc t) sz last_nts out =
     bnd (top_scan [0..<NLOCK] last_nts 0) (\<lambda>topi.
     bnd (gets (\<lambda>s. locktab s topi)) (\<lambda>y.
     bnd (deref y) (\<lambda>l.
     bnd (gets (\<lambda>s. locks s l)) (\<lambda>lk.
     bnd (snprint_lock (sz - int (length out)) lk) (\<lambda>bs.
     top_locks t sz (sint (nts lk)) (out @ bs))))))"

text \<open>The text stored at \<open>buf\<close>; its length is the result of the C function.\<close>

definition statslock :: "int \<Rightarrow> ('z machine_scheme, uint8 list) K" where
  "statslock sz =
     thn (acquire LockLocks) (
     bnd (snprintf sz (lit (''--- lock kmem/bcache stats'' @ [CHR 0x0A])) []) (\<lambda>h1.
     bnd (stats_scan [0..<NLOCK] sz h1 0) (\<lambda>(out, tot).
     bnd (snprintf (sz - int (length out)) (lit (''--- top 5 contended locks:'' @ [CHR 0x0A])) []) (\<lambda>h2.
     bnd (top_locks 5 sz 100000000 (out @ h2)) (\<lambda>out2.
     bnd (snprintf (sz - int (length out2)) (lit (''tot= %d'' @ [CHR 0x0A])) [AInt tot]) (\<lambda>t.
     thn (release LockLocks) (
     ret (out2 @ t))))))))"

section \<open>The device\<close>

record stats =
  ss_buf :: memory
  ss_sz :: int
  ss_off :: int

record stats_state = dev_state +
  statsd :: stats

definition upd_stats :: "(stats \<Rightarrow> stats) \<Rightarrow> ('z stats_state_scheme, unit) K" where
  [kdefs]: "upd_stats f = modify (\<lambda>s. s\<lparr>statsd := f (statsd s)\<rparr>)"

definition statswrite :: "source \<Rightarrow> int \<Rightarrow> ('z stats_state_scheme, int) K" where
  "statswrite src n = ret (- 1)"

text \<open>
  The length of the copy is \<^verbatim>\<open>m\<close> as a \<^verbatim>\<open>uint64\<close>; \<open>ss_buf\<close> beyond the buffer is the
  memory behind it.
\<close>

definition statsread :: "bool \<Rightarrow> uint64 \<Rightarrow> int \<Rightarrow> ('z stats_state_scheme, int \<times> uint8 list) K" where
  "statsread user_dst dst n =
     thn (acquire StatsLock) (
     bnd (gets (\<lambda>s. ss_sz (statsd s))) (\<lambda>sz0.
     thn (whenK (sz0 = 0)
            (bnd (statslock 4096) (\<lambda>out.
             thn (upd_stats (\<lambda>x. x\<lparr>ss_buf := write_bytes (ss_buf x) 0 out\<rparr>)) (
             upd_stats (\<lambda>x. x\<lparr>ss_sz := int (length out)\<rparr>))))) (
     bnd (gets statsd) (\<lambda>st.
     let avail = ss_sz st - ss_off st in
     if avail > 0
     then let m = (if avail > n then n else avail) in
          bnd (either_copyout user_dst dst
                 (bytes_at (ss_buf st) (of_int (ss_off st)) (unat (of_int m :: uint64)))) (\<lambda>(r, bs).
          thn (whenK (r \<noteq> - 1) (upd_stats (\<lambda>x. x\<lparr>ss_off := ss_off x + m\<rparr>))) (
          thn (release StatsLock) (
          ret (m, bs))))
     else thn (upd_stats (\<lambda>x. x\<lparr>ss_sz := 0\<rparr>)) (
          thn (upd_stats (\<lambda>x. x\<lparr>ss_off := 0\<rparr>)) (
          thn (release StatsLock) (
          ret (- 1, []))))))))"

definition statsinit :: "('z stats_state_scheme, unit) K" where
  "statsinit =
     thn (initlock StatsLock ''stats'') (
     modify (\<lambda>s. s\<lparr>devsws := (devsws s)(2 := \<lparr>dv_read = Some Statsread, dv_write = Some Statswrite\<rparr>)\<rparr>))"

section \<open>Up to lock statistics\<close>

lemma lk_eq_stats [lk_fields]:
  assumes "lk_eq s t"
  shows "statsd t = statsd s"
  using assms by (cases s; cases t; simp add: lk_eq_def)+

lemma stats_acquired [simp]:
  "statsd (acquired l s) = statsd s"
    "(acquired l s)\<lparr>statsd := x0\<rparr> = acquired l (s\<lparr>statsd := x0\<rparr>)"
  by (simp_all add: lockfx intr_enabled_def)

lemma lk_eq_stats_update [lk_fields]:
  assumes "lk_eq s t"
  shows "lk_eq (s\<lparr>statsd := x0\<rparr>) (t\<lparr>statsd := x0\<rparr>)"
  using assms by (cases s; cases t; auto simp: lk_eq_def lk_same_def)+

lemma stats_cpu_ok [simp]:
  "cpu_room n (s\<lparr>statsd := x0\<rparr>) = cpu_room n s"
  by (simp_all add: cpu_room_def intr_enabled_def)

text \<open>An example state.\<close>

definition demo_stats :: stats_state where
  "demo_stats = dev_state.extend demo_dev (stats_state.fields
     \<lparr>ss_buf = (\<lambda>_. 0), ss_sz = 0, ss_off = 0\<rparr>)"

lemma demo_stats_below [simp]:
  "tp demo_stats = tp demo_dev"
    "csr demo_stats = csr demo_dev"
    "cpus demo_stats = cpus demo_dev"
    "locks demo_stats = locks demo_dev"
    "locktab demo_stats = locktab demo_dev"
    "ram demo_stats = ram demo_dev"
    "kend demo_stats = kend demo_dev"
    "freelist demo_stats = freelist demo_dev"
    "kernel_pagetable demo_stats = kernel_pagetable demo_dev"
    "procs demo_stats = procs demo_dev"
    "nextpid demo_stats = nextpid demo_dev"
    "initproc demo_stats = initproc demo_dev"
    "syms demo_stats = syms demo_dev"
    "ticks demo_stats = ticks demo_dev"
    "forkret_first demo_stats = forkret_first demo_dev"
    "slks demo_stats = slks demo_dev"
    "bufs demo_stats = bufs demo_dev"
    "vd demo_stats = vd demo_dev"
    "klg demo_stats = klg demo_dev"
    "sb demo_stats = sb demo_dev"
    "inodes demo_stats = inodes demo_dev"
    "uartd demo_stats = uartd demo_dev"
    "consd demo_stats = consd demo_dev"
    "pr_locking demo_stats = pr_locking demo_dev"
    "panicked demo_stats = panicked demo_dev"
    "devsws demo_stats = devsws demo_dev"
  by (simp_all add: demo_stats_def dev_state.defs stats_state.defs)

end
