(* ===== verification/File.thy ===== *)
theory File
  imports Stats
begin

text \<open>
  Open files and pipes, \<^verbatim>\<open>kernel/file.c\<close> and \<^verbatim>\<open>kernel/pipe.c\<close>. A \<^verbatim>\<open>struct file *\<close> is
  an index into \<^verbatim>\<open>ftable.file\<close>; a pipe is identified by the address of its page, whose
  content is the record \<open>pipes s pi\<close>.
\<close>

section \<open>State\<close>

datatype fdtype = FD_NONE | FD_PIPE | FD_INODE | FD_DEVICE

record kfile =
  f_type :: fdtype
  f_ref :: int
  f_readable :: bool
  f_writable :: bool
  f_pipe :: uint64
  f_ip :: "nat option"
  f_off :: uint32
  f_major :: uint16

record pipe =
  pi_data :: "nat \<Rightarrow> uint8"
  pi_nread :: uint32
  pi_nwrite :: uint32
  pi_readopen :: bool
  pi_writeopen :: bool

record file_state = stats_state +
  files :: "nat \<Rightarrow> kfile"
  pipes :: "uint64 \<Rightarrow> pipe"

definition upd_file :: "nat \<Rightarrow> (kfile \<Rightarrow> kfile) \<Rightarrow> ('z file_state_scheme, unit) K" where
  [kdefs]: "upd_file f g = modify (\<lambda>s. s\<lparr>files := (files s)(f := g (files s f))\<rparr>)"

definition upd_pipe :: "uint64 \<Rightarrow> (pipe \<Rightarrow> pipe) \<Rightarrow> ('z file_state_scheme, unit) K" where
  [kdefs]: "upd_pipe pi g = modify (\<lambda>s. s\<lparr>pipes := (pipes s)(pi := g (pipes s pi))\<rparr>)"

section \<open>References to open files\<close>

definition fileinit :: "('z file_state_scheme, unit) K" where
  "fileinit = initlock FtableLock ''ftable''"

definition filealloc :: "('z file_state_scheme, nat option) K" where
  "filealloc =
     thn (acquire FtableLock) (
     bnd (findK [0..<NFILE] (\<lambda>f.
            bnd (gets (\<lambda>s. f_ref (files s f))) (\<lambda>r.
            if r = 0 then thn (upd_file f (\<lambda>x. x\<lparr>f_ref := 1\<rparr>)) (ret (Some f)) else ret None))) (\<lambda>found.
     thn (release FtableLock) (
     ret found)))"

definition filedup :: "nat \<Rightarrow> ('z file_state_scheme, nat) K" where
  "filedup f =
     thn (acquire FtableLock) (
     bnd (gets (\<lambda>s. f_ref (files s f))) (\<lambda>r.
     thn (whenK (r < 1) (panic ''filedup'')) (
     thn (upd_file f (\<lambda>x. x\<lparr>f_ref := f_ref x + 1\<rparr>)) (
     thn (release FtableLock) (
     ret f)))))"

definition pipeclose :: "uint64 \<Rightarrow> bool \<Rightarrow> ('z file_state_scheme, unit) K" where
  "pipeclose pi writable =
     thn (acquire (PipeLock pi)) (
     thn (if writable
          then thn (upd_pipe pi (\<lambda>x. x\<lparr>pi_writeopen := False\<rparr>)) (wakeup (Some (ChPipeRead pi)))
          else thn (upd_pipe pi (\<lambda>x. x\<lparr>pi_readopen := False\<rparr>)) (wakeup (Some (ChPipeWrite pi)))) (
     bnd (gets (\<lambda>s. pipes s pi)) (\<lambda>x.
     if \<not> pi_readopen x \<and> \<not> pi_writeopen x
     then thn (release (PipeLock pi)) (
          thn (freelock (PipeLock pi)) (
          kfree pi))
     else release (PipeLock pi))))"

definition fileclose :: "nat \<Rightarrow> ('z file_state_scheme, unit) K" where
  "fileclose f =
     thn (acquire FtableLock) (
     bnd (gets (\<lambda>s. f_ref (files s f))) (\<lambda>r.
     thn (whenK (r < 1) (panic ''fileclose'')) (
     thn (upd_file f (\<lambda>x. x\<lparr>f_ref := f_ref x - 1\<rparr>)) (
     if r - 1 > 0 then release FtableLock
     else bnd (gets (\<lambda>s. files s f)) (\<lambda>ff.
          thn (upd_file f (\<lambda>x. x\<lparr>f_ref := 0\<rparr>)) (
          thn (upd_file f (\<lambda>x. x\<lparr>f_type := FD_NONE\<rparr>)) (
          thn (release FtableLock) (
          if f_type ff = FD_PIPE then pipeclose (f_pipe ff) (f_writable ff)
          else whenK (f_type ff = FD_INODE \<or> f_type ff = FD_DEVICE)
                 (thn begin_op (
                  thn (bnd (deref (f_ip ff)) iput) (
                  end_op)))))))))))"

section \<open>Pipes\<close>

abbreviation (input) PIPESIZE :: uint32 where "PIPESIZE \<equiv> 512"

text \<open>The label \<^verbatim>\<open>bad\<close> of \<^verbatim>\<open>pipealloc\<close>.\<close>

definition pipealloc_bad :: "nat option \<Rightarrow> nat option \<Rightarrow> ('z file_state_scheme, (nat \<times> nat) option) K" where
  "pipealloc_bad f0 f1 =
     thn (case f0 of Some f \<Rightarrow> fileclose f | None \<Rightarrow> ret ()) (
     thn (case f1 of Some f \<Rightarrow> fileclose f | None \<Rightarrow> ret ()) (
     ret None))"

definition pipealloc :: "('z file_state_scheme, (nat \<times> nat) option) K" where
  "pipealloc =
     bnd filealloc (\<lambda>f0.
     case f0 of None \<Rightarrow> pipealloc_bad None None | Some rfile \<Rightarrow>
     bnd filealloc (\<lambda>f1.
     case f1 of None \<Rightarrow> pipealloc_bad (Some rfile) None | Some wfile \<Rightarrow>
     bnd kalloc (\<lambda>pi.
     if pi = 0 then pipealloc_bad (Some rfile) (Some wfile)
     else thn (upd_pipe pi (\<lambda>x. x\<lparr>pi_readopen := True\<rparr>)) (
          thn (upd_pipe pi (\<lambda>x. x\<lparr>pi_writeopen := True\<rparr>)) (
          thn (upd_pipe pi (\<lambda>x. x\<lparr>pi_nwrite := 0\<rparr>)) (
          thn (upd_pipe pi (\<lambda>x. x\<lparr>pi_nread := 0\<rparr>)) (
          thn (initlock (PipeLock pi) ''pipe'') (
          thn (upd_file rfile (\<lambda>x. x\<lparr>f_type := FD_PIPE, f_readable := True, f_writable := False, f_pipe := pi\<rparr>)) (
          thn (upd_file wfile (\<lambda>x. x\<lparr>f_type := FD_PIPE, f_readable := False, f_writable := True, f_pipe := pi\<rparr>)) (
          ret (Some (rfile, wfile)))))))))))) "

text \<open>One byte into the ring, one byte out of it.\<close>

definition pipe_put :: "uint8 \<Rightarrow> pipe \<Rightarrow> pipe" where
  "pipe_put ch x =
     x\<lparr>pi_data := (pi_data x)(unat (pi_nwrite x mod PIPESIZE) := ch), pi_nwrite := pi_nwrite x + 1\<rparr>"

definition pipe_skip :: "pipe \<Rightarrow> pipe" where
  "pipe_skip x = x\<lparr>pi_nread := pi_nread x + 1\<rparr>"

definition pipe_front :: "pipe \<Rightarrow> uint8" where
  "pipe_front x = pi_data x (unat (pi_nread x mod PIPESIZE))"

text \<open>
  One turn of the loop of \<^verbatim>\<open>pipewrite\<close>: the loop ends with a value (\<open>None\<close> when the
  function returns -1, the lock released) or goes on with the next count.
\<close>

definition pipewrite_step ::
  "uint64 \<Rightarrow> nat \<Rightarrow> uint64 \<Rightarrow> int \<Rightarrow> ('z file_state_scheme, int option + int) K" where
  "pipewrite_step pi pr addr i =
     bnd (gets (\<lambda>s. pipes s pi)) (\<lambda>x.
     bnd (gets (\<lambda>s. procs s pr)) (\<lambda>p.
     if \<not> pi_readopen x \<or> p_killed p then thn (release (PipeLock pi)) (ret (Inl None))
     else if pi_nwrite x = pi_nread x + PIPESIZE
     then thn (wakeup (Some (ChPipeRead pi))) (
          thn (sleep (ChPipeWrite pi) (PipeLock pi)) (
          ret (Inr i)))
     else bnd (copyin (p_pagetable p) (addr + of_int i) 1) (\<lambda>(r, ch).
          if r = - 1 then ret (Inl (Some i))
          else thn (upd_pipe pi (pipe_put (hd (ch @ [0])))) (
               ret (Inr (i + 1))))))"

partial_function (option) pipewrite_loop ::
  "uint64 \<Rightarrow> nat \<Rightarrow> uint64 \<Rightarrow> int \<Rightarrow> int \<Rightarrow> (lockid, 'z file_state_scheme) env \<Rightarrow> 'z file_state_scheme \<Rightarrow>
     ('z file_state_scheme, int option) outcome option" where
  "pipewrite_loop pi pr addr n i E s =
     (if i < n
      then bnd (pipewrite_step pi pr addr i) (\<lambda>r.
           case r of
             Inl res \<Rightarrow> ret res
           | Inr i' \<Rightarrow> pipewrite_loop pi pr addr n i')
      else ret (Some i)) E s"

definition pipewrite :: "uint64 \<Rightarrow> uint64 \<Rightarrow> int \<Rightarrow> ('z file_state_scheme, int) K" where
  "pipewrite pi addr n =
     bnd curproc (\<lambda>pr.
     thn (acquire (PipeLock pi)) (
     bnd (pipewrite_loop pi pr addr n 0) (\<lambda>r.
     case r of
       None \<Rightarrow> ret (- 1)
     | Some i \<Rightarrow>
         thn (wakeup (Some (ChPipeRead pi))) (
         thn (release (PipeLock pi)) (
         ret i)))))"

text \<open>The wait of \<^verbatim>\<open>piperead\<close>; \<open>False\<close> for a killed process, the lock released.\<close>

partial_function (option) piperead_wait ::
  "uint64 \<Rightarrow> nat \<Rightarrow> (lockid, 'z file_state_scheme) env \<Rightarrow> 'z file_state_scheme \<Rightarrow>
     ('z file_state_scheme, bool) outcome option" where
  "piperead_wait pi pr E s =
     bnd (gets (\<lambda>s. pipes s pi)) (\<lambda>x.
     if pi_nread x = pi_nwrite x \<and> pi_writeopen x
     then bnd (gets (\<lambda>s. p_killed (procs s pr))) (\<lambda>killed.
          if killed then thn (release (PipeLock pi)) (ret False)
          else thn (sleep (ChPipeRead pi) (PipeLock pi)) (piperead_wait pi pr))
     else ret True) E s"

fun piperead_loop :: "uint64 \<Rightarrow> nat \<Rightarrow> uint64 \<Rightarrow> nat \<Rightarrow> nat \<Rightarrow> ('z file_state_scheme, nat) K" where
  "piperead_loop pi pr addr i 0 = ret i"
| "piperead_loop pi pr addr i (Suc k) =
     bnd (gets (\<lambda>s. pipes s pi)) (\<lambda>x.
     if pi_nread x = pi_nwrite x then ret i
     else thn (upd_pipe pi pipe_skip) (
          bnd (gets (\<lambda>s. p_pagetable (procs s pr))) (\<lambda>pt.
          bnd (copyout pt (addr + of_nat i) [pipe_front x]) (\<lambda>r.
          if r = - 1 then ret i
          else piperead_loop pi pr addr (i + 1) k))))"

definition piperead :: "uint64 \<Rightarrow> uint64 \<Rightarrow> int \<Rightarrow> ('z file_state_scheme, int) K" where
  "piperead pi addr n =
     bnd curproc (\<lambda>pr.
     thn (acquire (PipeLock pi)) (
     bnd (piperead_wait pi pr) (\<lambda>ok.
     if \<not> ok then ret (- 1)
     else bnd (piperead_loop pi pr addr 0 (nat n)) (\<lambda>i.
          thn (wakeup (Some (ChPipeWrite pi))) (
          thn (release (PipeLock pi)) (
          ret (int i)))))))"

section \<open>Reading and writing\<close>

text \<open>
  The object representation of a \<^verbatim>\<open>struct stat\<close>: C leaves the four bytes before
  \<^verbatim>\<open>size\<close> unspecified.
\<close>

definition stat_bytes :: "stat \<Rightarrow> uint8 list" where
  "stat_bytes st =
     bytes32 (st_dev st) @ bytes32 (st_ino st) @ bytes16 (st_type st) @ bytes16 (st_nlink st)
     @ [0, 0, 0, 0] @ bytes64 (st_size st)"

definition filestat :: "nat \<Rightarrow> uint64 \<Rightarrow> ('z file_state_scheme, int) K" where
  "filestat f addr =
     bnd curproc (\<lambda>p.
     bnd (gets (\<lambda>s. files s f)) (\<lambda>x.
     if f_type x = FD_INODE \<or> f_type x = FD_DEVICE
     then bnd (deref (f_ip x)) (\<lambda>ip.
          thn (ilock ip) (
          bnd (stati ip) (\<lambda>st.
          thn (iunlock ip) (
          bnd (gets (\<lambda>s. p_pagetable (procs s p))) (\<lambda>pt.
          bnd (copyout pt addr (stat_bytes st)) (\<lambda>r.
          ret (if r < 0 then - 1 else 0)))))))
     else ret (- 1)))"

text \<open>A call through \<^verbatim>\<open>devsw\<close> with a user address.\<close>

definition call_dev :: "devfn \<Rightarrow> uint64 \<Rightarrow> int \<Rightarrow> ('z stats_state_scheme, int) K" where
  "call_dev fn addr n =
     (case fn of
        Consoleread \<Rightarrow> bnd (consoleread True addr n) (\<lambda>(r, _). ret r)
      | Consolewrite \<Rightarrow> consolewrite (UserSrc addr) n
      | Statsread \<Rightarrow> bnd (statsread True addr n) (\<lambda>(r, _). ret r)
      | Statswrite \<Rightarrow> statswrite (UserSrc addr) n)"

definition dev_entry :: "(devsw \<Rightarrow> devfn option) \<Rightarrow> uint16 \<Rightarrow> 'z dev_state_scheme \<Rightarrow> devfn option" where
  "dev_entry sel major s =
     (if sint major < 0 \<or> sint major \<ge> int NDEV then None else sel (devsws s (nat (sint major))))"

definition fileread :: "nat \<Rightarrow> uint64 \<Rightarrow> uint32 \<Rightarrow> ('z file_state_scheme, int) K" where
  "fileread f addr n =
     bnd (gets (\<lambda>s. files s f)) (\<lambda>x.
     if \<not> f_readable x then ret (- 1)
     else case f_type x of
       FD_PIPE \<Rightarrow> piperead (f_pipe x) addr (sint n)
     | FD_DEVICE \<Rightarrow>
         bnd (gets (dev_entry dv_read (f_major x))) (\<lambda>fn.
         case fn of None \<Rightarrow> ret (- 1) | Some g \<Rightarrow> call_dev g addr (sint n))
     | FD_INODE \<Rightarrow>
         bnd (deref (f_ip x)) (\<lambda>ip.
         thn (ilock ip) (
         bnd (gets (\<lambda>s. f_off (files s f))) (\<lambda>off.
         bnd (readi ip True addr off n) (\<lambda>(r, _).
         thn (whenK (r > 0) (upd_file f (\<lambda>x. x\<lparr>f_off := f_off x + of_int r\<rparr>))) (
         thn (iunlock ip) (
         ret r))))))
     | FD_NONE \<Rightarrow> panic ''fileread'')"

text \<open>One transaction of \<^verbatim>\<open>filewrite\<close>: at most 3 blocks of data.\<close>

definition write_chunk :: "nat \<Rightarrow> uint64 \<Rightarrow> nat \<Rightarrow> ('z file_state_scheme, int) K" where
  "write_chunk f addr n1 =
     bnd (gets (\<lambda>s. f_ip (files s f))) (\<lambda>fip.
     thn begin_op (
     bnd (deref fip) (\<lambda>ip.
     thn (ilock ip) (
     bnd (gets (\<lambda>s. f_off (files s f))) (\<lambda>off.
     bnd (writei ip (UserSrc addr) off (of_nat n1)) (\<lambda>r.
     thn (whenK (r > 0) (upd_file f (\<lambda>x. x\<lparr>f_off := f_off x + of_int r\<rparr>))) (
     thn (iunlock ip) (
     thn end_op (
     ret r)))))))))"

function filewrite_loop :: "nat \<Rightarrow> uint64 \<Rightarrow> nat \<Rightarrow> nat \<Rightarrow> ('z file_state_scheme, nat) K" where
  "filewrite_loop f addr n i =
     (if i < n
      then let n1 = min (n - i) ((MAXOPBLOCKS - 1 - 1 - 2) div 2 * BSIZE) in
           bnd (write_chunk f (addr + of_nat i) n1) (\<lambda>r.
           if r \<noteq> int n1 then ret i else filewrite_loop f addr n (i + n1))
      else ret i)"
  by pat_completeness auto
termination
  by (relation "measure (\<lambda>(f, addr, n, i). n - i)") auto

definition filewrite :: "nat \<Rightarrow> uint64 \<Rightarrow> uint32 \<Rightarrow> ('z file_state_scheme, int) K" where
  "filewrite f addr n =
     bnd (gets (\<lambda>s. files s f)) (\<lambda>x.
     if \<not> f_writable x then ret (- 1)
     else case f_type x of
       FD_PIPE \<Rightarrow> pipewrite (f_pipe x) addr (sint n)
     | FD_DEVICE \<Rightarrow>
         bnd (gets (dev_entry dv_write (f_major x))) (\<lambda>fn.
         case fn of None \<Rightarrow> ret (- 1) | Some g \<Rightarrow> call_dev g addr (sint n))
     | FD_INODE \<Rightarrow>
         if sint n < 0 then ret (- 1)
         else bnd (filewrite_loop f addr (unat n) 0) (\<lambda>i.
              ret (if i = unat n then sint n else - 1))
     | FD_NONE \<Rightarrow> panic ''filewrite'')"

section \<open>A pipe is a queue\<close>

interpretation pipe_ring: ring 512 pi_nread pi_nwrite pi_data pipe_put pipe_skip
  by unfold_locales (simp_all add: pipe_put_def pipe_skip_def unat_mod)

section \<open>Up to lock statistics\<close>

lemma lk_eq_file [lk_fields]:
  assumes "lk_eq s t"
  shows "files t = files s"
    "pipes t = pipes s"
  using assms by (cases s; cases t; simp add: lk_eq_def)+

lemma file_acquired [simp]:
  "files (acquired l s) = files s"
    "pipes (acquired l s) = pipes s"
    "(acquired l s)\<lparr>files := x0\<rparr> = acquired l (s\<lparr>files := x0\<rparr>)"
    "(acquired l s)\<lparr>pipes := x1\<rparr> = acquired l (s\<lparr>pipes := x1\<rparr>)"
  by (simp_all add: lockfx intr_enabled_def)

lemma lk_eq_file_update [lk_fields]:
  assumes "lk_eq s t"
  shows "lk_eq (s\<lparr>files := x0\<rparr>) (t\<lparr>files := x0\<rparr>)"
    "lk_eq (s\<lparr>pipes := x1\<rparr>) (t\<lparr>pipes := x1\<rparr>)"
  using assms by (cases s; cases t; auto simp: lk_eq_def lk_same_def)+

lemma file_cpu_ok [simp]:
  "cpu_room n (s\<lparr>files := x0\<rparr>) = cpu_room n s"
    "cpu_room n (s\<lparr>pipes := x1\<rparr>) = cpu_room n s"
  by (simp_all add: cpu_room_def intr_enabled_def)

lemma ends_upd_file [kends]:
  "Q () (s\<lparr>files := (files s)(f := g (files s f))\<rparr>) \<Longrightarrow> ends E s (upd_file f g) Q"
  unfolding upd_file_def by (rule ends_modify) (simp_all add: lk_fields)

lemma ends_upd_pipe [kends]:
  "Q () (s\<lparr>pipes := (pipes s)(pi := g (pipes s pi))\<rparr>) \<Longrightarrow> ends E s (upd_pipe pi g) Q"
  unfolding upd_pipe_def by (rule ends_modify) (simp_all add: lk_fields)

text \<open>An example state.\<close>

definition demo_file :: file_state where
  "demo_file = stats_state.extend demo_stats (file_state.fields
     (\<lambda>_. \<lparr>f_type = FD_NONE, f_ref = 0, f_readable = False, f_writable = False, f_pipe = 0, f_ip = None,
        f_off = 0, f_major = 0\<rparr>)
     (\<lambda>_. \<lparr>pi_data = (\<lambda>i. of_nat i), pi_nread = 0, pi_nwrite = 2, pi_readopen = True, pi_writeopen = True\<rparr>))"

lemma demo_file_below [simp]:
  "tp demo_file = tp demo_stats"
    "csr demo_file = csr demo_stats"
    "cpus demo_file = cpus demo_stats"
    "locks demo_file = locks demo_stats"
    "locktab demo_file = locktab demo_stats"
    "ram demo_file = ram demo_stats"
    "kend demo_file = kend demo_stats"
    "freelist demo_file = freelist demo_stats"
    "kernel_pagetable demo_file = kernel_pagetable demo_stats"
    "procs demo_file = procs demo_stats"
    "nextpid demo_file = nextpid demo_stats"
    "initproc demo_file = initproc demo_stats"
    "syms demo_file = syms demo_stats"
    "ticks demo_file = ticks demo_stats"
    "forkret_first demo_file = forkret_first demo_stats"
    "slks demo_file = slks demo_stats"
    "bufs demo_file = bufs demo_stats"
    "vd demo_file = vd demo_stats"
    "klg demo_file = klg demo_stats"
    "sb demo_file = sb demo_stats"
    "inodes demo_file = inodes demo_stats"
    "uartd demo_file = uartd demo_stats"
    "consd demo_file = consd demo_stats"
    "pr_locking demo_file = pr_locking demo_stats"
    "panicked demo_file = panicked demo_stats"
    "devsws demo_file = devsws demo_stats"
    "statsd demo_file = statsd demo_stats"
  by (simp_all add: demo_file_def stats_state.defs file_state.defs)

end
