(* ===== verification/Proc_Life.thy ===== *)
theory Proc_Life
  imports File
begin

text \<open>
  The life of a process as far as it involves files: \<^verbatim>\<open>userinit\<close>, \<^verbatim>\<open>fork\<close> and
  \<^verbatim>\<open>exit\<close> of \<^verbatim>\<open>kernel/proc.c\<close>, and the fetching of system call arguments from user
  space, \<^verbatim>\<open>kernel/syscall.c\<close>.
\<close>

section \<open>Creation and exit\<close>

definition initcode :: "uint8 list" where
  "initcode = [
     0x17, 0x05, 0x00, 0x00, 0x13, 0x05, 0x45, 0x02,
     0x97, 0x05, 0x00, 0x00, 0x93, 0x85, 0x35, 0x02,
     0x93, 0x08, 0x70, 0x00, 0x73, 0x00, 0x00, 0x00,
     0x93, 0x08, 0x20, 0x00, 0x73, 0x00, 0x00, 0x00,
     0xef, 0xf0, 0x9f, 0xff, 0x2f, 0x69, 0x6e, 0x69,
     0x74, 0x00, 0x00, 0x24, 0x00, 0x00, 0x00, 0x00,
     0x00, 0x00, 0x00, 0x00]"

definition userinit :: "('z fs_state_scheme, unit) K" where
  "userinit =
     bnd allocproc (\<lambda>np.
     thn (modify (\<lambda>s. s\<lparr>initproc := np\<rparr>)) (
     bnd (deref np) (\<lambda>p.
     bnd (gets (\<lambda>s. p_pagetable (procs s p))) (\<lambda>pt.
     thn (uvminit pt initcode) (
     thn (upd_proc p (\<lambda>pr. pr\<lparr>p_sz := PGSIZE\<rparr>)) (
     thn (tf_set p TF_EPC 0) (
     thn (tf_set p TF_SP PGSIZE) (
     thn (upd_proc p (\<lambda>pr. pr\<lparr>p_name := safestrcpy (p_name pr) 0 (obj (map of_char ''initcode'')) 0 16\<rparr>)) (
     bnd (namei [47]) (\<lambda>cwd.
     thn (upd_proc p (\<lambda>pr. pr\<lparr>p_cwd := cwd\<rparr>)) (
     thn (upd_proc p (\<lambda>pr. pr\<lparr>p_state := RUNNABLE\<rparr>)) (
     release (ProcLock p)))))))))))))"

definition fork :: "('z file_state_scheme, uint32) K" where
  "fork =
     bnd curproc (\<lambda>p.
     bnd allocproc (\<lambda>found.
     case found of
       None \<Rightarrow> ret (- 1)
     | Some np \<Rightarrow>
         bnd (gets (\<lambda>s. procs s p)) (\<lambda>pr.
         bnd (gets (\<lambda>s. p_pagetable (procs s np))) (\<lambda>npt.
         bnd (uvmcopy (p_pagetable pr) npt (p_sz pr)) (\<lambda>r.
         if r < 0 then thn (freeproc np) (thn (release (ProcLock np)) (ret (- 1)))
         else
         thn (upd_proc np (\<lambda>x. x\<lparr>p_sz := p_sz pr\<rparr>)) (
         thn (modify (\<lambda>s. s\<lparr>ram := copied (p_trapframe (procs s np)) (p_trapframe (procs s p)) 288 (ram s)\<rparr>)) (
         thn (tf_set np TF_A0 0) (
         thn (forK [0..<NOFILE] (\<lambda>i.
                bnd (gets (\<lambda>s. p_ofile (procs s p) i)) (\<lambda>o1.
                case o1 of
                  None \<Rightarrow> ret ()
                | Some f \<Rightarrow>
                    bnd (filedup f) (\<lambda>f2.
                    upd_proc np (\<lambda>x. x\<lparr>p_ofile := (p_ofile x)(i := Some f2)\<rparr>))))) (
         bnd (gets (\<lambda>s. p_cwd (procs s p))) (\<lambda>cwd.
         bnd (bnd (deref cwd) idup) (\<lambda>ip.
         thn (upd_proc np (\<lambda>x. x\<lparr>p_cwd := Some ip\<rparr>)) (
         thn (modify (\<lambda>s. s\<lparr>procs := (procs s)(np := (procs s np)\<lparr>p_name :=
                safestrcpy (p_name (procs s np)) 0 (p_name (procs s p)) 0 16\<rparr>)\<rparr>)) (
         bnd (gets (\<lambda>s. p_pid (procs s np))) (\<lambda>pid.
         thn (release (ProcLock np)) (
         thn (acquire WaitLock) (
         thn (upd_proc np (\<lambda>x. x\<lparr>p_parent := Some p\<rparr>)) (
         thn (release WaitLock) (
         thn (acquire (ProcLock np)) (
         thn (upd_proc np (\<lambda>x. x\<lparr>p_state := RUNNABLE\<rparr>)) (
         thn (release (ProcLock np)) (
         ret pid)))))))))))))))))))))"

definition exit :: "uint32 \<Rightarrow> ('z file_state_scheme, 'a) K" where
  "exit status =
     bnd curproc (\<lambda>p.
     bnd (gets initproc) (\<lambda>ini.
     thn (whenK (ini = Some p) (panic ''init exiting'')) (
     thn (forK [0..<NOFILE] (\<lambda>fd.
            bnd (gets (\<lambda>s. p_ofile (procs s p) fd)) (\<lambda>o1.
            case o1 of
              None \<Rightarrow> ret ()
            | Some f \<Rightarrow>
                thn (fileclose f) (
                upd_proc p (\<lambda>x. x\<lparr>p_ofile := (p_ofile x)(fd := None)\<rparr>))))) (
     thn begin_op (
     bnd (gets (\<lambda>s. p_cwd (procs s p))) (\<lambda>cwd.
     thn (bnd (deref cwd) iput) (
     thn end_op (
     thn (upd_proc p (\<lambda>x. x\<lparr>p_cwd := None\<rparr>)) (
     thn (acquire WaitLock) (
     thn (reparent p) (
     bnd (gets (\<lambda>s. p_parent (procs s p))) (\<lambda>parent.
     thn (wakeup (map_option ChProc parent)) (
     thn (acquire (ProcLock p)) (
     thn (upd_proc p (\<lambda>x. x\<lparr>p_xstate := status\<rparr>)) (
     thn (upd_proc p (\<lambda>x. x\<lparr>p_state := ZOMBIE\<rparr>)) (
     thn (release WaitLock) (
     thn sched (
     panic ''zombie exit''))))))))))))))))))"

section \<open>System call arguments\<close>

definition fetchaddr :: "uint64 \<Rightarrow> ('z proc_state_scheme, uint64 option) K" where
  "fetchaddr addr =
     bnd curproc (\<lambda>p.
     bnd (gets (\<lambda>s. procs s p)) (\<lambda>pr.
     if addr \<ge> p_sz pr \<or> addr + 8 > p_sz pr then ret None
     else bnd (copyin (p_pagetable pr) addr 8) (\<lambda>(r, bs).
          ret (if r \<noteq> 0 then None else Some (load64 (obj bs) 0)))))"

text \<open>The result, with the bytes stored in the buffer, NUL included, also on failure.\<close>

definition fetchstr :: "uint64 \<Rightarrow> nat \<Rightarrow> ('z proc_state_scheme, int \<times> uint8 list) K" where
  "fetchstr addr maxlen =
     bnd curproc (\<lambda>p.
     bnd (gets (\<lambda>s. p_pagetable (procs s p))) (\<lambda>pt.
     bnd (copyinstr pt addr maxlen) (\<lambda>(err, bs).
     ret (if err < 0 then err else int (length (takeWhile (\<lambda>c. c \<noteq> 0) bs)), bs))))"

definition argraw :: "nat \<Rightarrow> ('z proc_state_scheme, uint64) K" where
  "argraw n =
     bnd curproc (\<lambda>p.
     if n \<le> 5 then tf_get p (TF_A0 + 8 * of_nat n) else panic ''argraw'')"

definition argint :: "nat \<Rightarrow> ('z proc_state_scheme, uint32) K" where
  "argint n = bnd (argraw n) (\<lambda>x. ret (ucast x))"

definition argaddr :: "nat \<Rightarrow> ('z proc_state_scheme, uint64) K" where
  "argaddr n = argraw n"

text \<open>A path argument: the characters before the NUL, \<open>None\<close> on an error.\<close>

definition argstr :: "nat \<Rightarrow> nat \<Rightarrow> ('z proc_state_scheme, uint8 list option) K" where
  "argstr n maxlen =
     bnd (argaddr n) (\<lambda>addr.
     bnd (fetchstr addr maxlen) (\<lambda>(r, bs).
     ret (if r < 0 then None else Some (take (nat r) bs))))"

end
