(* ===== verification/Exec.thy ===== *)
theory Exec
  imports Proc_Life
begin

text \<open>
  Program loading, \<^verbatim>\<open>kernel/exec.c\<close> with the format of \<^verbatim>\<open>kernel/elf.h\<close>. The argument
  strings are in pages of physical memory; \<open>argv\<close> is the list of their addresses.
\<close>

section \<open>Executable files\<close>

record elfhdr =
  eh_magic :: uint32
  eh_entry :: uint64
  eh_phoff :: uint64
  eh_phnum :: uint16

record proghdr =
  ph_type :: uint32
  ph_off :: uint64
  ph_vaddr :: uint64
  ph_filesz :: uint64
  ph_memsz :: uint64

abbreviation (input) ELF_MAGIC :: uint32 where "ELF_MAGIC \<equiv> 0x464C457F"

definition load_elfhdr :: "uint8 list \<Rightarrow> elfhdr" where
  "load_elfhdr bs = (let m = obj bs in
     \<lparr>eh_magic = load32 m 0, eh_entry = load64 m 24, eh_phoff = load64 m 32, eh_phnum = load16 m 56\<rparr>)"

definition load_proghdr :: "uint8 list \<Rightarrow> proghdr" where
  "load_proghdr bs = (let m = obj bs in
     \<lparr>ph_type = load32 m 0, ph_off = load64 m 8, ph_vaddr = load64 m 16,
      ph_filesz = load64 m 32, ph_memsz = load64 m 40\<rparr>)"

section \<open>Loading\<close>

text \<open>The pages are filled through their physical addresses.\<close>

partial_function (option) loadseg ::
  "uint64 \<Rightarrow> uint64 \<Rightarrow> nat \<Rightarrow> uint32 \<Rightarrow> uint32 \<Rightarrow> uint32 \<Rightarrow>
     (lockid, 'z fs_state_scheme) env \<Rightarrow> 'z fs_state_scheme \<Rightarrow>
     ('z fs_state_scheme, int) outcome option" where
  "loadseg pagetable va ip offset sz i E s =
     (if i < sz
      then bnd (walkaddr pagetable (va + ucast i)) (\<lambda>pa.
           thn (whenK (pa = 0) (panic ''loadseg: address should exist'')) (
           let n = (if sz - i < 4096 then sz - i else 4096) in
           bnd (readi ip False pa (offset + i) n) (\<lambda>(r, bs).
           thn (set_ram (\<lambda>m. write_bytes m pa bs)) (
           if r \<noteq> uint n then ret (- 1)
           else loadseg pagetable va ip offset sz (i + 4096)))))
      else ret 0) E s"

text \<open>
  One program header: \<open>None\<close> for the jump to \<^verbatim>\<open>bad\<close>; with the size the image has then
  or afterwards.
\<close>

definition exec_segment ::
  "nat \<Rightarrow> uint64 \<Rightarrow> uint32 \<Rightarrow> uint64 \<Rightarrow> ('z fs_state_scheme, bool \<times> uint64) K" where
  "exec_segment ip pagetable off sz =
     bnd (readi ip False 0 off 56) (\<lambda>(r, bs).
     let ph = load_proghdr bs in
     if r \<noteq> 56 then ret (False, sz)
     else if ph_type ph \<noteq> 1 then ret (True, sz)
     else if ph_memsz ph < ph_filesz ph then ret (False, sz)
     else if ph_vaddr ph + ph_memsz ph < ph_vaddr ph then ret (False, sz)
     else bnd (uvmalloc pagetable sz (ph_vaddr ph + ph_memsz ph)) (\<lambda>sz1.
          if sz1 = 0 then ret (False, sz)
          else if ph_vaddr ph mod PGSIZE \<noteq> 0 then ret (False, sz1)
          else bnd (loadseg pagetable (ph_vaddr ph) ip (ucast (ph_off ph)) (ucast (ph_filesz ph)) 0) (\<lambda>r2.
               ret (r2 \<ge> 0, sz1))))"

fun exec_load ::
  "nat \<Rightarrow> nat \<Rightarrow> uint64 \<Rightarrow> uint32 \<Rightarrow> uint64 \<Rightarrow> ('z fs_state_scheme, bool \<times> uint64) K" where
  "exec_load 0 ip pagetable off sz = ret (True, sz)"
| "exec_load (Suc k) ip pagetable off sz =
     bnd (exec_segment ip pagetable off sz) (\<lambda>(ok, sz1).
     if ok then exec_load k ip pagetable (off + 56) sz1 else ret (False, sz1))"

text \<open>The label \<^verbatim>\<open>bad\<close>.\<close>

definition exec_bad :: "uint64 \<Rightarrow> uint64 \<Rightarrow> nat option \<Rightarrow> ('z fs_state_scheme, int) K" where
  "exec_bad pagetable sz ip =
     thn (whenK (pagetable \<noteq> 0) (proc_freepagetable pagetable sz)) (
     thn (case ip of Some i \<Rightarrow> thn (iunlockput i) end_op | None \<Rightarrow> ret ()) (
     ret (- 1)))"

text \<open>
  Pushing the argument strings: the stack pointer and the addresses of the strings, or
  \<open>None\<close> for the jump to \<^verbatim>\<open>bad\<close>.
\<close>

fun exec_push ::
  "uint64 list \<Rightarrow> uint64 \<Rightarrow> uint64 \<Rightarrow> uint64 \<Rightarrow> uint64 list \<Rightarrow>
     ('z kmem_state_scheme, (uint64 \<times> uint64 list) option) K" where
  "exec_push [] pagetable stackbase sp ustack = ret (Some (sp, ustack))"
| "exec_push (a # argv) pagetable stackbase sp ustack =
     (if length ustack \<ge> MAXARG then ret None
      else bnd (gets (\<lambda>s. strlen (ram s) a)) (\<lambda>len.
           case len of
             None \<Rightarrow> hang
           | Some l \<Rightarrow>
               let sp1 = sp - (of_nat l + 1); sp2 = sp1 - sp1 mod 16 in
               if sp2 < stackbase then ret None
               else bnd (gets (\<lambda>s. bytes_at (ram s) a (l + 1))) (\<lambda>bs.
                    bnd (copyout pagetable sp2 bs) (\<lambda>r.
                    if r < 0 then ret None
                    else exec_push argv pagetable stackbase sp2 (ustack @ [sp2])))))"

text \<open>The part of the path after its last slash.\<close>

definition last_elem :: "uint8 list \<Rightarrow> uint8 list" where
  "last_elem path = rev (takeWhile (\<lambda>c. c \<noteq> 47) (rev path))"

text \<open>Commit to the user image.\<close>

definition exec_commit ::
  "nat \<Rightarrow> uint8 list \<Rightarrow> uint64 \<Rightarrow> uint64 \<Rightarrow> uint64 \<Rightarrow> uint64 \<Rightarrow> uint64 \<Rightarrow> ('z proc_state_scheme, unit) K" where
  "exec_commit p path pagetable sz oldsz entry sp =
     thn (tf_set p 120 sp) (
     thn (upd_proc p (\<lambda>x. x\<lparr>p_name := safestrcpy (p_name x) 0 (obj (last_elem path)) 0 16\<rparr>)) (
     bnd (gets (\<lambda>s. p_pagetable (procs s p))) (\<lambda>oldpagetable.
     thn (upd_proc p (\<lambda>x. x\<lparr>p_pagetable := pagetable\<rparr>)) (
     thn (upd_proc p (\<lambda>x. x\<lparr>p_sz := sz\<rparr>)) (
     thn (tf_set p TF_EPC entry) (
     thn (tf_set p TF_SP sp) (
     proc_freepagetable oldpagetable oldsz)))))))"

text \<open>From the stack on, when the file has been closed.\<close>

definition exec_image ::
  "nat \<Rightarrow> uint8 list \<Rightarrow> uint64 list \<Rightarrow> uint64 \<Rightarrow> uint64 \<Rightarrow> uint64 \<Rightarrow> ('z fs_state_scheme, int) K" where
  "exec_image p path argv pagetable sz0 entry =
     bnd (gets (\<lambda>s. p_sz (procs s p))) (\<lambda>oldsz.
     let sz = PGROUNDUP sz0 in
     bnd (uvmalloc pagetable sz (sz + 2 * PGSIZE)) (\<lambda>sz1.
     if sz1 = 0 then exec_bad pagetable sz None
     else
     thn (uvmclear pagetable (sz1 - 2 * PGSIZE)) (
     let stackbase = sz1 - PGSIZE in
     bnd (exec_push argv pagetable stackbase sz1 []) (\<lambda>pushed.
     case pushed of
       None \<Rightarrow> exec_bad pagetable sz1 None
     | Some (sp, ustack) \<Rightarrow>
         let argc = length ustack; sp1 = sp - of_nat (argc + 1) * 8; sp2 = sp1 - sp1 mod 16 in
         if sp2 < stackbase then exec_bad pagetable sz1 None
         else bnd (copyout pagetable sp2 (concat (map bytes64 (ustack @ [0])))) (\<lambda>r.
              if r < 0 then exec_bad pagetable sz1 None
              else thn (exec_commit p path pagetable sz1 oldsz entry sp2) (
                   ret (int argc)))))))"

definition exec :: "uint8 list \<Rightarrow> uint64 list \<Rightarrow> ('z fs_state_scheme, int) K" where
  "exec path argv =
     bnd curproc (\<lambda>p.
     thn begin_op (
     bnd (namei path) (\<lambda>found.
     case found of
       None \<Rightarrow> thn end_op (ret (- 1))
     | Some ip \<Rightarrow>
         thn (ilock ip) (
         bnd (readi ip False 0 0 64) (\<lambda>(r, bs).
         let elf = load_elfhdr bs in
         if r \<noteq> 64 then exec_bad 0 0 (Some ip)
         else if eh_magic elf \<noteq> ELF_MAGIC then exec_bad 0 0 (Some ip)
         else bnd (proc_pagetable p) (\<lambda>pagetable.
              if pagetable = 0 then exec_bad 0 0 (Some ip)
              else bnd (exec_load (unat (eh_phnum elf)) ip pagetable (ucast (eh_phoff elf)) 0) (\<lambda>(ok, sz).
                   if \<not> ok then exec_bad pagetable sz (Some ip)
                   else thn (iunlockput ip) (
                        thn end_op (
                        exec_image p path argv pagetable sz (eh_entry elf))))))))))"

end
