(* ===== verification/Sysfile.thy ===== *)
theory Sysfile
  imports Exec
begin

text \<open>
  The file system calls, \<^verbatim>\<open>kernel/sysfile.c\<close>. A system call returns a 64-bit value; -1
  reports an error. A buffer for a path element starts out with zeros.
\<close>

section \<open>File descriptors\<close>

definition argfd :: "nat \<Rightarrow> ('z proc_state_scheme, (nat \<times> nat) option) K" where
  "argfd n =
     bnd (argint n) (\<lambda>fd.
     if sint fd < 0 \<or> sint fd \<ge> int NOFILE then ret None
     else bnd curproc (\<lambda>p.
          bnd (gets (\<lambda>s. p_ofile (procs s p) (unat fd))) (\<lambda>f.
          ret (map_option (\<lambda>x. (unat fd, x)) f))))"

definition fdalloc :: "nat \<Rightarrow> ('z proc_state_scheme, nat option) K" where
  "fdalloc f =
     bnd curproc (\<lambda>p.
     findK [0..<NOFILE] (\<lambda>fd.
       bnd (gets (\<lambda>s. p_ofile (procs s p) fd)) (\<lambda>x.
       if x = None
       then thn (upd_proc p (\<lambda>y. y\<lparr>p_ofile := (p_ofile y)(fd := Some f)\<rparr>)) (ret (Some fd))
       else ret None)))"

definition sys_dup :: "('z file_state_scheme, uint64) K" where
  "sys_dup =
     bnd (argfd 0) (\<lambda>a.
     case a of None \<Rightarrow> ret (- 1) | Some (_, f) \<Rightarrow>
     bnd (fdalloc f) (\<lambda>r.
     case r of None \<Rightarrow> ret (- 1) | Some fd \<Rightarrow>
     thn (filedup f) (
     ret (of_nat fd))))"

definition sys_read :: "('z file_state_scheme, uint64) K" where
  "sys_read =
     bnd (argfd 0) (\<lambda>a.
     case a of None \<Rightarrow> ret (- 1) | Some (_, f) \<Rightarrow>
     bnd (argint 2) (\<lambda>n.
     bnd (argaddr 1) (\<lambda>p.
     bnd (fileread f p n) (\<lambda>r.
     ret (of_int r)))))"

definition sys_write :: "('z file_state_scheme, uint64) K" where
  "sys_write =
     bnd (argfd 0) (\<lambda>a.
     case a of None \<Rightarrow> ret (- 1) | Some (_, f) \<Rightarrow>
     bnd (argint 2) (\<lambda>n.
     bnd (argaddr 1) (\<lambda>p.
     bnd (filewrite f p n) (\<lambda>r.
     ret (of_int r)))))"

definition sys_close :: "('z file_state_scheme, uint64) K" where
  "sys_close =
     bnd (argfd 0) (\<lambda>a.
     case a of None \<Rightarrow> ret (- 1) | Some (fd, f) \<Rightarrow>
     bnd curproc (\<lambda>p.
     thn (upd_proc p (\<lambda>y. y\<lparr>p_ofile := (p_ofile y)(fd := None)\<rparr>)) (
     thn (fileclose f) (
     ret 0))))"

definition sys_fstat :: "('z file_state_scheme, uint64) K" where
  "sys_fstat =
     bnd (argfd 0) (\<lambda>a.
     case a of None \<Rightarrow> ret (- 1) | Some (_, f) \<Rightarrow>
     bnd (argaddr 1) (\<lambda>st.
     bnd (filestat f st) (\<lambda>r.
     ret (of_int r))))"

section \<open>Links\<close>

text \<open>The label \<^verbatim>\<open>bad\<close> of \<^verbatim>\<open>sys_link\<close>.\<close>

definition sys_link_bad :: "nat \<Rightarrow> ('z fs_state_scheme, uint64) K" where
  "sys_link_bad ip =
     thn (ilock ip) (
     thn (upd_inode ip (\<lambda>x. x\<lparr>i_nlink := i_nlink x - 1\<rparr>)) (
     thn (iupdate ip) (
     thn (iunlockput ip) (
     thn end_op (
     ret (- 1))))))"

definition sys_link_new :: "nat \<Rightarrow> uint8 list \<Rightarrow> ('z fs_state_scheme, uint64) K" where
  "sys_link_new ip new =
     bnd (nameiparent new (\<lambda>_. 0)) (\<lambda>par.
     case par of None \<Rightarrow> sys_link_bad ip | Some (dp, name) \<Rightarrow>
     thn (ilock dp) (
     bnd (gets (\<lambda>s. i_dev (inodes s dp) \<noteq> i_dev (inodes s ip))) (\<lambda>other.
     bnd (if other then ret (- 1)
          else bnd (gets (\<lambda>s. i_inum (inodes s ip))) (\<lambda>inum. dirlink dp name inum)) (\<lambda>r.
     if r < 0 then thn (iunlockput dp) (sys_link_bad ip)
     else thn (iunlockput dp) (
          thn (iput ip) (
          thn end_op (
          ret 0)))))))"

definition sys_link :: "('z fs_state_scheme, uint64) K" where
  "sys_link =
     bnd (argstr 0 MAXPATH) (\<lambda>a0.
     case a0 of None \<Rightarrow> ret (- 1) | Some old \<Rightarrow>
     bnd (argstr 1 MAXPATH) (\<lambda>a1.
     case a1 of None \<Rightarrow> ret (- 1) | Some new \<Rightarrow>
     thn begin_op (
     bnd (namei old) (\<lambda>found.
     case found of None \<Rightarrow> thn end_op (ret (- 1)) | Some ip \<Rightarrow>
     thn (ilock ip) (
     bnd (gets (\<lambda>s. i_type (inodes s ip))) (\<lambda>t.
     if t = T_DIR then thn (iunlockput ip) (thn end_op (ret (- 1)))
     else thn (upd_inode ip (\<lambda>x. x\<lparr>i_nlink := i_nlink x + 1\<rparr>)) (
          thn (iupdate ip) (
          thn (iunlock ip) (
          sys_link_new ip new)))))))))"

partial_function (option) isdirempty ::
  "nat \<Rightarrow> uint32 \<Rightarrow> (lockid, 'z fs_state_scheme) env \<Rightarrow> 'z fs_state_scheme \<Rightarrow>
     ('z fs_state_scheme, bool) outcome option" where
  "isdirempty dp off E s =
     bnd (gets (\<lambda>s. i_size (inodes s dp))) (\<lambda>sz.
     if off < sz
     then bnd (readi dp False 0 off 16) (\<lambda>(r, de).
          if r \<noteq> 16 then panic ''isdirempty: readi''
          else if de_inum de \<noteq> 0 then ret False
          else isdirempty dp (off + 16))
     else ret True) E s"

text \<open>The label \<^verbatim>\<open>bad\<close> of \<^verbatim>\<open>sys_unlink\<close>.\<close>

definition sys_unlink_bad :: "nat \<Rightarrow> ('z fs_state_scheme, uint64) K" where
  "sys_unlink_bad dp = thn (iunlockput dp) (thn end_op (ret (- 1)))"

definition sys_unlink_entry :: "nat \<Rightarrow> nat \<Rightarrow> uint32 \<Rightarrow> ('z fs_state_scheme, uint64) K" where
  "sys_unlink_entry dp ip off =
     thn (ilock ip) (
     bnd (gets (\<lambda>s. inodes s ip)) (\<lambda>x.
     thn (whenK (sint (i_nlink x) < 1) (panic ''unlink: nlink < 1'')) (
     bnd (if i_type x = T_DIR then isdirempty ip 32 else ret True) (\<lambda>removable.
     if \<not> removable then thn (iunlockput ip) (sys_unlink_bad dp)
     else bnd (writei dp (KernSrc (replicate 16 0)) off 16) (\<lambda>r.
          thn (whenK (r \<noteq> 16) (panic ''unlink: writei'')) (
          thn (whenK (i_type x = T_DIR)
                 (thn (upd_inode dp (\<lambda>y. y\<lparr>i_nlink := i_nlink y - 1\<rparr>)) (
                  iupdate dp))) (
          thn (iunlockput dp) (
          thn (upd_inode ip (\<lambda>y. y\<lparr>i_nlink := i_nlink y - 1\<rparr>)) (
          thn (iupdate ip) (
          thn (iunlockput ip) (
          thn end_op (
          ret 0))))))))))))"

definition sys_unlink :: "('z fs_state_scheme, uint64) K" where
  "sys_unlink =
     bnd (argstr 0 MAXPATH) (\<lambda>a.
     case a of None \<Rightarrow> ret (- 1) | Some path \<Rightarrow>
     thn begin_op (
     bnd (nameiparent path (\<lambda>_. 0)) (\<lambda>par.
     case par of None \<Rightarrow> thn end_op (ret (- 1)) | Some (dp, name) \<Rightarrow>
     thn (ilock dp) (
     if namecmp name (obj [46]) 0 = 0 \<or> namecmp name (obj [46, 46]) 0 = 0 then sys_unlink_bad dp
     else bnd (dirlookup dp name) (\<lambda>found.
          case found of None \<Rightarrow> sys_unlink_bad dp | Some (ip, off) \<Rightarrow>
          sys_unlink_entry dp ip off)))))"

section \<open>Creating and opening\<close>

text \<open>A new inode under \<open>name\<close> in the directory \<open>dp\<close>.\<close>

definition create_new ::
  "nat \<Rightarrow> memory \<Rightarrow> uint16 \<Rightarrow> uint16 \<Rightarrow> uint16 \<Rightarrow> ('z fs_state_scheme, nat option) K" where
  "create_new dp name type major minor =
     bnd (gets (\<lambda>s. i_dev (inodes s dp))) (\<lambda>dev.
     bnd (ialloc dev type) (\<lambda>ip.
     thn (ilock ip) (
     thn (upd_inode ip (\<lambda>x. x\<lparr>i_major := major\<rparr>)) (
     thn (upd_inode ip (\<lambda>x. x\<lparr>i_minor := minor\<rparr>)) (
     thn (upd_inode ip (\<lambda>x. x\<lparr>i_nlink := 1\<rparr>)) (
     thn (iupdate ip) (
     bnd (gets (\<lambda>s. i_inum (inodes s ip))) (\<lambda>inum.
     thn (whenK (type = T_DIR)
            (thn (upd_inode dp (\<lambda>x. x\<lparr>i_nlink := i_nlink x + 1\<rparr>)) (
             thn (iupdate dp) (
             bnd (dirlink ip (obj [46]) inum) (\<lambda>r1.
             thn (whenK (r1 < 0) (panic ''create dots'')) (
             bnd (gets (\<lambda>s. i_inum (inodes s dp))) (\<lambda>dinum.
             bnd (dirlink ip (obj [46, 46]) dinum) (\<lambda>r2.
             whenK (r2 < 0) (panic ''create dots''))))))))) (
     bnd (dirlink dp name inum) (\<lambda>r.
     thn (whenK (r < 0) (panic ''create: dirlink'')) (
     thn (iunlockput dp) (
     ret (Some ip)))))))))))))"

definition create :: "uint8 list \<Rightarrow> uint16 \<Rightarrow> uint16 \<Rightarrow> uint16 \<Rightarrow> ('z fs_state_scheme, nat option) K" where
  "create path type major minor =
     bnd (nameiparent path (\<lambda>_. 0)) (\<lambda>par.
     case par of None \<Rightarrow> ret None | Some (dp, name) \<Rightarrow>
     thn (ilock dp) (
     bnd (dirlookup dp name) (\<lambda>found.
     case found of
       Some (ip, _) \<Rightarrow>
         thn (iunlockput dp) (
         thn (ilock ip) (
         bnd (gets (\<lambda>s. i_type (inodes s ip))) (\<lambda>t.
         if type = T_FILE \<and> (t = T_FILE \<or> t = T_DEVICE) then ret (Some ip)
         else thn (iunlockput ip) (ret None))))
     | None \<Rightarrow> create_new dp name type major minor)))"

abbreviation (input) O_WRONLY :: uint32 where "O_WRONLY \<equiv> 1"
abbreviation (input) O_RDWR :: uint32 where "O_RDWR \<equiv> 2"
abbreviation (input) O_CREATE :: uint32 where "O_CREATE \<equiv> 0x200"
abbreviation (input) O_TRUNC :: uint32 where "O_TRUNC \<equiv> 0x400"

text \<open>The inode to open, locked; \<open>None\<close> when the call fails, the transaction ended.\<close>

definition open_inode :: "uint8 list \<Rightarrow> uint32 \<Rightarrow> ('z fs_state_scheme, nat option) K" where
  "open_inode path omode =
     (if omode AND O_CREATE \<noteq> 0
      then bnd (create path T_FILE 0 0) (\<lambda>r.
           case r of None \<Rightarrow> thn end_op (ret None) | Some ip \<Rightarrow> ret (Some ip))
      else bnd (namei path) (\<lambda>r.
           case r of None \<Rightarrow> thn end_op (ret None) | Some ip \<Rightarrow>
           thn (ilock ip) (
           bnd (gets (\<lambda>s. i_type (inodes s ip))) (\<lambda>t.
           if t = T_DIR \<and> omode \<noteq> 0 then thn (iunlockput ip) (thn end_op (ret None))
           else ret (Some ip)))))"

definition open_fail :: "nat \<Rightarrow> ('z fs_state_scheme, uint64) K" where
  "open_fail ip = thn (iunlockput ip) (thn end_op (ret (- 1)))"

text \<open>The open file is filled in.\<close>

definition open_finish :: "nat \<Rightarrow> nat \<Rightarrow> nat \<Rightarrow> uint32 \<Rightarrow> ('z file_state_scheme, uint64) K" where
  "open_finish f fd ip omode =
     bnd (gets (\<lambda>s. inodes s ip)) (\<lambda>x.
     thn (if i_type x = T_DEVICE
          then thn (upd_file f (\<lambda>y. y\<lparr>f_type := FD_DEVICE\<rparr>)) (
               upd_file f (\<lambda>y. y\<lparr>f_major := i_major x\<rparr>))
          else thn (upd_file f (\<lambda>y. y\<lparr>f_type := FD_INODE\<rparr>)) (
               upd_file f (\<lambda>y. y\<lparr>f_off := 0\<rparr>))) (
     thn (upd_file f (\<lambda>y. y\<lparr>f_ip := Some ip\<rparr>)) (
     thn (upd_file f (\<lambda>y. y\<lparr>f_readable := (omode AND O_WRONLY = 0)\<rparr>)) (
     thn (upd_file f (\<lambda>y. y\<lparr>f_writable := (omode AND O_WRONLY \<noteq> 0 \<or> omode AND O_RDWR \<noteq> 0)\<rparr>)) (
     thn (whenK (omode AND O_TRUNC \<noteq> 0 \<and> i_type x = T_FILE) (itrunc ip)) (
     thn (iunlock ip) (
     thn end_op (
     ret (of_nat fd)))))))))"

definition sys_open :: "('z file_state_scheme, uint64) K" where
  "sys_open =
     bnd (argstr 0 MAXPATH) (\<lambda>a.
     case a of None \<Rightarrow> ret (- 1) | Some path \<Rightarrow>
     bnd (argint 1) (\<lambda>omode.
     thn begin_op (
     bnd (open_inode path omode) (\<lambda>r.
     case r of None \<Rightarrow> ret (- 1) | Some ip \<Rightarrow>
     bnd (gets (\<lambda>s. inodes s ip)) (\<lambda>x.
     if i_type x = T_DEVICE \<and> (sint (i_major x) < 0 \<or> sint (i_major x) \<ge> int NDEV) then open_fail ip
     else bnd filealloc (\<lambda>fa.
          case fa of None \<Rightarrow> open_fail ip | Some f \<Rightarrow>
          bnd (fdalloc f) (\<lambda>fdr.
          case fdr of None \<Rightarrow> thn (fileclose f) (open_fail ip) | Some fd \<Rightarrow>
          open_finish f fd ip omode)))))))"

definition sys_mkdir :: "('z fs_state_scheme, uint64) K" where
  "sys_mkdir =
     thn begin_op (
     bnd (argstr 0 MAXPATH) (\<lambda>a.
     bnd (case a of None \<Rightarrow> ret None | Some path \<Rightarrow> create path T_DIR 0 0) (\<lambda>r.
     case r of None \<Rightarrow> thn end_op (ret (- 1)) | Some ip \<Rightarrow>
     thn (iunlockput ip) (
     thn end_op (
     ret 0)))))"

definition sys_mknod :: "('z fs_state_scheme, uint64) K" where
  "sys_mknod =
     thn begin_op (
     bnd (argstr 0 MAXPATH) (\<lambda>a.
     bnd (case a of None \<Rightarrow> ret None | Some path \<Rightarrow>
          bnd (argint 1) (\<lambda>major.
          bnd (argint 2) (\<lambda>minor.
          create path T_DEVICE (ucast major) (ucast minor)))) (\<lambda>r.
     case r of None \<Rightarrow> thn end_op (ret (- 1)) | Some ip \<Rightarrow>
     thn (iunlockput ip) (
     thn end_op (
     ret 0)))))"

definition sys_chdir :: "('z fs_state_scheme, uint64) K" where
  "sys_chdir =
     bnd curproc (\<lambda>p.
     thn begin_op (
     bnd (argstr 0 MAXPATH) (\<lambda>a.
     bnd (case a of None \<Rightarrow> ret None | Some path \<Rightarrow> namei path) (\<lambda>r.
     case r of None \<Rightarrow> thn end_op (ret (- 1)) | Some ip \<Rightarrow>
     thn (ilock ip) (
     bnd (gets (\<lambda>s. i_type (inodes s ip))) (\<lambda>t.
     if t \<noteq> T_DIR then thn (iunlockput ip) (thn end_op (ret (- 1)))
     else thn (iunlock ip) (
          bnd (gets (\<lambda>s. p_cwd (procs s p))) (\<lambda>cwd.
          thn (bnd (deref cwd) iput) (
          thn end_op (
          thn (upd_proc p (\<lambda>y. y\<lparr>p_cwd := Some ip\<rparr>)) (
          ret 0)))))))))))"

section \<open>Running programs and pipes\<close>

text \<open>
  The loop of \<^verbatim>\<open>sys_exec\<close> with \<open>k\<close> slots of \<^verbatim>\<open>argv\<close> left: whether it reached the end of
  the vector, and the pages allocated.
\<close>

fun sys_exec_args :: "nat \<Rightarrow> uint64 \<Rightarrow> uint64 list \<Rightarrow> ('z proc_state_scheme, bool \<times> uint64 list) K" where
  "sys_exec_args 0 uargv argv = ret (False, argv)"
| "sys_exec_args (Suc k) uargv argv =
     bnd (fetchaddr (uargv + 8 * of_nat (length argv))) (\<lambda>r.
     case r of None \<Rightarrow> ret (False, argv) | Some uarg \<Rightarrow>
     if uarg = 0 then ret (True, argv)
     else bnd kalloc (\<lambda>page.
          if page = 0 then ret (False, argv)
          else bnd (fetchstr uarg 4096) (\<lambda>(n, bs).
               thn (set_ram (\<lambda>m. write_bytes m page bs)) (
               if n < 0 then ret (False, argv @ [page])
               else sys_exec_args k uargv (argv @ [page])))))"

definition sys_exec :: "('z fs_state_scheme, uint64) K" where
  "sys_exec =
     bnd (argstr 0 MAXPATH) (\<lambda>a.
     case a of None \<Rightarrow> ret (- 1) | Some path \<Rightarrow>
     bnd (argaddr 1) (\<lambda>uargv.
     bnd (sys_exec_args MAXARG uargv []) (\<lambda>(ok, argv).
     if ok
     then bnd (exec path argv) (\<lambda>r.
          thn (forK argv kfree) (
          ret (of_int r)))
     else thn (forK argv kfree) (ret (- 1)))))"

text \<open>The failures of \<^verbatim>\<open>sys_pipe\<close> after the pipe was allocated.\<close>

definition sys_pipe_undo :: "nat \<Rightarrow> nat list \<Rightarrow> nat \<Rightarrow> nat \<Rightarrow> ('z file_state_scheme, uint64) K" where
  "sys_pipe_undo p fds rfile wfile =
     thn (forK fds (\<lambda>fd. upd_proc p (\<lambda>y. y\<lparr>p_ofile := (p_ofile y)(fd := None)\<rparr>))) (
     thn (fileclose rfile) (
     thn (fileclose wfile) (
     ret (- 1))))"

definition sys_pipe :: "('z file_state_scheme, uint64) K" where
  "sys_pipe =
     bnd curproc (\<lambda>p.
     bnd (argaddr 0) (\<lambda>fdarray.
     bnd pipealloc (\<lambda>pa.
     case pa of None \<Rightarrow> ret (- 1) | Some (rfile, wfile) \<Rightarrow>
     bnd (fdalloc rfile) (\<lambda>r0.
     case r0 of None \<Rightarrow> sys_pipe_undo p [] rfile wfile | Some fd0 \<Rightarrow>
     bnd (fdalloc wfile) (\<lambda>r1.
     case r1 of None \<Rightarrow> sys_pipe_undo p [fd0] rfile wfile | Some fd1 \<Rightarrow>
     bnd (gets (\<lambda>s. p_pagetable (procs s p))) (\<lambda>pt.
     bnd (copyout pt fdarray (bytes32 (of_nat fd0))) (\<lambda>c0.
     bnd (if c0 < 0 then ret c0 else copyout pt (fdarray + 4) (bytes32 (of_nat fd1))) (\<lambda>c1.
     if c1 < 0 then sys_pipe_undo p [fd0, fd1] rfile wfile
     else ret 0))))))))"

end
