(* ===== verification/Page_Table.thy ===== *)
theory Page_Table
  imports Vm
begin

text \<open>
  Page tables as arrays of 512 entries, and what the functions of \<^verbatim>\<open>kernel/vm.c\<close> do to the
  memory a process sees through one.
\<close>

section \<open>Page tables as arrays of entries\<close>

text \<open>Entry \<open>i\<close> of the table in page \<open>p\<close>.\<close>

definition pent :: "memory \<Rightarrow> uint64 \<Rightarrow> uint64 \<Rightarrow> uint64" where
  "pent m p i = load64 m (p + 8 * i)"

lemma load_pte_at: "load64 m (pte_at p l va) = pent m p (PX l va)"
  by (simp add: pent_def pte_at_def)

lemma PX_word_less: "PX l va < 512"
  using PX_less [of l va] by (simp add: word_less_nat_alt)

lemma entry_offset:
  fixes i p :: uint64
  assumes "i < 512" "k < 8"
  shows "p + 8 * i + of_nat k = p + of_nat (8 * unat i + k)" "8 * unat i + k < 4096"
  using assms by (simp_all add: word_less_nat_alt)

lemma entry_in_page:
  assumes "aligned p" "i < 512" "k < 8"
  shows "PGROUNDDOWN (p + 8 * i + of_nat k) = p"
  unfolding entry_offset(1) [OF assms(2,3)]
  by (rule page_offset [OF assms(1) entry_offset(2) [OF assms(2,3)]])

lemma store64_far:
  assumes "\<And>k. k < 8 \<Longrightarrow> x \<noteq> a + of_nat k"
  shows "store64 m a v x = m x"
proof (rule store64_other)
  show "8 \<le> unat (x - a)"
  proof (rule ccontr)
    assume "\<not> 8 \<le> unat (x - a)"
    then show False using assms [of "unat (x - a)"] by simp
  qed
qed

lemma pent_store64:
  assumes "aligned p" "aligned q" "i < 512" "j < 512"
  shows "pent (store64 m (p + 8 * i) v) q j = (if q = p \<and> j = i then v else pent m q j)"
proof (cases "q = p \<and> j = i")
  case True
  then show ?thesis by (simp add: pent_def)
next
  case False
  have "store64 m (p + 8 * i) v (q + 8 * j + of_nat k) = m (q + 8 * j + of_nat k)" if k: "k < 8" for k
  proof (rule store64_far)
    fix l :: nat
    assume l: "l < 8"
    show "q + 8 * j + of_nat k \<noteq> p + 8 * i + of_nat l"
    proof
      assume eq: "q + 8 * j + of_nat k = p + 8 * i + of_nat l"
      then have "q = p"
        using entry_in_page [OF assms(2,4) k] entry_in_page [OF assms(1,3) l] by simp
      then have "of_nat (8 * unat j + k) = (of_nat (8 * unat i + l) :: uint64)"
        using eq entry_offset(1) [OF assms(4) k, of q] entry_offset(1) [OF assms(3) l, of p] by simp
      then have "8 * unat j + k = 8 * unat i + l"
        using entry_offset(2) [OF assms(4) k] entry_offset(2) [OF assms(3) l]
          unat_of_nat64 [of "8 * unat j + k"] unat_of_nat64 [of "8 * unat i + l"] by simp
      then have "unat j = unat i" using k l by presburger
      then show False using False \<open>q = p\<close> by (simp add: word_unat_eq_iff)
    qed
  qed
  then have "load64 (store64 m (p + 8 * i) v) (q + 8 * j) = load64 m (q + 8 * j)"
    by (rule load64_cong)
  then show ?thesis unfolding pent_def if_not_P [OF False] .
qed

lemma pent_cong:
  assumes "aligned p" "i < 512" "\<And>a. PGROUNDDOWN a = p \<Longrightarrow> m' a = m a"
  shows "pent m' p i = pent m p i"
  unfolding pent_def by (rule load64_cong) (simp add: assms entry_in_page)

lemma pent_zero:
  assumes "aligned p" "i < 512" "\<And>a. PGROUNDDOWN a = p \<Longrightarrow> m a = 0"
  shows "pent m p i = 0"
proof -
  have "load64 (\<lambda>_. 0) a = 0" for a by (simp add: load64_def eval_nat_numeral)
  then show ?thesis using pent_cong [OF assms(1,2), of m "\<lambda>_. 0"] assms(3) by (simp add: pent_def)
qed


lemma unat_PX: "unat (PX l va) = unat va div 2 ^ (12 + 9 * l) mod 512"
proof -
  have "PX l va = take_bit 9 (drop_bit (12 + 9 * l) va)"
    by (simp add: PX_def take_bit_eq_mask mask_eq_exp_minus_1)
  then have "unat (PX l va) = take_bit 9 (drop_bit (12 + 9 * l) (unat va))"
    by (simp add: unsigned_take_bit_eq unsigned_drop_bit_eq)
  then show ?thesis by (simp add: take_bit_eq_mod drop_bit_eq_div)
qed

lemma base512:
  fixes a b :: nat
  assumes "a mod 512 = b mod 512" "a div 512 mod 512 = b div 512 mod 512"
    and "a div 512 div 512 = b div 512 div 512"
  shows "a = b"
proof -
  have "a div 512 = b div 512" using assms(2,3) by (metis div_mult_mod_eq)
  then show ?thesis using assms(1) by (metis div_mult_mod_eq)
qed

text \<open>The three indices determine the virtual page.\<close>

lemma PX_inject:
  assumes "va < MAXVA" "va' < MAXVA" "\<And>l. l \<le> 2 \<Longrightarrow> PX l va = PX l va'"
  shows "PGROUNDDOWN va = PGROUNDDOWN va'"
proof -
  define a b where "a = unat va div 4096" and "b = unat va' div 4096"
  have lt: "unat va < 2 ^ 38" "unat va' < 2 ^ 38"
    using assms(1,2) by (simp_all add: word_less_nat_alt unat_MAXVA)
  have eq: "unat (PX l va) = unat (PX l va')" if "l \<le> 2" for l using assms(3) [OF that] by simp
  have "a mod 512 = b mod 512" using eq [of 0] by (simp add: unat_PX a_def b_def)
  moreover have "a div 512 mod 512 = b div 512 mod 512"
    using eq [of 1] by (simp add: unat_PX a_def b_def flip: div_mult2_eq)
  moreover have "a div 512 div 512 = b div 512 div 512"
  proof -
    have "unat va div 2 ^ 30 < 512" "unat va' div 2 ^ 30 < 512"
      using lt by (simp_all add: div_less_iff_less_mult)
    then have "unat va div 2 ^ 30 = unat va' div 2 ^ 30" using eq [of 2] by (simp add: unat_PX)
    then show ?thesis by (simp add: a_def b_def flip: div_mult2_eq)
  qed
  ultimately have "a = b" by (rule base512)
  then show ?thesis by (intro word64_eqI) (simp add: unat_PGROUNDDOWN a_def b_def)
qed

lemma pte_at_page: "aligned p \<Longrightarrow> PGROUNDDOWN (pte_at p l va) = p"
  using entry_in_page [of p "PX l va" 0] by (simp add: pte_at_def PX_word_less)

lemma pte_at_nonzero: "aligned p \<Longrightarrow> p \<noteq> 0 \<Longrightarrow> pte_at p l va \<noteq> 0"
  using pte_at_page [of p l va] by (auto simp: PGROUNDDOWN_def)

text \<open>The three levels of a walk.\<close>

lemma walk3:
  "pwalk 2 m p va =
     (let e = pent m p (PX 2 va) in
      if e AND PTE_V = 0 then 0
      else let e' = pent m (PTE2PA e) (PX 1 va) in
           if e' AND PTE_V = 0 then 0 else pte_at (PTE2PA e') 0 va)"
  "pchain 2 m p va =
     (let e = pent m p (PX 2 va) in
      insert p (if e AND PTE_V = 0 then {}
      else let e' = pent m (PTE2PA e) (PX 1 va) in
           insert (PTE2PA e) (if e' AND PTE_V = 0 then {} else {PTE2PA e'})))"
  by (simp_all add: numeral_2_eq_2 load_pte_at Let_def)

text \<open>An address space with one user page, for the examples.\<close>

definition one_page :: memory where
  "one_page =
     (store64 (store64 (store64 (\<lambda>_. 0) 0x1000 0x801) 0x2000 0xc01) 0x3000 0x1017)
       (0x4000 := 104, 0x4001 := 105)"

lemma pent_one_page:
  assumes "aligned q" "j < 512" "q \<noteq> 0x4000"
  shows "pent one_page q j =
    (if q = 0x3000 \<and> j = 0 then 0x1017 else if q = 0x2000 \<and> j = 0 then 0xc01
     else if q = 0x1000 \<and> j = 0 then 0x801 else 0)"
proof -
  have st: "pent (store64 m p v) q j = (if q = p \<and> j = 0 then v else pent m q j)"
    if "aligned p" for m p v
    using pent_store64 [OF that assms(1) _ assms(2), of 0] by simp
  have al: "aligned 0x1000" "aligned 0x2000" "aligned 0x3000" by (simp_all add: aligned_unat)
  have base: "pent (\<lambda>_. 0) q j = 0" by (rule pent_zero [OF assms(1,2)]) simp
  have "pent one_page q j = pent (store64 (store64 (store64 (\<lambda>_. 0) 0x1000 0x801) 0x2000 0xc01) 0x3000 0x1017) q j"
    unfolding one_page_def using assms by (intro pent_cong) (auto simp: PGROUNDDOWN_def)
  then show ?thesis unfolding st [OF al(1)] st [OF al(2)] st [OF al(3)] base by simp
qed

lemma one_page_pwalk:
  "pwalk 2 one_page 0x1000 va = (if PX 2 va = 0 \<and> PX 1 va = 0 then pte_at 0x3000 0 va else 0)"
  "pchain 2 one_page 0x1000 va \<subseteq> {0x1000, 0x2000, 0x3000}"
proof -
  have al: "aligned 0x1000" "aligned 0x2000" by (simp_all add: aligned_unat)
  have pa: "PTE2PA 0x801 = 0x2000" "PTE2PA 0xc01 = 0x3000" by (simp_all add: PTE2PA_def)
  show "pwalk 2 one_page 0x1000 va = (if PX 2 va = 0 \<and> PX 1 va = 0 then pte_at 0x3000 0 va else 0)"
    "pchain 2 one_page 0x1000 va \<subseteq> {0x1000, 0x2000, 0x3000}"
    by (simp_all add: walk3 Let_def pent_one_page al PX_word_less pa)
qed

lemma uaddr_one_page: "uaddr one_page 0x1000 va = (if PGROUNDDOWN va = 0 then 0x4000 else 0)"
proof -
  have al: "aligned 0x3000" by (simp add: aligned_unat)
  moreover have "PTE2PA 0x1017 = 0x4000" by (simp add: PTE2PA_def)
  ultimately have eq: "uaddr one_page 0x1000 va
      = (if va < MAXVA \<and> PX 2 va = 0 \<and> PX 1 va = 0 \<and> PX 0 va = 0 then 0x4000 else 0)"
    by (auto simp: uaddr_def one_page_pwalk Let_def load_pte_at pent_one_page PX_word_less pte_at_nonzero)
  have "PGROUNDDOWN va = 0" if "va < MAXVA" "PX 2 va = 0" "PX 1 va = 0" "PX 0 va = 0"
  proof -
    have "PX l va = PX l 0" if "l \<le> 2" for l
      using that \<open>PX 2 va = 0\<close> \<open>PX 1 va = 0\<close> \<open>PX 0 va = 0\<close>
      by (auto simp: le_Suc_eq numeral_2_eq_2 PX_def)
    then show ?thesis using PX_inject [of va 0] that(1) by (simp add: MAXVA_def PGROUNDDOWN_def)
  qed
  moreover have "va < MAXVA \<and> PX l va = 0" if "PGROUNDDOWN va = 0" for l
  proof -
    have lt: "unat va < 4096"
      using that unat_PGROUNDDOWN [of va] by (simp add: div_eq_0_iff)
    moreover have "unat va < 2 ^ (12 + 9 * l)"
      by (rule less_le_trans [OF lt]) (simp add: power_add)
    ultimately show ?thesis
      by (simp add: word_less_nat_alt unat_MAXVA word64_eqI unat_PX)
  qed
  ultimately show ?thesis unfolding eq by auto
qed

lemma one_page_ok: "user_ok one_page 0x1000"
proof -
  have "aligned 0x1000" by (simp add: aligned_unat)
  moreover have "0x4000 \<notin> pchain 2 one_page 0x1000 v" for v
    using one_page_pwalk(2) [of v] by auto
  ultimately show ?thesis by (auto simp: user_ok_def uaddr_one_page)
qed

lemma ubytes_nth: "i < n \<Longrightarrow> n \<le> mapped_len m pagetable va k \<Longrightarrow>
    umem m pagetable (va + of_nat i) = Some (ubytes m pagetable va n ! i)"
  using mapped_len_nth [of i m pagetable va k] by (simp add: ubytes_def)

lemma mapped_len_gt:
  assumes "\<And>i. i \<le> n \<Longrightarrow> umem m pagetable (va + of_nat i) \<noteq> None" "n < len"
  shows "n < mapped_len m pagetable va len"
proof -
  have "mapped_len m pagetable va (Suc n + (len - Suc n))
      = Suc n + length (takeWhile (\<lambda>i. umem m pagetable (va + of_nat (Suc n + i)) \<noteq> None) [0..<len - Suc n])"
    unfolding mapped_len_def by (rule length_takeWhile_upt_add) (use assms(1) in simp)
  then show ?thesis using assms(2) by simp
qed

lemma user_written_read:
  assumes w: "user_written m pagetable va bs (length bs) m'"
    and len: "mapped_len m pagetable va (length bs) = length bs"
  shows "mapped_len m' pagetable va (length bs) = length bs" "ubytes m' pagetable va (length bs) = bs"
proof -
  have u: "uaddr m' pagetable = uaddr m pagetable" using w by (simp add: user_written_def)
  show "mapped_len m' pagetable va (length bs) = length bs" using mapped_len_cong [OF u] len by simp
  have "length bs \<le> 2 ^ 38" using mapped_len_bound [of m pagetable va "length bs"] len by simp
  then have "umem m' pagetable (va + of_nat i) = Some (bs ! i)" if "i < length bs" for i
    using that w by (simp add: user_written_def)
  then show "ubytes m' pagetable va (length bs) = bs"
    by (intro nth_equalityI) (simp_all add: ubytes_def)
qed

lemma takeWhile_nul:
  "0 \<in> set bs \<Longrightarrow> \<exists>k < length bs. takeWhile (\<lambda>c. c \<noteq> 0) bs @ [0] = take (Suc k) (bs :: uint8 list)"
proof (induction bs)
  case (Cons b bs)
  show ?case
  proof (cases "b = 0")
    case True
    then show ?thesis by (intro exI [of _ 0]) simp
  next
    case False
    then obtain k where "k < length bs" "takeWhile (\<lambda>c. c \<noteq> 0) bs @ [0] = take (Suc k) bs"
      using Cons by auto
    then show ?thesis using False by (intro exI [of _ "Suc k"]) simp
  qed
qed simp

text \<open>A NUL among the mapped bytes.\<close>

lemma mapped_nul:
  "0 \<in> set (ubytes m pagetable va (mapped_len m pagetable va len)) \<longleftrightarrow>
   (\<exists>n < len. umem m pagetable (va + of_nat n) = Some 0
      \<and> (\<forall>i < n. umem m pagetable (va + of_nat i) \<notin> {None, Some 0}))" (is "?L \<longleftrightarrow> (\<exists>n < len. ?R n)")
proof
  define P where "P = (\<lambda>n. n < len \<and> n < mapped_len m pagetable va len \<and> umem m pagetable (va + of_nat n) = Some 0)"
  assume ?L
  then obtain i where "i < mapped_len m pagetable va len"
    "ubytes m pagetable va (mapped_len m pagetable va len) ! i = 0"
    by (auto simp: in_set_conv_nth)
  then have "P i"
    using ubytes_nth [of i _ m pagetable va len] mapped_len_le [of m pagetable va len]
    by (auto simp: P_def)
  then have "P (LEAST n. P n)" by (rule LeastI)
  moreover have "umem m pagetable (va + of_nat i) \<notin> {None, Some 0}" if "i < (LEAST n. P n)" for i
    using not_less_Least [OF that] mapped_len_nth [of i m pagetable va len] that calculation
    by (auto simp: P_def)
  ultimately show "\<exists>n < len. ?R n" unfolding P_def by blast
next
  assume "\<exists>n < len. ?R n"
  then obtain n where n: "n < len" "?R n" by blast
  then have lt: "n < mapped_len m pagetable va len"
    by (intro mapped_len_gt) (auto simp: le_less)
  then have "ubytes m pagetable va (mapped_len m pagetable va len) ! n = 0"
    using ubytes_nth [OF lt order_refl] n(2) by simp
  then show ?L using lt by (auto simp: in_set_conv_nth)
qed

lemma mapped_len_Suc:
  "mapped_len m pagetable va (Suc n) =
     (if umem m pagetable va = None then 0 else Suc (mapped_len m pagetable (va + 1) n))"
proof (cases "umem m pagetable va = None")
  case True
  then show ?thesis by (simp add: mapped_len_def upt_conv_Cons del: upt_Suc)
next
  case False
  have "length (takeWhile (\<lambda>i. umem m pagetable (va + of_nat i) \<noteq> None) [0..<1 + n])
      = 1 + length (takeWhile (\<lambda>i. umem m pagetable (va + of_nat (1 + i)) \<noteq> None) [0..<n])"
    by (rule length_takeWhile_upt_add) (use False in simp)
  then show ?thesis using False by (simp add: mapped_len_def add.assoc)
qed

lemma ubytes_Suc:
  "ubytes m pagetable va (Suc n) = the (umem m pagetable va) # ubytes m pagetable (va + 1) n"
  using ubytes_add [of m pagetable va 1 n] by (simp add: ubytes_def)

lemma user_written_Cons:
  assumes "user_written m pagetable va [c] 1 m1" "user_written m1 pagetable (va + 1) bs k m2"
    and "k \<le> length bs" "k < 2 ^ 64"
  shows "user_written m pagetable va (c # bs) (Suc k) m2"
  using user_written_trans [of m pagetable va 1 "c # bs" m1 k m2] assms by simp

lemma returns_copyin [kwp]:
  "returns E s (copyin pagetable va len) Q =
     (let k = mapped_len (ram s) pagetable va len in
      Q (if k = len then 0 else - 1, ubytes (ram s) pagetable va k) s)"
  unfolding Let_def by (rule returns_det) (rule copyin_spec [unfolded Let_def])

section \<open>Properties: copying between the kernel and a process\<close>

text \<open>C13. \<^verbatim>\<open>copyout\<close> stores the longest prefix of the source that fits into mapped user pages and
  returns 0 when that is all of it, -1 otherwise. As a function from user addresses to bytes,
  user memory is updated at exactly these addresses, whatever pages the range crosses; the
  page table, the address space's validity and all memory that is not a user page of this
  process are unchanged, and so is the rest of the machine.\<close>

theorem copyout_writes_user_memory:
  assumes "user_ok (ram s) pagetable"
  shows "returns E s (copyout pagetable va bs) (\<lambda>r t.
    let k = mapped_len (ram s) pagetable va (length bs) in
    r = (if k = length bs then 0 else - 1) \<and> t = s\<lparr>ram := ram t\<rparr>
    \<and> user_ok (ram t) pagetable
    \<and> umem (ram t) pagetable =
        (\<lambda>x. if unat (x - va) < k then Some (bs ! unat (x - va)) else umem (ram s) pagetable x)
    \<and> (\<forall>a. \<not> user_page (ram s) pagetable a \<longrightarrow> ram t a = ram s a))"
  by (rule returns_mono [OF copyout_spec [OF assms]]) (auto simp: Let_def user_written_def)

theorem copyout_writes_user_memory_witness:
  "returns (\<lambda>_ s. Some s) (two_pages\<lparr>ram := one_page\<rparr>) (copyout 0x1000 0xffe [1, 2, 3])
     (\<lambda>r t.
     r = - 1 \<and> umem (ram t) 0x1000 0xfff = Some 2 \<and> umem (ram t) 0x1000 0x1000 = None)"
proof -
  have len: "mapped_len one_page 0x1000 0xffe 3 = 2"
    by (simp add: mapped_len_def umem_def uaddr_one_page upt_rec PGROUNDDOWN_def)
  have out: "umem one_page 0x1000 0x1000 = None"
    by (simp add: umem_def uaddr_one_page PGROUNDDOWN_def)
  show ?thesis
    by (rule returns_mono [OF copyout_writes_user_memory]) (simp_all add: one_page_ok Let_def len [unfolded numeral_3_eq_3] out)
qed

text \<open>C14. \<^verbatim>\<open>copyin\<close> delivers the user's bytes from \<open>va\<close> on, up to the first address that is not
  mapped, and returns 0 exactly when all \<open>len\<close> of them are; it changes nothing. So what was
  stored by a successful \<^verbatim>\<open>copyout\<close> is read back by \<^verbatim>\<open>copyin\<close> from the same address.\<close>

theorem copyin_reads_user_memory:
  "returns E s (copyin pagetable va len) (\<lambda>(r, bs) t. t = s
     \<and> length bs = mapped_len (ram s) pagetable va len \<and> r = (if length bs = len then 0 else - 1)
     \<and> (\<forall>i < length bs. umem (ram s) pagetable (va + of_nat i) = Some (bs ! i)))
   \<and> (user_ok (ram s) pagetable \<longrightarrow>
      returns E s (bnd (copyout pagetable va src) (\<lambda>r. bnd (copyin pagetable va (length src)) (\<lambda>q. ret (r, q))))
        (\<lambda>(r, q) t. r = 0 \<longrightarrow> q = (0, src)))"
proof (intro conjI impI)
  show "returns E s (copyin pagetable va len) (\<lambda>(r, bs) t. t = s
     \<and> length bs = mapped_len (ram s) pagetable va len \<and> r = (if length bs = len then 0 else - 1)
     \<and> (\<forall>i < length bs. umem (ram s) pagetable (va + of_nat i) = Some (bs ! i)))"
    by (rule returns_mono [OF copyin_spec]) (auto simp: Let_def ubytes_nth [OF _ order_refl])
next
  assume ok: "user_ok (ram s) pagetable"
  let ?k = "mapped_len (ram s) pagetable va (length src)"
  have "returns E t (copyin pagetable va (length src)) (\<lambda>q u. ?k = length src \<longrightarrow> q = (0, src))"
    if "user_written (ram s) pagetable va src ?k (ram t)" for t
    by (rule returns_mono [OF copyin_spec]) (use that user_written_read in \<open>auto simp: Let_def\<close>)
  then show "returns E s (bnd (copyout pagetable va src) (\<lambda>r.
      bnd (copyin pagetable va (length src)) (\<lambda>q. ret (r, q)))) (\<lambda>(r, q) t. r = 0 \<longrightarrow> q = (0, src))"
    unfolding returns_bnd returns_ret by (intro returns_mono [OF copyout_spec [OF ok]]) (auto simp: Let_def split: if_splits elim: returns_mono)
qed

theorem copyin_reads_user_memory_witness:
  "returns (\<lambda>_ s. Some s) (two_pages\<lparr>ram := one_page\<rparr>)
     (bnd (copyout 0x1000 0x10 [7]) (\<lambda>r. bnd (copyin 0x1000 0x10 1) (\<lambda>q. ret (r, q))))
     (\<lambda>(r, q) t. r = 0 \<longrightarrow> q = (0, [7]))"
  using copyin_reads_user_memory [where E = "\<lambda>_ s. Some s" and
      s = "two_pages\<lparr>ram := one_page\<rparr>" and pagetable = "0x1000" and va = "0x10" and src = "[7]"]
  by (simp add: one_page_ok)

text \<open>C15. \<^verbatim>\<open>copyinstr\<close> finds the string at \<open>va\<close>: if one of the first \<open>len\<close> user bytes is NUL and
  all bytes up to it are mapped it returns 0 and delivers the string with its NUL, however
  many pages it spans; otherwise it returns -1. It changes nothing.\<close>

theorem copyinstr_finds_string:
  "returns E s (copyinstr pagetable va len) (\<lambda>(r, bs) t. t = s \<and> length bs \<le> len
     \<and> (\<forall>i < length bs. umem (ram s) pagetable (va + of_nat i) = Some (bs ! i))
     \<and> (r = 0 \<longleftrightarrow> (\<exists>n < len. umem (ram s) pagetable (va + of_nat n) = Some 0
           \<and> (\<forall>i < n. umem (ram s) pagetable (va + of_nat i) \<notin> {None, Some 0})))
     \<and> (r = 0 \<longrightarrow> bs \<noteq> [] \<and> last bs = 0 \<and> 0 \<notin> set (butlast bs)) \<and> r \<in> {0, - 1})"
proof (rule returns_mono [OF copyinstr_spec], goal_cases)
  case (1 r t)
  let ?bs = "ubytes (ram s) pagetable va (mapped_len (ram s) pagetable va len)"
  obtain q bs where r: "r = (q, bs)" by (cases r)
  show ?case
  proof (cases "0 \<in> set ?bs")
    case True
    then obtain k where k: "k < length ?bs" "takeWhile (\<lambda>c. c \<noteq> 0) ?bs @ [0] = take (Suc k) ?bs"
      using takeWhile_nul by blast
    have "umem (ram s) pagetable (va + of_nat i) = Some ((takeWhile (\<lambda>c. c \<noteq> 0) ?bs @ [0]) ! i)" if "i < Suc k" for i
      unfolding k(2) using that k(1) by (simp add: ubytes_nth [OF _ order_refl])
    moreover have "length (takeWhile (\<lambda>c. c \<noteq> 0) ?bs) = k"
      using arg_cong [OF k(2), of length] k(1) by simp
    moreover have "0 \<notin> set (takeWhile (\<lambda>c. c \<noteq> 0) ?bs)" by (auto dest: set_takeWhileD)
    ultimately show ?thesis unfolding r prod.case mapped_nul [symmetric]
      using 1 True k(1) r mapped_len_le [of "ram s" pagetable va len]
      by (simp add: Let_def)
  next
    case False
    then show ?thesis unfolding r prod.case mapped_nul [symmetric]
      using 1 r mapped_len_le [of "ram s" pagetable va len]
      by (auto simp: Let_def ubytes_nth [OF _ order_refl])
  qed
qed

theorem copyinstr_finds_string_witness:
  "returns (\<lambda>_ s. Some s) (two_pages\<lparr>ram := one_page\<rparr>) (copyinstr 0x1000 0 8)
     (\<lambda>(r, bs) t. r = 0)"
proof -
  have "one_page 0x4000 = 104" "one_page 0x4001 = 105" "one_page 0x4002 = 0"
    by (simp_all add: one_page_def store64_other)
  then have str: "umem one_page 0x1000 0 = Some 104" "umem one_page 0x1000 1 = Some 105"
    "umem one_page 0x1000 2 = Some 0"
    by (simp_all add: umem_def uaddr_one_page PGROUNDDOWN_def)
  have "umem one_page 0x1000 (of_nat i) \<notin> {None, Some 0}" if "i < 2" for i
  proof -
    have "i = 0 \<or> i = 1" using that by linarith
    then show ?thesis using str by auto
  qed
  then have "\<exists>n < 8. umem one_page 0x1000 (0 + of_nat n) = Some 0
      \<and> (\<forall>i < n. umem one_page 0x1000 (0 + of_nat i) \<notin> {None, Some 0})"
    using str(3) by (intro exI [of _ 2]) simp
  then show ?thesis by (intro returns_mono [OF copyinstr_finds_string]) auto
qed

end
