(* ===== verification/Pipe.thy ===== *)
theory Pipe
  imports File Page_Table
begin

text \<open>
  What \<^verbatim>\<open>kernel/pipe.c\<close> guarantees: a pipe is a queue of bytes between processes, and a
  writer sleeps while it is full.
\<close>

section \<open>The bytes in a pipe\<close>

definition pipe_bytes :: "pipe \<Rightarrow> uint8 list" where
  "pipe_bytes x = ring_list 512 (pi_nread x) (pi_nwrite x) (pi_data x)"

lemma pipe_open [simp]:
  "pi_readopen (pipe_put c x) = pi_readopen x" "pi_writeopen (pipe_put c x) = pi_writeopen x"
  by (simp_all add: pipe_put_def)

lemma pipe_bytes_Nil: "pipe_bytes x = [] \<longleftrightarrow> pi_nread x = pi_nwrite x"
  by (simp add: pipe_bytes_def ring_list_Nil)

lemma pipe_bytes_skip:
  assumes "pi_nread x \<noteq> pi_nwrite x"
  shows "pipe_bytes x = pipe_front x # pipe_bytes (pipe_skip x)"
  using pipe_ring.skip_removes [OF assms] by (simp add: pipe_bytes_def pipe_front_def unat_mod)

lemma pipe_bytes_put: "length (pipe_bytes x) < 512 \<Longrightarrow> pipe_bytes (pipe_put c x) = pipe_bytes x @ [c]"
  using pipe_ring.put_appends [of x c] by (simp add: pipe_bytes_def)

lemma pipe_full: "pi_nwrite x = pi_nread x + 512 \<longleftrightarrow> length (pipe_bytes x) = 512"
  using pipe_ring.full_iff [of x] by (simp add: pipe_bytes_def)

lemma returns_conj:
  "returns E s m P \<Longrightarrow> returns E s m Q \<Longrightarrow> (\<And>a t. P a t \<Longrightarrow> Q a t \<Longrightarrow> R a t) \<Longrightarrow> returns E s m R"
  by (auto simp: returns_def split: option.splits outcome.splits)

section \<open>Reading\<close>

lemma returns_upd_pipe [kwp]:
  "returns E s (upd_pipe pi g) Q = Q () (s\<lparr>pipes := (pipes s)(pi := g (pipes s pi))\<rparr>)"
  by (simp add: upd_pipe_def kwp)

text \<open>
  From \<open>s\<close> to \<open>t\<close>, the first \<open>d\<close> bytes of the pipe went to the user address \<open>a\<close>: as many
  as there are, as were asked for (\<open>k\<close>), and as fit into mapped memory. In the last case one
  byte more has left the pipe.
\<close>

definition pipe_delivered ::
  "'z file_state_scheme \<Rightarrow> uint64 \<Rightarrow> uint64 \<Rightarrow> uint64 \<Rightarrow> nat \<Rightarrow> nat \<Rightarrow> 'z file_state_scheme \<Rightarrow> bool" where
  "pipe_delivered s pi pt a k d t \<longleftrightarrow>
     (let q = pipe_bytes (pipes s pi); n = min k (length q) in
      mapped_len (ram s) pt a n = d
      \<and> pipe_bytes (pipes t pi) = drop (if d < n then Suc d else d) q
      \<and> t = s\<lparr>ram := ram t, pipes := pipes t\<rparr> \<and> (\<forall>p. p \<noteq> pi \<longrightarrow> pipes t p = pipes s p)
      \<and> user_written (ram s) pt a q d (ram t))"

lemma delivered_0:
  assumes "user_ok (ram s) pt" "k = 0 \<or> pi_nread (pipes s pi) = pi_nwrite (pipes s pi)"
  shows "pipe_delivered s pi pt a k 0 s"
proof -
  have "min k (length (pipe_bytes (pipes s pi))) = 0"
    using assms(2) pipe_bytes_Nil [of "pipes s pi"] by auto
  then show ?thesis unfolding pipe_delivered_def Let_def using assms(1) by (simp only: user_written_0) simp
qed

lemma delivered_unmapped:
  assumes "pi_nread (pipes s pi) \<noteq> pi_nwrite (pipes s pi)" "umem (ram s) pt a = None"
    and "user_written (ram s) pt a bs 0 m"
  shows "pipe_delivered s pi pt a (Suc k) 0 (s\<lparr>pipes := (pipes s)(pi := pipe_skip (pipes s pi)), ram := m\<rparr>)"
  using assms pipe_bytes_skip [OF assms(1)]
  by (simp add: pipe_delivered_def Let_def mapped_len_Suc user_written_def)

lemma delivered_Cons:
  assumes ne: "pi_nread (pipes s pi) \<noteq> pi_nwrite (pipes s pi)" and a: "umem (ram s) pt a \<noteq> None"
    and w: "user_written (ram s) pt a [pipe_front (pipes s pi)] 1 m"
    and d: "pipe_delivered (s\<lparr>pipes := (pipes s)(pi := pipe_skip (pipes s pi)), ram := m\<rparr>) pi pt (a + 1) k d t"
  shows "pipe_delivered s pi pt a (Suc k) (Suc d) t"
proof -
  let ?x = "pipes s pi"
  let ?n = "min k (length (pipe_bytes (pipe_skip ?x)))"
  have q: "pipe_bytes ?x = pipe_front ?x # pipe_bytes (pipe_skip ?x)" using ne by (rule pipe_bytes_skip)
  have "uaddr m pt = uaddr (ram s) pt" using w by (simp add: user_written_def)
  then have cong: "mapped_len m pt x n = mapped_len (ram s) pt x n" for x n by (rule mapped_len_cong)
  have dm: "mapped_len m pt (a + 1) ?n = d"
    and uw: "user_written m pt (a + 1) (pipe_bytes (pipe_skip ?x)) d (ram t)"
    and rest: "pipe_bytes (pipes t pi) = drop (if d < ?n then Suc d else d) (pipe_bytes (pipe_skip ?x))"
      "t = s\<lparr>ram := ram t, pipes := pipes t\<rparr>" "\<forall>p. p \<noteq> pi \<longrightarrow> pipes t p = pipes s p"
    using d by (simp_all add: pipe_delivered_def Let_def)
  have "d \<le> length (pipe_bytes (pipe_skip ?x))" "d < 2 ^ 64"
    using mapped_len_le [of m pt "a + 1" ?n] mapped_len_bound [of m pt "a + 1" ?n] by (simp_all add: dm)
  then have "user_written (ram s) pt a (pipe_bytes ?x) (Suc d) (ram t)"
    unfolding q by (rule user_written_Cons [OF w uw])
  moreover have "mapped_len (ram s) pt a (min (Suc k) (length (pipe_bytes ?x))) = Suc d"
    using a dm by (simp add: q mapped_len_Suc cong)
  moreover have "pipe_bytes (pipes t pi) =
      drop (if Suc d < min (Suc k) (length (pipe_bytes ?x)) then Suc (Suc d) else Suc d) (pipe_bytes ?x)"
    by (simp add: q rest(1))
  ultimately show ?thesis
    unfolding pipe_delivered_def Let_def using rest(2,3) by blast
qed

lemma piperead_loop_spec:
  assumes "user_ok (ram s) (p_pagetable (procs s pr))"
  shows "returns E s (piperead_loop pi pr addr i k) (\<lambda>j t. \<exists>d. j = i + d
    \<and> pipe_delivered s pi (p_pagetable (procs s pr)) (addr + of_nat i) k d t)"
  using assms
proof (induction k arbitrary: i s)
  case 0
  then show ?case by (simp add: kwp delivered_0)
next
  case (Suc k)
  let ?x = "pipes s pi" and ?pt = "p_pagetable (procs s pr)" and ?a = "addr + of_nat i"
  show ?case
  proof (cases "pi_nread ?x = pi_nwrite ?x")
    case True
    then show ?thesis using Suc.prems by (auto simp: kwp intro: delivered_0)
  next
    case False
    define s1 where "s1 = s\<lparr>pipes := (pipes s)(pi := pipe_skip ?x)\<rparr>"
    have ok: "user_ok (ram s1) ?pt" using Suc.prems by (simp add: s1_def)
    have "returns E s1 (copyout ?pt ?a [pipe_front ?x]) (\<lambda>r t.
        returns E t (if r = - 1 then ret i else piperead_loop pi pr addr (i + 1) k)
          (\<lambda>j t. \<exists>d. j = i + d \<and> pipe_delivered s pi ?pt ?a (Suc k) d t))"
    proof (rule returns_mono [OF copyout_spec [OF ok]])
      fix r :: int and t
      assume *: "let n = mapped_len (ram s1) ?pt ?a (length [pipe_front ?x]) in
          r = (if n = length [pipe_front ?x] then 0 else - 1) \<and> t = s1\<lparr>ram := ram t\<rparr>
          \<and> user_written (ram s1) ?pt ?a [pipe_front ?x] n (ram t)"
      show "returns E t (if r = - 1 then ret i else piperead_loop pi pr addr (i + 1) k)
          (\<lambda>j t. \<exists>d. j = i + d \<and> pipe_delivered s pi ?pt ?a (Suc k) d t)"
      proof (cases "umem (ram s) ?pt ?a = None")
        case True
        then have "r = - 1" "t = s\<lparr>pipes := (pipes s)(pi := pipe_skip ?x), ram := ram t\<rparr>"
          "user_written (ram s) ?pt ?a [pipe_front ?x] 0 (ram t)"
          using * by (simp_all add: mapped_len_Suc s1_def)
        then show ?thesis
          using delivered_unmapped [OF False True, of "[pipe_front ?x]" "ram t" k] by (auto simp: kwp)
      next
        case mapped: False
        define m where "m = ram t"
        have w: "user_written (ram s) ?pt ?a [pipe_front ?x] 1 m" and r: "r = 0"
          and t: "t = s\<lparr>pipes := (pipes s)(pi := pipe_skip ?x), ram := m\<rparr>"
          using * mapped by (simp_all add: mapped_len_Suc s1_def m_def)
        have "returns E t (piperead_loop pi pr addr (i + 1) k) (\<lambda>j u. \<exists>d. j = i + 1 + d
            \<and> pipe_delivered t pi (p_pagetable (procs t pr)) (addr + of_nat (i + 1)) k d u)"
          using w by (intro Suc.IH) (simp add: t user_written_def)
        then have "returns E t (piperead_loop pi pr addr (i + 1) k)
            (\<lambda>j t. \<exists>d. j = i + d \<and> pipe_delivered s pi ?pt ?a (Suc k) d t)"
          unfolding t using delivered_Cons [OF False mapped w, of k]
          by (auto simp: algebra_simps elim!: returns_mono)
        then show ?thesis by (simp add: r)
      qed
    qed
    then show ?thesis using False by (simp add: kwp s1_def)
  qed
qed

lemma ends_piperead_loop:
  assumes ok: "user_ok (ram s) (p_pagetable (procs s pr))"
    and Q: "\<And>d m x. pipe_delivered s pi (p_pagetable (procs s pr)) (addr + of_nat i) k d
        (s\<lparr>ram := m, pipes := x\<rparr>) \<Longrightarrow> Q (i + d) (s\<lparr>ram := m, pipes := x\<rparr>)"
  shows "ends E s (piperead_loop pi pr addr i k) Q"
  unfolding ends_def
proof (intro allI impI)
  fix t
  assume t: "lk_eq s t"
  then have "user_ok (ram t) (p_pagetable (procs t pr))" using ok by (simp add: lk_fields)
  from piperead_loop_spec [OF this] show "returns E t (piperead_loop pi pr addr i k) (\<lambda>a u. \<exists>s'. lk_eq s' u \<and> Q a s')"
  proof (rule returns_mono, elim exE conjE)
    fix j u d
    assume j: "j = i + d" and d: "pipe_delivered t pi (p_pagetable (procs t pr)) (addr + of_nat i) k d u"
    let ?s = "s\<lparr>ram := ram u, pipes := pipes u\<rparr>"
    have "lk_eq ?s (t\<lparr>ram := ram u, pipes := pipes u\<rparr>)" using t by (simp add: lk_fields)
    moreover have "t\<lparr>ram := ram u, pipes := pipes u\<rparr> = u" using d by (simp add: pipe_delivered_def Let_def)
    moreover have "pipe_delivered s pi (p_pagetable (procs s pr)) (addr + of_nat i) k d ?s"
      using d t by (simp add: pipe_delivered_def Let_def lk_fields)
    ultimately show "\<exists>s'. lk_eq s' u \<and> Q j s'" using Q j by auto
  qed
qed

lemma ends_piperead_wait:
  "pi_nread (pipes s pi) \<noteq> pi_nwrite (pipes s pi) \<or> \<not> pi_writeopen (pipes s pi) \<Longrightarrow> Q True s \<Longrightarrow>
     ends E s (piperead_wait pi pr) Q"
  by (auto simp: ends_def returns_def piperead_wait.simps kdefs lk_fields)

text \<open>The specification does not look at the locks.\<close>

lemma delivered_acquired [simp]:
  "pipe_delivered (acquired l s) pi pt a k d (acquired l (s\<lparr>ram := m, pipes := x\<rparr>))
     = pipe_delivered s pi pt a k d (s\<lparr>ram := m, pipes := x\<rparr>)"
  by (simp add: pipe_delivered_def Let_def)

lemma ends_piperead:
  assumes "uncontended E" "cpu_ok s" "cproc (cpus s (tp s)) = Some p"
    and "locked (locks s (PipeLock pi)) = 0"
    and "\<And>q. q < NPROC \<Longrightarrow> q \<noteq> p \<Longrightarrow> locked (locks s (ProcLock q)) = 0"
    and "user_ok (ram s) (p_pagetable (procs s p))"
    and "pipe_bytes (pipes s pi) \<noteq> [] \<or> \<not> pi_writeopen (pipes s pi)"
    and "\<And>d m x. pipe_delivered s pi (p_pagetable (procs s p)) addr (nat n) d (s\<lparr>ram := m, pipes := x\<rparr>) \<Longrightarrow>
      Q (int d) (s\<lparr>ram := m, pipes := x, procs := wake (Some (ChPipeWrite pi)) (Some p) NPROC (procs s)\<rparr>)"
  shows "ends E s (piperead pi addr n) Q"
  unfolding piperead_def using assms
  by (intro kends ends_if ends_piperead_wait ends_piperead_loop; clarsimp simp: lk_fields cpu_ok_acquired pipe_bytes_Nil)+


section \<open>Writing\<close>

lemma pipewrite_step_eq:
  assumes "pi_readopen (pipes s pi)" "\<not> p_killed (procs s pr)" "length (pipe_bytes (pipes s pi)) < 512"
  shows "returns E s (pipewrite_step pi pr addr i) Q \<longleftrightarrow>
    (case umem (ram s) (p_pagetable (procs s pr)) (addr + of_int i) of
       None \<Rightarrow> Q (Inl (Some i)) s
     | Some c \<Rightarrow> Q (Inr (i + 1)) (s\<lparr>pipes := (pipes s)(pi := pipe_put c (pipes s pi))\<rparr>))"
  using assms
  by (cases "umem (ram s) (p_pagetable (procs s pr)) (addr + of_int i)")
    (auto simp: pipewrite_step_def kwp pipe_full Let_def mapped_len_Suc ubytes_def)

lemma pipewrite_loop_spec:
  assumes "pi_readopen (pipes s pi)" "\<not> p_killed (procs s pr)"
    and "length (pipe_bytes (pipes s pi)) + k \<le> 512"
  shows "returns E s (pipewrite_loop pi pr addr (i + int k) i) (\<lambda>r t.
    let pt = p_pagetable (procs s pr); d = mapped_len (ram s) pt (addr + of_int i) k in
    r = Some (i + int d) \<and> (\<exists>x. t = s\<lparr>pipes := (pipes s)(pi := x)\<rparr>
      \<and> pipe_bytes x = pipe_bytes (pipes s pi) @ ubytes (ram s) pt (addr + of_int i) d
      \<and> pi_readopen x = pi_readopen (pipes s pi) \<and> pi_writeopen x = pi_writeopen (pipes s pi)))"
  using assms
proof (induction k arbitrary: i s)
  case 0
  show ?case by (subst pipewrite_loop.simps [abs_def]) (auto simp: kwp Let_def intro!: exI [of _ "pipes s pi"])
next
  case (Suc k)
  let ?x = "pipes s pi" and ?pt = "p_pagetable (procs s pr)" and ?a = "addr + of_int i"
  have len: "length (pipe_bytes ?x) < 512" using Suc.prems(3) by simp
  have "returns E s (pipewrite_loop pi pr addr (i + int (Suc k)) i) Q \<longleftrightarrow>
    (case umem (ram s) ?pt ?a of
       None \<Rightarrow> Q (Some i) s
     | Some c \<Rightarrow> returns E (s\<lparr>pipes := (pipes s)(pi := pipe_put c ?x)\<rparr>)
                   (pipewrite_loop pi pr addr (i + 1 + int k) (i + 1)) Q)" for Q
    by (subst pipewrite_loop.simps [abs_def])
      (simp add: kwp pipewrite_step_eq [OF Suc.prems(1,2) len] algebra_simps split: option.split)
  note step = this
  show ?case
  proof (cases "umem (ram s) ?pt ?a")
    case None
    then show ?thesis unfolding step by (auto simp: mapped_len_Suc intro!: exI [of _ ?x])
  next
    case (Some c)
    define s1 where "s1 = s\<lparr>pipes := (pipes s)(pi := pipe_put c ?x)\<rparr>"
    have "returns E s1 (pipewrite_loop pi pr addr (i + 1 + int k) (i + 1)) (\<lambda>r t.
      let pt = p_pagetable (procs s1 pr); d = mapped_len (ram s1) pt (addr + of_int (i + 1)) k in
      r = Some (i + 1 + int d) \<and> (\<exists>x. t = s1\<lparr>pipes := (pipes s1)(pi := x)\<rparr>
        \<and> pipe_bytes x = pipe_bytes (pipes s1 pi) @ ubytes (ram s1) pt (addr + of_int (i + 1)) d
        \<and> pi_readopen x = pi_readopen (pipes s1 pi) \<and> pi_writeopen x = pi_writeopen (pipes s1 pi)))"
      using Suc.prems by (intro Suc.IH) (simp_all add: s1_def pipe_bytes_put len)
    then show ?thesis unfolding step Some option.case s1_def [symmetric]
      by (rule returns_mono)
        (auto simp: s1_def Let_def mapped_len_Suc Some pipe_bytes_put len ubytes_Suc algebra_simps)
  qed
qed

lemma ends_pipewrite_loop:
  assumes ok: "pi_readopen (pipes s pi)" "\<not> p_killed (procs s pr)"
      "length (pipe_bytes (pipes s pi)) + k \<le> 512"
    and d: "d = mapped_len (ram s) (p_pagetable (procs s pr)) addr k"
    and Q: "\<And>x. pipe_bytes x = pipe_bytes (pipes s pi) @ ubytes (ram s) (p_pagetable (procs s pr)) addr d \<Longrightarrow>
        pi_readopen x \<Longrightarrow> pi_writeopen x = pi_writeopen (pipes s pi) \<Longrightarrow>
        Q (Some (int d)) (s\<lparr>pipes := (pipes s)(pi := x)\<rparr>)"
  shows "ends E s (pipewrite_loop pi pr addr (int k) 0) Q"
  unfolding ends_def
proof (intro allI impI)
  fix t
  assume t: "lk_eq s t"
  then have "returns E t (pipewrite_loop pi pr addr (0 + int k) 0) (\<lambda>r u.
    let pt = p_pagetable (procs t pr); d = mapped_len (ram t) pt (addr + of_int 0) k in
    r = Some (0 + int d) \<and> (\<exists>x. u = t\<lparr>pipes := (pipes t)(pi := x)\<rparr>
      \<and> pipe_bytes x = pipe_bytes (pipes t pi) @ ubytes (ram t) pt (addr + of_int 0) d
      \<and> pi_readopen x = pi_readopen (pipes t pi) \<and> pi_writeopen x = pi_writeopen (pipes t pi)))"
    using ok by (intro pipewrite_loop_spec) (simp_all add: lk_fields)
  then show "returns E t (pipewrite_loop pi pr addr (int k) 0) (\<lambda>a u. \<exists>s'. lk_eq s' u \<and> Q a s')"
  proof (simp, elim returns_mono)
    fix r u
    assume "let pt = p_pagetable (procs t pr); d = mapped_len (ram t) pt addr k in
      r = Some (int d) \<and> (\<exists>x. u = t\<lparr>pipes := (pipes t)(pi := x)\<rparr>
      \<and> pipe_bytes x = pipe_bytes (pipes t pi) @ ubytes (ram t) pt addr d
      \<and> pi_readopen x = pi_readopen (pipes t pi) \<and> pi_writeopen x = pi_writeopen (pipes t pi))"
    then obtain x where x: "u = t\<lparr>pipes := (pipes s)(pi := x)\<rparr>" "r = Some (int d)"
      "pipe_bytes x = pipe_bytes (pipes s pi) @ ubytes (ram s) (p_pagetable (procs s pr)) addr d"
      "pi_readopen x" "pi_writeopen x = pi_writeopen (pipes s pi)"
      using t ok(1) by (auto simp: d Let_def lk_fields)
    then show "\<exists>s'. lk_eq s' u \<and> Q r s'"
      using Q [OF x(3-5)] t by (intro exI [of _ "s\<lparr>pipes := (pipes s)(pi := x)\<rparr>"]) (simp add: lk_fields)
  qed
qed

lemma ends_pipewrite:
  assumes "uncontended E" "cpu_ok s" "cproc (cpus s (tp s)) = Some p"
    and "locked (locks s (PipeLock pi)) = 0"
    and "\<And>q. q < NPROC \<Longrightarrow> q \<noteq> p \<Longrightarrow> locked (locks s (ProcLock q)) = 0"
    and "pi_readopen (pipes s pi)" "\<not> p_killed (procs s p)"
    and "length (pipe_bytes (pipes s pi)) + k \<le> 512"
    and d: "d = mapped_len (ram s) (p_pagetable (procs s p)) addr k"
    and "\<And>x. pipe_bytes x = pipe_bytes (pipes s pi) @ ubytes (ram s) (p_pagetable (procs s p)) addr d \<Longrightarrow>
        pi_readopen x \<Longrightarrow> pi_writeopen x = pi_writeopen (pipes s pi) \<Longrightarrow>
        Q (int d) (s\<lparr>pipes := (pipes s)(pi := x), procs := wake (Some (ChPipeRead pi)) (Some p) NPROC (procs s)\<rparr>)"
  shows "ends E s (pipewrite pi addr (int k)) Q"
  unfolding pipewrite_def using assms
  by (intro kends ends_pipewrite_loop [where d = d]; clarsimp simp: lk_fields cpu_ok_acquired)+

section \<open>Writing to a full pipe\<close>

text \<open>Process \<open>p\<close> runs outside any \<^verbatim>\<open>push_off\<close> and no lock is taken.\<close>

definition at_rest :: "nat \<Rightarrow> 'z proc_state_scheme \<Rightarrow> bool" where
  "at_rest p s \<longleftrightarrow> noff (cpus s (tp s)) = 0 \<and> cproc (cpus s (tp s)) = Some p \<and> (\<forall>l. locked (locks s l) = 0)"

text \<open>
  The readers of a pipe, as a writer meets them. The state carries the list of the bytes they have taken. While the writer
  \<open>p\<close> sleeps because the pipe is full, they take at least one byte off the front of the queue and wake the writer up;
  neither the writer's memory nor anything else it depends on changes.
\<close>

definition reader :: "(lockid, uint8 list file_state_scheme) env \<Rightarrow> nat \<Rightarrow> uint64 \<Rightarrow> bool" where
  "reader E p pi \<longleftrightarrow> uncontended E \<and>
     (\<forall>s. at_rest p s \<and> pi_readopen (pipes s pi) \<and> \<not> p_killed (procs s p) \<and> length (pipe_bytes (pipes s pi)) = 512 \<longrightarrow>
       (\<exists>r out. resumes E p (asleep p (ChPipeWrite pi) s) r \<and> at_rest p r \<and> out \<noteq> []
         \<and> pipe_bytes (pipes s pi) = out @ pipe_bytes (pipes r pi) \<and> file_state.more r = file_state.more s @ out
         \<and> pi_readopen (pipes r pi) \<and> \<not> p_killed (procs r p) \<and> p_pagetable (procs r p) = p_pagetable (procs s p)
         \<and> umem (ram r) (p_pagetable (procs s p)) = umem (ram s) (p_pagetable (procs s p))))"

text \<open>All bytes that have gone into the pipe so far: those taken and those still there.\<close>

definition stream :: "uint64 \<Rightarrow> uint8 list file_state_scheme \<Rightarrow> uint8 list" where
  "stream pi s = file_state.more s @ pipe_bytes (pipes s pi)"

definition writer_ok :: "nat \<Rightarrow> uint64 \<Rightarrow> uint64 \<Rightarrow> 'z file_state_scheme \<Rightarrow> bool" where
  "writer_ok p pi pt s \<longleftrightarrow> at_rest p s \<and> pi_readopen (pipes s pi) \<and> \<not> p_killed (procs s p)
     \<and> p_pagetable (procs s p) = pt \<and> length (pipe_bytes (pipes s pi)) \<le> 512"

lemma more_acquired [simp]: "file_state.more (acquired l s) = file_state.more s"
  by (simp add: lockfx intr_enabled_def)

lemma lk_eq_more [lk_fields]: "lk_eq s t \<Longrightarrow> file_state.more t = file_state.more s"
  by (cases s; cases t; simp add: lk_eq_def)

lemma file_awake [simp]:
  "pipes (awake p s) = pipes s" "ram (awake p s) = ram s" "file_state.more (awake p s) = file_state.more s"
  "p_killed (procs (awake p s) q) = p_killed (procs s q)" "p_pagetable (procs (awake p s) q) = p_pagetable (procs s q)"
  by (simp_all add: awake_def)

lemma at_rest_awake [simp]: "at_rest p (awake p s) = at_rest p s"
  by (simp add: at_rest_def)

lemma wake_me [simp]: "wake ch (Some p) n ps p = ps p"
  by (simp add: wake_def)

lemma ends_loop_turn:
  assumes "i < n" "ends E s (bnd (pipewrite_step pi pr addr i) (\<lambda>r. case r of Inl res \<Rightarrow> ret res
      | Inr j \<Rightarrow> pipewrite_loop pi pr addr n j)) Q"
  shows "ends E s (pipewrite_loop pi pr addr n i) Q"
  using assms by (subst pipewrite_loop.simps [abs_def]) simp

lemma ends_loop_done: "\<not> i < n \<Longrightarrow> Q (Some i) s \<Longrightarrow> ends E s (pipewrite_loop pi pr addr n i) Q"
  by (subst pipewrite_loop.simps [abs_def]) (simp add: ends_ret)

lemma ends_step_put:
  assumes "pi_readopen (pipes s pi)" "\<not> p_killed (procs s pr)" "length (pipe_bytes (pipes s pi)) < 512"
    and "umem (ram s) (p_pagetable (procs s pr)) (addr + of_int i) = None \<Longrightarrow> Q (Inl (Some i)) s"
    and "\<And>c. umem (ram s) (p_pagetable (procs s pr)) (addr + of_int i) = Some c \<Longrightarrow>
      Q (Inr (i + 1)) (s\<lparr>pipes := (pipes s)(pi := pipe_put c (pipes s pi))\<rparr>)"
  shows "ends E s (pipewrite_step pi pr addr i) Q"
  unfolding ends_def
proof (intro allI impI)
  fix t
  assume t: "lk_eq s t"
  then have eq: "returns E t (pipewrite_step pi pr addr i) R \<longleftrightarrow>
    (case umem (ram s) (p_pagetable (procs s pr)) (addr + of_int i) of
       None \<Rightarrow> R (Inl (Some i)) t
     | Some c \<Rightarrow> R (Inr (i + 1)) (t\<lparr>pipes := (pipes s)(pi := pipe_put c (pipes s pi))\<rparr>))" for R
    using assms(1-3) by (subst pipewrite_step_eq) (simp_all add: lk_fields split: option.split)
  show "returns E t (pipewrite_step pi pr addr i) (\<lambda>a u. \<exists>s'. lk_eq s' u \<and> Q a s')"
    unfolding eq using t assms(4,5) lk_eq_file_update(2) [OF t] by (auto split: option.splits)
qed

text \<open>The pipe is full: the writer wakes the readers and sleeps, and finds room when it is resumed.\<close>

lemma ends_step_full:
  assumes E: "reader E p pi" and s: "writer_ok p pi pt s" "length (pipe_bytes (pipes s pi)) = 512"
    and Q: "\<And>r. writer_ok p pi pt r \<Longrightarrow> length (pipe_bytes (pipes r pi)) < 512 \<Longrightarrow> stream pi r = stream pi s \<Longrightarrow>
      umem (ram r) pt = umem (ram s) pt \<Longrightarrow> Q (Inr i) (acquired (PipeLock pi) r)"
  shows "ends E (acquired (PipeLock pi) s) (pipewrite_step pi p addr i) Q"
proof -
  let ?l = "PipeLock pi"
  define s1 where "s1 = s\<lparr>procs := wake (Some (ChPipeRead pi)) (Some p) NPROC (procs s)\<rparr>"
  have s1: "at_rest p s1" "pi_readopen (pipes s1 pi)" "\<not> p_killed (procs s1 p)" "length (pipe_bytes (pipes s1 pi)) = 512"
    "p_pagetable (procs s1 p) = pt"
    using s by (simp_all add: s1_def writer_ok_def at_rest_def)
  obtain r out where r: "resumes E p (asleep p (ChPipeWrite pi) s1) r" "at_rest p r" "out \<noteq> []"
    "pipe_bytes (pipes s1 pi) = out @ pipe_bytes (pipes r pi)" "file_state.more r = file_state.more s1 @ out"
    "pi_readopen (pipes r pi)" "\<not> p_killed (procs r p)" "p_pagetable (procs r p) = pt"
    "umem (ram r) pt = umem (ram s1) pt"
    using E s1 unfolding reader_def by blast
  have un: "uncontended E" using E by (simp add: reader_def)
  have "length (pipe_bytes (pipes r pi)) < 512" using r(3,4) s1(4) by (cases out) auto
  then have ok: "writer_ok p pi pt (awake p r)" "length (pipe_bytes (pipes (awake p r) pi)) < 512"
    using r by (simp_all add: writer_ok_def)
  moreover have "stream pi (awake p r) = stream pi s" using r(4,5) by (simp add: stream_def s1_def)
  ultimately have q: "Q (Inr i) (acquired ?l (awake p r))" using r(9) by (intro Q) (simp_all add: s1_def)
  have sl: "ends E (acquired ?l s1) (sleep (ChPipeWrite pi) ?l) R" if "R () (acquired ?l (awake p r))" for R
    using that un s1 r uncontended_waiting [OF un]
    by (intro ends_sleep [where x = s1 and r = r and y = "awake p r" and p = p])
      (simp_all add: at_rest_def cpu_room_0 held_def)
  have wk: "ends E (acquired ?l s) (wakeup (Some (ChPipeRead pi))) R" if "R () (acquired ?l s1)" for R
    using that un s(1) by (intro ends_wakeup) (simp_all add: writer_ok_def at_rest_def cpu_ok_acquired cpu_room_0 s1_def)
  have "ends E (acquired ?l s) (thn (wakeup (Some (ChPipeRead pi))) (thn (sleep (ChPipeWrite pi) ?l) (ret (Inr i)))) Q"
    using q by (intro ends_thn wk sl ends_ret)
  moreover have "pipewrite_step pi p addr i E t
      = thn (wakeup (Some (ChPipeRead pi))) (thn (sleep (ChPipeWrite pi) ?l) (ret (Inr i))) E t"
    if "lk_eq (acquired ?l s) t" for t
    using that s by (simp add: pipewrite_step_def kdefs lk_fields writer_ok_def pipe_full)
  ultimately show ?thesis by (simp add: ends_def returns_def)
qed

lemma ends_pipewrite_all:
  assumes E: "reader E p pi" and s: "writer_ok p pi pt s"
    and d: "d = mapped_len (ram s) pt (addr + of_int i) k"
    and Q: "\<And>t. writer_ok p pi pt t \<Longrightarrow> stream pi t = stream pi s @ ubytes (ram s) pt (addr + of_int i) d \<Longrightarrow>
      Q (Some (i + int d)) (acquired (PipeLock pi) t)"
  shows "ends E (acquired (PipeLock pi) s) (pipewrite_loop pi p addr (i + int k) i) Q"
  using s d Q
proof (induction k arbitrary: i s d)
  case 0
  then show ?case by (intro ends_loop_done) (simp_all add: ubytes_def)
next
  case (Suc k)
  let ?l = "PipeLock pi" let ?a = "addr + of_int i"
  let ?turn = "bnd (pipewrite_step pi p addr i) (\<lambda>r. case r of Inl res \<Rightarrow> ret res
      | Inr j \<Rightarrow> pipewrite_loop pi p addr (i + int (Suc k)) j)"
  have room: "ends E (acquired ?l r) (pipewrite_loop pi p addr (i + int (Suc k)) i) Q"
    if r: "writer_ok p pi pt r" "length (pipe_bytes (pipes r pi)) < 512" "stream pi r = stream pi s"
      "umem (ram r) pt = umem (ram s) pt" for r
  proof (rule ends_loop_turn, simp, rule ends_bnd, rule ends_step_put)
    assume "umem (ram (acquired ?l r)) (p_pagetable (procs (acquired ?l r) p)) ?a = None"
    then have "d = 0" using r Suc.prems(2) by (simp add: writer_ok_def mapped_len_Suc)
    then show "ends E (acquired ?l r) (case Inl (Some i) of Inl res \<Rightarrow> ret res
        | Inr j \<Rightarrow> pipewrite_loop pi p addr (i + int (Suc k)) j) Q"
      using Suc.prems(3) [OF r(1)] r(3) by (simp add: ends_ret ubytes_def)
  next
    fix c
    assume c: "umem (ram (acquired ?l r)) (p_pagetable (procs (acquired ?l r) p)) ?a = Some c"
    define s1 where "s1 = r\<lparr>pipes := (pipes r)(pi := pipe_put c (pipes r pi))\<rparr>"
    have cong: "mapped_len (ram r) pt x n = mapped_len (ram s) pt x n" "ubytes (ram r) pt x n = ubytes (ram s) pt x n" for x n
      using r(4) by (simp_all add: mapped_len_def ubytes_def)
    have d: "d = Suc (mapped_len (ram s1) pt (addr + of_int (i + 1)) k)"
      using c r Suc.prems(2) by (simp add: writer_ok_def mapped_len_Suc s1_def cong add.assoc)
    have ok: "writer_ok p pi pt s1"
      using r by (simp add: writer_ok_def at_rest_def s1_def pipe_bytes_put)
    have st: "stream pi s1 = stream pi s @ [c]" using r by (simp add: stream_def s1_def pipe_bytes_put)
    have "ends E (acquired ?l s1) (pipewrite_loop pi p addr (i + 1 + int k) (i + 1)) Q"
    proof (rule Suc.IH [OF ok refl])
      fix t
      assume t: "writer_ok p pi pt t" "stream pi t = stream pi s1
        @ ubytes (ram s1) pt (addr + of_int (i + 1)) (mapped_len (ram s1) pt (addr + of_int (i + 1)) k)"
      have "the (umem (ram s) pt ?a) = c" using c r by (simp add: writer_ok_def)
      then have "stream pi t = stream pi s @ ubytes (ram s) pt ?a d"
        using t(2) st by (simp add: d ubytes_Suc s1_def cong add.assoc)
      from Suc.prems(3) [OF t(1) this]
      show "Q (Some (i + 1 + int (mapped_len (ram s1) pt (addr + of_int (i + 1)) k))) (acquired ?l t)"
        by (simp add: d algebra_simps)
    qed
    then show "ends E ((acquired ?l r)\<lparr>pipes := (pipes (acquired ?l r))(pi := pipe_put c (pipes (acquired ?l r) pi))\<rparr>)
        (case Inr (i + 1) of Inl res \<Rightarrow> ret res | Inr j \<Rightarrow> pipewrite_loop pi p addr (i + int (Suc k)) j) Q"
      by (simp add: s1_def algebra_simps)
  qed (use r in \<open>simp_all add: writer_ok_def\<close>)
  show ?case
  proof (cases "length (pipe_bytes (pipes s pi)) = 512")
    case True
    show ?thesis
    proof (rule ends_loop_turn, simp, rule ends_bnd, rule ends_step_full [OF E Suc.prems(1) True])
      fix r
      assume "writer_ok p pi pt r" "length (pipe_bytes (pipes r pi)) < 512" "stream pi r = stream pi s"
        "umem (ram r) pt = umem (ram s) pt"
      from room [OF this] show "ends E (acquired ?l r) (case Inr i of Inl res \<Rightarrow> ret res
        | Inr j \<Rightarrow> pipewrite_loop pi p addr (i + int (Suc k)) j) Q" by simp
    qed
  next
    case False
    then show ?thesis using Suc.prems(1) by (intro room) (simp_all add: writer_ok_def)
  qed
qed

lemma ends_pipewrite_stream:
  assumes E: "reader E p pi" and s: "writer_ok p pi pt s" and d: "d = mapped_len (ram s) pt addr k"
    and Q: "\<And>t. writer_ok p pi pt t \<Longrightarrow> stream pi t = stream pi s @ ubytes (ram s) pt addr d \<Longrightarrow>
      Q (int d) (t\<lparr>procs := wake (Some (ChPipeRead pi)) (Some p) NPROC (procs t)\<rparr>)"
  shows "ends E s (pipewrite pi addr (int k)) Q"
proof -
  let ?l = "PipeLock pi"
  have un: "uncontended E" using E by (simp add: reader_def)
  have fin: "ends E (acquired ?l t) (thn (wakeup (Some (ChPipeRead pi))) (thn (release ?l) (ret (int d)))) Q"
    if t: "writer_ok p pi pt t" "stream pi t = stream pi s @ ubytes (ram s) pt addr d" for t
    using un t(1) Q [OF t]
    by (intro ends_thn ends_wakeup; simp add: writer_ok_def at_rest_def cpu_ok_acquired cpu_room_0)
      (intro ends_release_same ends_ret; simp add: cpu_room_0)
  have loop: "ends E (acquired ?l s) (pipewrite_loop pi p addr (int k) 0) R"
    if "\<And>t. writer_ok p pi pt t \<Longrightarrow> stream pi t = stream pi s @ ubytes (ram s) pt addr d \<Longrightarrow>
      R (Some (int d)) (acquired ?l t)" for R
    using ends_pipewrite_all [OF E s, of d addr 0 k R] that d by simp
  have "ends E s (bnd curproc (\<lambda>pr. thn (acquire ?l) (bnd (pipewrite_loop pi pr addr (int k) 0) (\<lambda>r. case r of
      None \<Rightarrow> ret (- 1) | Some i \<Rightarrow> thn (wakeup (Some (ChPipeRead pi))) (thn (release ?l) (ret i)))))) Q"
    using s un by (intro ends_bnd ends_curproc ends_thn ends_acquire; simp add: writer_ok_def at_rest_def cpu_room_0)
      (intro ends_bnd loop; simp add: fin)
  then show ?thesis by (simp add: pipewrite_def)
qed

text \<open>Nobody will read: the call fails.\<close>

lemma ends_pipewrite_closed:
  assumes "uncontended E" "cpu_ok s" "cproc (cpus s (tp s)) = Some p"
    and "locked (locks s (PipeLock pi)) = 0" "0 < n"
    and "\<not> pi_readopen (pipes s pi) \<or> p_killed (procs s p)" "Q (- 1) s"
  shows "ends E s (pipewrite pi addr n) Q"
proof -
  have "returns E t (pipewrite_loop pi p addr n 0) R = returns E t (thn (release (PipeLock pi)) (ret None)) R"
    if "lk_eq (acquired (PipeLock pi) s) t" for t R
    using assms(5,6) that
    by (subst pipewrite_loop.simps [abs_def]) (auto simp: pipewrite_step_def kwp lk_fields)
  then have loop: "ends E (acquired (PipeLock pi) s) (pipewrite_loop pi p addr n 0) R"
    if "ends E (acquired (PipeLock pi) s) (thn (release (PipeLock pi)) (ret None)) R" for R
    using that by (simp add: ends_def)
  show ?thesis
    unfolding pipewrite_def using assms
    by (intro kends loop; clarsimp simp: lk_fields cpu_ok_acquired)+
qed

section \<open>Properties\<close>

text \<open>C22. \<^verbatim>\<open>piperead\<close> on a pipe with data, or without data and with the write end closed (then it
  is at the end of the file), delivers the oldest bytes of the pipe in the order in which they
  were written: as many as asked for, as there are and as fit into the reader's mapped memory,
  and that number is returned. They leave the pipe (one more does if the destination is not
  mapped), other pipes and the rest of the user's memory are unchanged, and the writers that
  wait for room are woken up.\<close>

theorem piperead_delivers:
  assumes "alone E s p" "p_pagetable (procs s p) = pt" "user_ok (ram s) pt"
    and "pipe_bytes (pipes s pi) \<noteq> [] \<or> \<not> pi_writeopen (pipes s pi)"
  shows "returns E s (piperead pi addr n) (\<lambda>r t.
    let q = pipe_bytes (pipes s pi); k = min (nat n) (length q); d = mapped_len (ram s) pt addr k in
    r = int d \<and> pipe_bytes (pipes t pi) = drop (if d < k then Suc d else d) q
    \<and> umem (ram t) pt = (\<lambda>x. if unat (x - addr) < d then Some (q ! unat (x - addr)) else umem (ram s) pt x)
    \<and> procs t = wake (Some (ChPipeWrite pi)) (Some p) NPROC (procs s)
    \<and> (\<forall>j. j \<noteq> pi \<longrightarrow> pipes t j = pipes s j) \<and> lk_same s t)"
proof -
  let ?procs = "wake (Some (ChPipeWrite pi)) (Some p) NPROC (procs s)"
  have "ends E s (piperead pi addr n) (\<lambda>r t. \<exists>d m x. r = int d \<and> t = s\<lparr>ram := m, pipes := x, procs := ?procs\<rparr>
      \<and> pipe_delivered s pi pt addr (nat n) d (s\<lparr>ram := m, pipes := x\<rparr>))"
    using assms by (intro ends_piperead [where p = p]) (auto simp: alone_def)
  then show ?thesis
  proof (rule returns_mono [OF ends_returns], elim exE conjE)
    fix r u s' d m x
    assume "lk_eq s' u" "s' = s\<lparr>ram := m, pipes := x, procs := ?procs\<rparr>"
    then have "ram u = m" "pipes u = x" "procs u = ?procs" "lk_same s u"
      by (simp_all add: lk_fields) (simp add: lk_eq_def lk_same_def)
    moreover assume "r = int d" "pipe_delivered s pi pt addr (nat n) d (s\<lparr>ram := m, pipes := x\<rparr>)"
    ultimately show "let q = pipe_bytes (pipes s pi); k = min (nat n) (length q); d = mapped_len (ram s) pt addr k in
      r = int d \<and> pipe_bytes (pipes u pi) = drop (if d < k then Suc d else d) q
      \<and> umem (ram u) pt = (\<lambda>x. if unat (x - addr) < d then Some (q ! unat (x - addr)) else umem (ram s) pt x)
      \<and> procs u = ?procs \<and> (\<forall>j. j \<noteq> pi \<longrightarrow> pipes u j = pipes s j) \<and> lk_same s u"
      by (simp add: pipe_delivered_def Let_def user_written_def)
  qed
qed

text \<open>If there is room for everything, the writer does not wait.\<close>

lemma pipewrite_fits:
  assumes "alone E s p" "p_pagetable (procs s p) = pt" "pi_readopen (pipes s pi)" "\<not> p_killed (procs s p)"
    and "length (pipe_bytes (pipes s pi)) + k \<le> 512"
  shows "returns E s (pipewrite pi addr (int k)) (\<lambda>r t.
    let d = mapped_len (ram s) pt addr k in
    r = int d \<and> pipe_bytes (pipes t pi) = pipe_bytes (pipes s pi) @ ubytes (ram s) pt addr d
    \<and> procs t = wake (Some (ChPipeRead pi)) (Some p) NPROC (procs s)
    \<and> (\<forall>j. j \<noteq> pi \<longrightarrow> pipes t j = pipes s j) \<and> ram t = ram s \<and> lk_same s t)"
proof -
  let ?procs = "wake (Some (ChPipeRead pi)) (Some p) NPROC (procs s)"
  let ?d = "mapped_len (ram s) pt addr k"
  have "ends E s (pipewrite pi addr (int k)) (\<lambda>r t. \<exists>x. r = int ?d
      \<and> t = s\<lparr>pipes := (pipes s)(pi := x), procs := ?procs\<rparr>
      \<and> pipe_bytes x = pipe_bytes (pipes s pi) @ ubytes (ram s) pt addr ?d)"
    using assms by (intro ends_pipewrite [where p = p and d = ?d]) (auto simp: alone_def)
  then show ?thesis
  proof (rule returns_mono [OF ends_returns], elim exE conjE)
    fix r u s' x
    assume "lk_eq s' u" "s' = s\<lparr>pipes := (pipes s)(pi := x), procs := ?procs\<rparr>"
    then have "ram u = ram s" "pipes u = (pipes s)(pi := x)" "procs u = ?procs" "lk_same s u"
      by (simp_all add: lk_fields) (simp add: lk_eq_def lk_same_def)
    moreover assume "r = int ?d" "pipe_bytes x = pipe_bytes (pipes s pi) @ ubytes (ram s) pt addr ?d"
    ultimately show "let d = mapped_len (ram s) pt addr k in
      r = int d \<and> pipe_bytes (pipes u pi) = pipe_bytes (pipes s pi) @ ubytes (ram s) pt addr d
      \<and> procs u = ?procs \<and> (\<forall>j. j \<noteq> pi \<longrightarrow> pipes u j = pipes s j) \<and> ram u = ram s \<and> lk_same s u"
      by (simp add: Let_def)
  qed
qed

text \<open>C23. \<^verbatim>\<open>pipewrite\<close> with an open read end puts the user's bytes into the pipe, in order, up to the first address that
  is not mapped, and returns their number, however many they are: when the pipe is full (512 bytes) it wakes the readers up
  and sleeps until they have made room. What the readers have taken by then followed by what is in the pipe is what went
  through before followed by the new bytes: none is lost, doubled or overwritten, and there are never more than 512 in
  the pipe. At the end every reader that waits has been woken up and no lock is held. If there is room for all bytes
  from the start the call does not wait: nothing but this pipe and the woken readers has changed.\<close>

theorem pipewrite_appends:
  fixes s :: "uint8 list file_state_scheme"
  assumes "reader E p pi" "writer_ok p pi pt s" "k < 2 ^ 31"
  shows "returns E s (pipewrite pi addr (int k)) (\<lambda>r t.
    let d = mapped_len (ram s) pt addr k; q = pipe_bytes (pipes s pi); w = ubytes (ram s) pt addr d in
    r = int d \<and> file_state.more t @ pipe_bytes (pipes t pi) = file_state.more s @ q @ w
    \<and> length (pipe_bytes (pipes t pi)) \<le> 512 \<and> (\<forall>l. locked (locks t l) = 0)
    \<and> (\<forall>j<NPROC. j \<noteq> p \<longrightarrow> \<not> (p_state (procs t j) = SLEEPING \<and> p_chan (procs t j) = Some (ChPipeRead pi)))
    \<and> (length q + k \<le> 512 \<longrightarrow> pipe_bytes (pipes t pi) = q @ w
        \<and> procs t = wake (Some (ChPipeRead pi)) (Some p) NPROC (procs s)
        \<and> (\<forall>j. j \<noteq> pi \<longrightarrow> pipes t j = pipes s j) \<and> ram t = ram s \<and> lk_same s t))"
proof -
  let ?d = "mapped_len (ram s) pt addr k" let ?q = "pipe_bytes (pipes s pi)"
  let ?w = "ubytes (ram s) pt addr ?d"
  have "ends E s (pipewrite pi addr (int k)) (\<lambda>r t. r = int ?d \<and> (\<exists>u. writer_ok p pi pt u \<and> stream pi u = stream pi s @ ?w
      \<and> t = u\<lparr>procs := wake (Some (ChPipeRead pi)) (Some p) NPROC (procs u)\<rparr>))"
    using assms(1,2) by (intro ends_pipewrite_stream [OF _ _ refl]) auto
  then have all: "returns E s (pipewrite pi addr (int k)) (\<lambda>r t. r = int ?d
    \<and> file_state.more t @ pipe_bytes (pipes t pi) = file_state.more s @ ?q @ ?w
    \<and> length (pipe_bytes (pipes t pi)) \<le> 512 \<and> (\<forall>l. locked (locks t l) = 0)
    \<and> (\<forall>j<NPROC. j \<noteq> p \<longrightarrow> \<not> (p_state (procs t j) = SLEEPING \<and> p_chan (procs t j) = Some (ChPipeRead pi))))"
    by (rule returns_mono [OF ends_returns])
      (auto simp: lk_fields stream_def writer_ok_def at_rest_def wake_def split: if_splits)
  show ?thesis
  proof (cases "length ?q + k \<le> 512")
    case True
    have "alone E s p" using assms(1,2) by (simp add: alone_def reader_def writer_ok_def at_rest_def cpu_room_0)
    then have "returns E s (pipewrite pi addr (int k)) (\<lambda>r t. let d = ?d in
      r = int d \<and> pipe_bytes (pipes t pi) = ?q @ ubytes (ram s) pt addr d
      \<and> procs t = wake (Some (ChPipeRead pi)) (Some p) NPROC (procs s)
      \<and> (\<forall>j. j \<noteq> pi \<longrightarrow> pipes t j = pipes s j) \<and> ram t = ram s \<and> lk_same s t)"
      using assms(2) True by (intro pipewrite_fits) (simp_all add: writer_ok_def)
    then show ?thesis using all unfolding Let_def by (rule returns_conj) blast
  next
    case False
    then show ?thesis using all unfolding Let_def by (elim returns_mono) blast
  qed
qed

text \<open>C24. Writing to a pipe whose read end is closed, or by a killed process, fails with -1 and
  changes nothing; the pipe's lock is free afterwards.\<close>

theorem pipewrite_broken_pipe:
  assumes "alone E s p" "0 < n" "\<not> pi_readopen (pipes s pi) \<or> p_killed (procs s p)"
  shows "returns E s (pipewrite pi addr n) (\<lambda>r t. r = - 1 \<and> lk_eq s t)"
proof -
  have "ends E s (pipewrite pi addr n) (\<lambda>r t. r = - 1 \<and> t = s)"
    using assms by (intro ends_pipewrite_closed [where p = p]) (auto simp: alone_def)
  then show ?thesis by (rule returns_mono [OF ends_returns]) simp
qed

text \<open>Process 0 has one page of memory; every pipe holds the two bytes 0 and 1.\<close>

definition demo_pipe :: file_state where
  "demo_pipe = demo_file\<lparr>ram := one_page, procs := (procs demo_file)(0 := (procs demo_file 0)\<lparr>p_pagetable := 0x1000\<rparr>)\<rparr>"

lemma demo_pipe_alone: "alone (\<lambda>_ s. Some s) demo_pipe 0"
  by (simp add: alone_def uncontended_def demo_pipe_def two_procs_ok cpu_room_def intr_enabled_def,
      simp add: two_procs_def zero_defs)

lemma demo_pipe_bytes: "pipe_bytes (pipes demo_pipe pi) = [0, 1]"
  by (simp add: demo_pipe_def demo_file_def stats_state.defs file_state.defs pipe_bytes_def
      ring_list_def ring_count_def upt_rec)

lemma demo_pipe_memory:
  "ram demo_pipe = one_page" "p_pagetable (procs demo_pipe 0) = 0x1000" "\<not> p_killed (procs demo_pipe 0)"
  "pi_readopen (pipes demo_pipe pi)"
  by (simp_all add: demo_pipe_def two_procs_def zero_proc_def)
    (simp add: demo_file_def stats_state.defs file_state.defs)

theorem piperead_delivers_witness:
  "returns (\<lambda>_ s. Some s) demo_pipe (piperead 0x80000000 0x10 5) (\<lambda>r t. r = 2 \<and> pipe_bytes (pipes t 0x80000000) = []
     \<and> umem (ram t) 0x1000 0x11 = Some 1)"
proof -
  have "mapped_len one_page 0x1000 0x10 (Suc (Suc 0)) = 2"
    by (simp add: mapped_len_Suc umem_def uaddr_one_page PGROUNDDOWN_def)
  then show ?thesis
    by (intro returns_mono [OF piperead_delivers [OF demo_pipe_alone, where pt = "0x1000"]])
      (simp_all add: demo_pipe_bytes demo_pipe_memory one_page_ok Let_def)
qed

text \<open>A pipe that is full, and a reader that takes everything in it.\<close>

definition full_pipe :: "uint8 list file_state_scheme" where
  "full_pipe = (file_state.extend demo_pipe [])\<lparr>pipes := (\<lambda>_. \<lparr>pi_data = (\<lambda>_. 7), pi_nread = 0, pi_nwrite = 512,
     pi_readopen = True, pi_writeopen = True\<rparr>)\<rparr>"

definition drain :: "uint64 \<Rightarrow> uint8 list file_state_scheme \<Rightarrow> uint8 list file_state_scheme" where
  "drain pi s = (s\<lparr>procs := (procs s)(0 := (procs s 0)\<lparr>p_state := RUNNING\<rparr>),
     pipes := (pipes s)(pi := (pipes s pi)\<lparr>pi_nread := pi_nwrite (pipes s pi)\<rparr>)\<rparr>)
       \<lparr>file_state.more := file_state.more s @ pipe_bytes (pipes s pi)\<rparr>"

definition draining :: "uint64 \<Rightarrow> (lockid, uint8 list file_state_scheme) env" where
  "draining pi = (\<lambda>e s. Some (if e = AtSwtch then drain pi s else s))"

lemma drain_simps [simp]:
  "tp (drain pi s) = tp s" "cpus (drain pi s) = cpus s" "locks (drain pi s) = locks s" "ram (drain pi s) = ram s"
  "pipe_bytes (pipes (drain pi s) pi) = []" "file_state.more (drain pi s) = file_state.more s @ pipe_bytes (pipes s pi)"
  "pi_readopen (pipes (drain pi s) pi) = pi_readopen (pipes s pi)"
  "p_killed (procs (drain pi s) q) = p_killed (procs s q)" "p_pagetable (procs (drain pi s) q) = p_pagetable (procs s q)"
  by (simp_all add: drain_def pipe_bytes_Nil)

lemma drain_resumes:
  assumes "noff (cpus x (tp x)) = 0"
  shows "resumes (draining pi) 0 x (drain pi x)"
proof (rule resumes_map)
  show "draining pi AtSwtch t = Some (drain pi t)" for t by (simp add: draining_def)
  show "lk_eq (drain pi t) (drain pi u)" if "lk_eq t u" for t u
    using that unfolding drain_def by (cases t; cases u; auto simp: lk_eq_def lk_same_def)
  show "drain pi (acquired (ProcLock 0) t) = acquired (ProcLock 0) (drain pi t)" for t
    by (simp add: drain_def) (simp add: lockfx intr_enabled_def)
  show "with_intena b (drain pi t) = drain pi (with_intena b t)" for b t
    by (simp add: drain_def with_intena_def)
qed fact

lemma draining_reader: "reader (draining pi) 0 pi"
  unfolding reader_def
proof (intro conjI allI impI)
  show "uncontended (draining pi)" by (simp add: uncontended_def draining_def)
next
  fix s :: "uint8 list file_state_scheme"
  let ?r = "drain pi (asleep 0 (ChPipeWrite pi) s)" let ?pt = "p_pagetable (procs s 0)"
  assume s: "at_rest 0 s \<and> pi_readopen (pipes s pi) \<and> \<not> p_killed (procs s 0) \<and> length (pipe_bytes (pipes s pi)) = 512"
  then have "resumes (draining pi) 0 (asleep 0 (ChPipeWrite pi) s) ?r"
    by (intro drain_resumes) (simp add: at_rest_def)
  moreover have "at_rest 0 ?r" using s by (simp add: at_rest_def)
  moreover have "pipe_bytes (pipes s pi) \<noteq> []" using s by auto
  ultimately show "\<exists>r out. resumes (draining pi) 0 (asleep 0 (ChPipeWrite pi) s) r \<and> at_rest 0 r \<and> out \<noteq> []
      \<and> pipe_bytes (pipes s pi) = out @ pipe_bytes (pipes r pi) \<and> file_state.more r = file_state.more s @ out
      \<and> pi_readopen (pipes r pi) \<and> \<not> p_killed (procs r 0) \<and> p_pagetable (procs r 0) = ?pt
      \<and> umem (ram r) ?pt = umem (ram s) ?pt"
    using s by (intro exI [of _ ?r] exI [of _ "pipe_bytes (pipes s pi)"]) (simp add: asleep_def)
qed

lemma full_pipe_ok: "writer_ok 0 pi 0x1000 full_pipe" "pipe_bytes (pipes full_pipe pi) = replicate 512 7"
  "ram full_pipe = one_page" "file_state.more full_pipe = []"
proof -
  show q: "pipe_bytes (pipes full_pipe pi) = replicate 512 7"
    by (simp add: full_pipe_def pipe_bytes_def ring_list_def ring_count_def map_replicate_const)
  show "ram full_pipe = one_page" "file_state.more full_pipe = []"
    using demo_pipe_memory by (simp_all add: full_pipe_def file_state.defs)
  have "pi_readopen (pipes full_pipe pi)" by (simp add: full_pipe_def)
  then show "writer_ok 0 pi 0x1000 full_pipe"
    using demo_pipe_memory demo_pipe_alone q
    by (simp add: writer_ok_def at_rest_def alone_def) (simp add: full_pipe_def file_state.defs, simp add: demo_pipe_def two_procs_def zero_defs)
qed

theorem pipewrite_appends_witness:
  "returns (draining 0x80000000) full_pipe (pipewrite 0x80000000 0 2)
     (\<lambda>r t. r = 2 \<and> file_state.more t @ pipe_bytes (pipes t 0x80000000) = replicate 512 7 @ [104, 105])"
proof -
  have "mapped_len one_page 0x1000 0 2 = 2"
    by (simp add: mapped_len_def umem_def uaddr_one_page upt_rec PGROUNDDOWN_def)
  moreover have "ubytes one_page 0x1000 0 2 = [104, 105]"
    by (simp add: ubytes_def umem_def uaddr_one_page PGROUNDDOWN_def upt_rec, simp add: one_page_def)
  ultimately show ?thesis
    using pipewrite_appends [OF draining_reader full_pipe_ok(1), of 2 "0x80000000" 0]
    by (simp add: full_pipe_ok Let_def) (erule returns_mono, simp)
qed

theorem pipewrite_broken_pipe_witness:
  "returns (\<lambda>_ s. Some s) (demo_pipe\<lparr>pipes := (\<lambda>i. (pipes demo_pipe i)\<lparr>pi_readopen := False\<rparr>)\<rparr>)
     (pipewrite 0x80000000 0 2) (\<lambda>r t. r = - 1)"
  by (rule returns_mono [OF pipewrite_broken_pipe [where p = 0]])
    (use demo_pipe_alone in \<open>simp_all add: alone_def\<close>)

end
