(* ===== verification/File_Table.thy ===== *)
theory File_Table
  imports Sysfile Pipe
begin

text \<open>
  Descriptors and the table of open files (\<^verbatim>\<open>kernel/file.c\<close>, \<^verbatim>\<open>kernel/sysfile.c\<close>): searches
  return the first free entry, and the reference count of a file is the number of descriptors
  that name it.
\<close>

section \<open>Descriptors\<close>

definition sysarg :: "'z proc_state_scheme \<Rightarrow> nat \<Rightarrow> nat \<Rightarrow> uint64" where
  "sysarg s p n = load64 (ram s) (p_trapframe (procs s p) + (TF_A0 + 8 * of_nat n))"

lemma ends_argint [kends]:
  "cpu_ok s \<Longrightarrow> cproc (cpus s (tp s)) \<noteq> None \<Longrightarrow> n \<le> 5 \<Longrightarrow>
     Q (ucast (sysarg s (the (cproc (cpus s (tp s)))) n)) s \<Longrightarrow> ends E s (argint n) Q"
  unfolding argint_def argraw_def tf_get_def
  by (intro ends_bnd ends_curproc ends_if ends_gets ends_ret) (simp_all add: sysarg_def lk_eq_kmem lk_eq_proc)

text \<open>The lowest free descriptor of a process.\<close>

definition free_fd :: "proc \<Rightarrow> nat option" where
  "free_fd x = find (\<lambda>fd. p_ofile x fd = None) [0..<NOFILE]"

lemma free_fd_Some: "free_fd x = Some k \<longleftrightarrow> k < NOFILE \<and> p_ofile x k = None \<and> (\<forall>j < k. p_ofile x j \<noteq> None)"
  by (auto simp: free_fd_def find_Some_iff)

lemma free_fd_None: "free_fd x = None \<longleftrightarrow> (\<forall>k < NOFILE. p_ofile x k \<noteq> None)"
  by (auto simp: free_fd_def find_None_iff)

lemma ends_fdalloc:
  assumes "cpu_ok s" "cproc (cpus s (tp s)) = Some p"
    and "case free_fd (procs s p) of
        None \<Rightarrow> Q None s
      | Some fd \<Rightarrow> Q (Some fd) (s\<lparr>procs := (procs s)(p := (procs s p)\<lparr>p_ofile := (p_ofile (procs s p))(fd := Some f)\<rparr>)\<rparr>)"
  shows "ends E s (fdalloc f) Q"
  unfolding fdalloc_def
proof (rule ends_bnd, rule ends_curproc, goal_cases)
  case 3
  show ?case
    by (rule ends_findK_find [where P = "\<lambda>fd. p_ofile (procs s p) fd = None"])
      (use assms in \<open>auto intro!: kends simp: lk_fields free_fd_def\<close>)
qed (use assms in simp_all)

lemma ends_filealloc:
  assumes "uncontended E" "cpu_ok s" "locked (locks s FtableLock) = 0"
    and "case find (\<lambda>f. f_ref (files s f) = 0) [0..<NFILE] of
        None \<Rightarrow> Q None s
      | Some f \<Rightarrow> Q (Some f) (s\<lparr>files := (files s)(f := (files s f)\<lparr>f_ref := 1\<rparr>)\<rparr>)"
  shows "ends E s filealloc Q"
  unfolding filealloc_def
proof (intro ends_thn ends_acquire ends_bnd)
  show "ends E (acquired FtableLock s) (findK [0..<NFILE] (\<lambda>f.
            bnd (gets (\<lambda>s. f_ref (files s f))) (\<lambda>r.
            if r = 0 then thn (upd_file f (\<lambda>x. x\<lparr>f_ref := 1\<rparr>)) (ret (Some f)) else ret None)))
     (\<lambda>a t. ends E t (thn (release FtableLock) (ret a)) Q)"
    by (rule ends_findK_find [where P = "\<lambda>f. f_ref (files s f) = 0"])
      (use assms in \<open>auto intro!: kends simp: lk_fields\<close>)
qed (use assms in simp_all)

lemma ends_filedup [kends]:
  assumes "uncontended E" "cpu_ok s" "locked (locks s FtableLock) = 0" "1 \<le> f_ref (files s f)"
    and "Q f (s\<lparr>files := (files s)(f := (files s f)\<lparr>f_ref := f_ref (files s f) + 1\<rparr>)\<rparr>)"
  shows "ends E s (filedup f) Q"
  unfolding filedup_def using assms by (intro kends; clarsimp simp: lk_fields)+

text \<open>The open file a descriptor number names.\<close>

definition fd_file :: "'z proc_state_scheme \<Rightarrow> nat \<Rightarrow> uint32 \<Rightarrow> nat option" where
  "fd_file s p fd = (if 0 \<le> sint fd \<and> sint fd < int NOFILE then p_ofile (procs s p) (unat fd) else None)"

lemma fd_file_lt:
  assumes "fd_file s p fd = Some f"
  shows "unat fd < NOFILE" and "p_ofile (procs s p) (unat fd) = Some f"
proof -
  have fd: "0 \<le> sint fd" "sint fd < int NOFILE" and f: "p_ofile (procs s p) (unat fd) = Some f"
    using assms by (auto simp: fd_file_def split: if_splits)
  have "uint fd = sint fd" using fd(1) by (intro sint_nonneg32) simp
  then have "int (unat fd) < int NOFILE" using fd(2) by (simp del: of_nat_less_iff)
  then show "unat fd < NOFILE" by linarith
  show "p_ofile (procs s p) (unat fd) = Some f" by (fact f)
qed

lemma ends_argfd:
  assumes "cpu_ok s" "cproc (cpus s (tp s)) = Some p" "n \<le> 5" "fd = ucast (sysarg s p n)"
    and "Q (map_option (\<lambda>f. (unat fd, f)) (fd_file s p fd)) s"
  shows "ends E s (argfd n) Q"
  unfolding argfd_def using assms
  by (intro ends_bnd ends_argint) (auto intro!: kends simp: lk_eq_proc fd_file_def)

lemma ends_sys_dup:
  assumes "uncontended E" "cpu_ok s" "cproc (cpus s (tp s)) = Some p" "locked (locks s FtableLock) = 0"
    and fd: "fd = ucast (sysarg s p 0)"
    and ref: "\<And>f. fd_file s p fd = Some f \<Longrightarrow> 1 \<le> f_ref (files s f)"
    and err: "fd_file s p fd = None \<or> free_fd (procs s p) = None \<Longrightarrow> Q (- 1) s"
    and dup: "\<And>f k. fd_file s p fd = Some f \<Longrightarrow> free_fd (procs s p) = Some k \<Longrightarrow>
      Q (of_nat k) (s\<lparr>procs := (procs s)(p := (procs s p)\<lparr>p_ofile := (p_ofile (procs s p))(k := Some f)\<rparr>),
        files := (files s)(f := (files s f)\<lparr>f_ref := f_ref (files s f) + 1\<rparr>)\<rparr>)"
  shows "ends E s sys_dup Q"
  unfolding sys_dup_def
proof (intro ends_bnd ends_argfd [where p = p and fd = fd])
  show "ends E s (case map_option (\<lambda>f. (unat fd, f)) (fd_file s p fd) of None \<Rightarrow> ret (- 1)
     | Some (_, f) \<Rightarrow> bnd (fdalloc f) (\<lambda>r. case r of None \<Rightarrow> ret (- 1) | Some fd \<Rightarrow> thn (filedup f) (ret (of_nat fd)))) Q"
  proof (cases "fd_file s p fd")
    case None
    then show ?thesis using err by (simp add: ends_ret)
  next
    case (Some f)
    then show ?thesis
      using assms(1-4) ref [OF Some] err dup [OF Some]
      by (auto intro!: ends_bnd ends_fdalloc [where p = p] ends_ret ends_thn ends_filedup split: option.split)
  qed
qed (use assms in simp_all)

text \<open>The descriptors that name an open file; its reference count is their number.\<close>

definition fd_refs :: "'z file_state_scheme \<Rightarrow> nat \<Rightarrow> (nat \<times> nat) set" where
  "fd_refs s f = {(q, fd). q < NPROC \<and> fd < NOFILE \<and> p_ofile (procs s q) fd = Some f}"

definition ref_ok :: "'z file_state_scheme \<Rightarrow> bool" where
  "ref_ok s \<longleftrightarrow> (\<forall>f. f_ref (files s f) = int (card (fd_refs s f)))"

lemma finite_fd_refs [simp]: "finite (fd_refs s f)"
  by (rule finite_subset [of _ "{..<NPROC} \<times> {..<NOFILE}"]) (auto simp: fd_refs_def)

lemma ref_ok_add:
  assumes ok: "ref_ok s" and p: "p < NPROC" "k < NOFILE" "p_ofile (procs s p) k = None"
    and t: "procs t = (procs s)(p := (procs s p)\<lparr>p_ofile := (p_ofile (procs s p))(k := Some f)\<rparr>)"
      "files t = (files s)(f := (files s f)\<lparr>f_ref := f_ref (files s f) + 1\<rparr>)"
  shows "ref_ok t"
  unfolding ref_ok_def
proof
  fix g
  have "fd_refs t g = (if g = f then insert (p, k) (fd_refs s g) else fd_refs s g)"
    using p by (auto simp: fd_refs_def t split: if_splits)
  moreover have "(p, k) \<notin> fd_refs s f" using p by (simp add: fd_refs_def)
  ultimately show "f_ref (files t g) = int (card (fd_refs t g))"
    using ok by (simp add: ref_ok_def t)
qed

lemma ref_ok_pos:
  assumes "ref_ok s" "p < NPROC" "fd_file s p fd = Some f"
  shows "1 \<le> f_ref (files s f)"
proof -
  have fd: "unat fd < NOFILE" "p_ofile (procs s p) (unat fd) = Some f"
    using fd_file_lt [OF assms(3)] by simp_all
  then have "(p, unat fd) \<in> fd_refs s f"
    using assms(2) by (simp add: fd_refs_def)
  then have "fd_refs s f \<noteq> {}" by blast
  then have "0 < card (fd_refs s f)" by (simp add: card_gt_0_iff)
  then show ?thesis using assms(1) by (simp add: ref_ok_def Suc_le_eq)
qed

lemma ref_ok_remove:
  assumes ok: "ref_ok s" and p: "p < NPROC" "k < NOFILE" "p_ofile (procs s p) k = Some f"
    and t: "procs t = (procs s)(p := (procs s p)\<lparr>p_ofile := (p_ofile (procs s p))(k := None)\<rparr>)"
      "files t = (files s)(f := (files s f)\<lparr>f_ref := f_ref (files s f) - 1\<rparr>)"
  shows "ref_ok t"
  unfolding ref_ok_def
proof
  fix g
  have "fd_refs t g = (if g = f then fd_refs s g - {(p, k)} else fd_refs s g)"
    using p by (auto simp: fd_refs_def t split: if_splits)
  moreover have kk: "(p, k) \<in> fd_refs s f" using p by (simp add: fd_refs_def)
  moreover have "0 < card (fd_refs s f)" using kk by (auto simp: card_gt_0_iff)
  ultimately show "f_ref (files t g) = int (card (fd_refs t g))"
    using ok by (simp add: ref_ok_def t of_nat_diff)
qed

lemma ends_fileclose_shared:
  assumes "uncontended E" "cpu_ok s" "locked (locks s FtableLock) = 0" "2 \<le> f_ref (files s f)"
    and "Q () (s\<lparr>files := (files s)(f := (files s f)\<lparr>f_ref := f_ref (files s f) - 1\<rparr>)\<rparr>)"
  shows "ends E s (fileclose f) Q"
  unfolding fileclose_def using assms by (intro kends ends_if; clarsimp simp: lk_fields)+

lemma ends_sys_close_shared:
  assumes "uncontended E" "cpu_ok s" "cproc (cpus s (tp s)) = Some p" "locked (locks s FtableLock) = 0"
    and fd: "fd = ucast (sysarg s p 0)"
    and ref: "\<And>f. fd_file s p fd = Some f \<Longrightarrow> 2 \<le> f_ref (files s f)"
    and err: "fd_file s p fd = None \<Longrightarrow> Q (- 1) s"
    and ok: "\<And>f. fd_file s p fd = Some f \<Longrightarrow>
      Q 0 (s\<lparr>procs := (procs s)(p := (procs s p)\<lparr>p_ofile := (p_ofile (procs s p))(unat fd := None)\<rparr>),
        files := (files s)(f := (files s f)\<lparr>f_ref := f_ref (files s f) - 1\<rparr>)\<rparr>)"
  shows "ends E s sys_close Q"
  unfolding sys_close_def
proof (intro ends_bnd ends_argfd [where p = p and fd = fd])
  show "ends E s (case map_option (\<lambda>f. (unat fd, f)) (fd_file s p fd) of None \<Rightarrow> ret (- 1)
     | Some (fd, f) \<Rightarrow> bnd curproc (\<lambda>p. thn (upd_proc p (\<lambda>y. y\<lparr>p_ofile := (p_ofile y)(fd := None)\<rparr>))
          (thn (fileclose f) (ret 0)))) Q"
  proof (cases "fd_file s p fd")
    case None
    then show ?thesis using err by (simp add: ends_ret)
  next
    case (Some f)
    then show ?thesis
      using assms(1-4) ref [OF Some] ok [OF Some]
      by (auto intro!: ends_bnd ends_curproc ends_upd_proc ends_ret ends_thn ends_fileclose_shared)
  qed
qed (use assms in simp_all)

section \<open>Properties\<close>

lemma ref_ok_lk_eq: "lk_eq s t \<Longrightarrow> ref_ok s \<Longrightarrow> ref_ok t"
  by (simp add: ref_ok_def fd_refs_def lk_fields)

text \<open>C25. A process duplicates a descriptor (\<^verbatim>\<open>sys_dup\<close>, through \<^verbatim>\<open>argfd\<close>, \<^verbatim>\<open>fdalloc\<close> and
  \<^verbatim>\<open>filedup\<close>). If the argument names an open file and a slot is free, the call returns the lowest
  free descriptor \<open>k\<close>, which now names the same file, and no other descriptor changes; otherwise it
  returns -1 and descriptors and file table are untouched. In every case the reference count of every
  open file is still the number of descriptors that name it.\<close>

theorem dup_shares_file:
  assumes "alone E s p" "p < NPROC" "ref_ok s"
  shows "returns E s sys_dup (\<lambda>r t. ref_ok t \<and>
    (case (fd_file s p (ucast (sysarg s p 0)), free_fd (procs s p)) of
       (Some f, Some k) \<Rightarrow> r = of_nat k \<and> k < NOFILE \<and> p_ofile (procs t p) k = Some f
         \<and> p_ofile (procs t p) = (p_ofile (procs s p))(k := Some f) \<and> (\<forall>q. q \<noteq> p \<longrightarrow> procs t q = procs s q)
     | _ \<Rightarrow> r = - 1 \<and> procs t = procs s \<and> files t = files s))"
proof -
  have "ends E s sys_dup (\<lambda>r t. ref_ok t \<and>
    (case (fd_file s p (ucast (sysarg s p 0)), free_fd (procs s p)) of
       (Some f, Some k) \<Rightarrow> r = of_nat k \<and> k < NOFILE
         \<and> procs t = (procs s)(p := (procs s p)\<lparr>p_ofile := (p_ofile (procs s p))(k := Some f)\<rparr>)
     | _ \<Rightarrow> r = - 1 \<and> procs t = procs s \<and> files t = files s))"
    by (rule ends_sys_dup [OF _ _ _ _ refl])
      (use assms ref_ok_pos [OF assms(3,2)] in
        \<open>auto simp: alone_def dest: free_fd_Some [THEN iffD1] split: option.splits intro: ref_ok_add [OF assms(3,2)]\<close>)
  then show ?thesis
    by (rule returns_mono [OF ends_returns])
      (cases "fd_file s p (ucast (sysarg s p 0))"; cases "free_fd (procs s p)";
        auto simp: lk_fields elim: ref_ok_lk_eq)
qed

text \<open>C26. A process closes a descriptor of a file that is open elsewhere too (\<^verbatim>\<open>sys_close\<close>,
  \<^verbatim>\<open>fileclose\<close>). The call returns 0, frees exactly that descriptor, keeps the file (its type, pipe,
  inode and offset are unchanged) with one reference less, and the reference count of every open file
  is still the number of descriptors that name it. A number that names no open file gives -1 and
  changes nothing.\<close>

theorem close_drops_reference:
  assumes "alone E s p" "p < NPROC" "ref_ok s" "fd = ucast (sysarg s p 0)"
    and "\<forall>f. fd_file s p fd = Some f \<longrightarrow> 2 \<le> card (fd_refs s f)"
  shows "returns E s sys_close (\<lambda>r t. ref_ok t \<and>
    (case fd_file s p fd of
       Some f \<Rightarrow> r = 0 \<and> p_ofile (procs t p) = (p_ofile (procs s p))(unat fd := None)
         \<and> (\<forall>q. q \<noteq> p \<longrightarrow> procs t q = procs s q) \<and> (\<forall>g. g \<noteq> f \<longrightarrow> files t g = files s g)
         \<and> files t f = (files s f)\<lparr>f_ref := f_ref (files s f) - 1\<rparr>
     | None \<Rightarrow> r = - 1 \<and> procs t = procs s \<and> files t = files s))"
proof -
  have "ends E s sys_close (\<lambda>r t. ref_ok t \<and>
    (case fd_file s p fd of
       Some f \<Rightarrow> r = 0 \<and> procs t = (procs s)(p := (procs s p)\<lparr>p_ofile := (p_ofile (procs s p))(unat fd := None)\<rparr>)
         \<and> files t = (files s)(f := (files s f)\<lparr>f_ref := f_ref (files s f) - 1\<rparr>)
     | None \<Rightarrow> r = - 1 \<and> procs t = procs s \<and> files t = files s))"
  proof (rule ends_sys_close_shared [OF _ _ _ _ assms(4)])
    fix f
    assume f: "fd_file s p fd = Some f"
    then show "2 \<le> f_ref (files s f)" using assms(3,5) by (auto simp: ref_ok_def)
    let ?t = "s\<lparr>procs := (procs s)(p := (procs s p)\<lparr>p_ofile := (p_ofile (procs s p))(unat fd := None)\<rparr>),
      files := (files s)(f := (files s f)\<lparr>f_ref := f_ref (files s f) - 1\<rparr>)\<rparr>"
    have "ref_ok ?t"
      by (rule ref_ok_remove [OF assms(3,2) fd_file_lt [OF f]]) simp_all
    then show "ref_ok ?t \<and> (case fd_file s p fd of
       Some f \<Rightarrow> (0 :: uint64) = 0 \<and> procs ?t = (procs s)(p := (procs s p)\<lparr>p_ofile := (p_ofile (procs s p))(unat fd := None)\<rparr>)
         \<and> files ?t = (files s)(f := (files s f)\<lparr>f_ref := f_ref (files s f) - 1\<rparr>)
     | None \<Rightarrow> (0 :: uint64) = - 1 \<and> procs ?t = procs s \<and> files ?t = files s)"
      by (simp add: f)
  qed (use assms in \<open>auto simp: alone_def\<close>)
  then show ?thesis
    by (rule returns_mono [OF ends_returns])
      (cases "fd_file s p fd"; auto simp: lk_fields elim: ref_ok_lk_eq)
qed

section \<open>Witnesses\<close>

text \<open>Process 0 has file 3 open as descriptors 0 and 1; its first argument register holds 0.\<close>

definition demo_table :: file_state where
  "demo_table = demo_file\<lparr>procs := (procs demo_file)(0 := (procs demo_file 0)\<lparr>p_ofile := [0 \<mapsto> 3, 1 \<mapsto> 3]\<rparr>),
     files := (files demo_file)(3 := (files demo_file 3)\<lparr>f_type := FD_INODE, f_ref := 2\<rparr>)\<rparr>"

lemma demo_table_alone: "alone (\<lambda>_ s. Some s) demo_table 0"
  by (simp add: alone_def uncontended_def demo_table_def two_procs_ok cpu_room_def intr_enabled_def,
      simp add: two_procs_def zero_defs)

lemma demo_table_procs:
  "p_ofile (procs demo_table q) = (if q = 0 then [0 \<mapsto> 3, 1 \<mapsto> 3] else Map.empty)"
  by (simp add: demo_table_def, simp add: two_procs_def zero_proc_def)

lemma demo_table_refs: "fd_refs demo_table f = (if f = 3 then {(0, 0), (0, 1)} else {})"
  by (auto simp: fd_refs_def demo_table_procs split: if_splits)

lemma demo_table_ref_ok: "ref_ok demo_table"
  by (simp add: ref_ok_def demo_table_refs)
    (simp add: demo_table_def demo_file_def stats_state.defs file_state.defs)

lemma demo_table_arg: "sysarg demo_table 0 0 = 0" "fd_file demo_table 0 0 = Some 3"
  by (simp_all add: sysarg_def fd_file_def demo_table_procs)
    (simp add: demo_table_def, simp add: two_procs_def load64_def eval_nat_numeral)

lemma demo_table_free: "free_fd (procs demo_table 0) = Some 2"
  by (auto simp: free_fd_Some demo_table_procs)

theorem dup_shares_file_witness:
  "returns (\<lambda>_ s. Some s) demo_table sys_dup (\<lambda>r t. r = 2 \<and> p_ofile (procs t 0) 2 = Some 3 \<and> ref_ok t)"
  using dup_shares_file [OF demo_table_alone _ demo_table_ref_ok]
  by (rule returns_mono) (simp_all add: demo_table_arg demo_table_free)

theorem close_drops_reference_witness:
  "returns (\<lambda>_ s. Some s) demo_table sys_close
     (\<lambda>r t. r = 0 \<and> p_ofile (procs t 0) 0 = None \<and> f_ref (files t 3) = 1 \<and> ref_ok t)"
proof -
  have "f_ref (files demo_table 3) = 2" by (simp add: demo_table_def)
  then show ?thesis
    by (intro returns_mono [OF close_drops_reference [OF demo_table_alone _ demo_table_ref_ok refl]])
      (auto simp: demo_table_arg demo_table_refs)
qed

end
