(* ===== verification/Trap.thy ===== *)
theory Trap
  imports Sysfile
begin

text \<open>
  The way into the kernel and out of it: the process system calls of
  \<^verbatim>\<open>kernel/sysproc.c\<close>, the dispatch of \<^verbatim>\<open>kernel/syscall.c\<close>, traps and interrupts of
  \<^verbatim>\<open>kernel/trap.c\<close>, the interrupt controller \<^verbatim>\<open>kernel/plic.c\<close>, and \<^verbatim>\<open>forkret\<close> of
  \<^verbatim>\<open>proc.c\<close>. The jump into \<^verbatim>\<open>userret\<close> (assembly) is the value returned, the two
  arguments it gets.
\<close>

section \<open>Process system calls\<close>

definition sys_exit :: "('z file_state_scheme, uint64) K" where
  "sys_exit = bnd (argint 0) (\<lambda>n. thn (exit n :: ('z file_state_scheme, unit) K) (ret 0))"

definition sys_getpid :: "('z proc_state_scheme, uint64) K" where
  "sys_getpid = bnd curproc (\<lambda>p. gets (\<lambda>s. scast (p_pid (procs s p))))"

definition sys_fork :: "('z file_state_scheme, uint64) K" where
  "sys_fork = bnd fork (\<lambda>pid. ret (scast pid))"

definition sys_wait :: "('z proc_state_scheme, uint64) K" where
  "sys_wait = bnd (argaddr 0) (\<lambda>a. bnd (wait a) (\<lambda>pid. ret (scast pid)))"

definition sys_sbrk :: "('z proc_state_scheme, uint64) K" where
  "sys_sbrk =
     bnd (argint 0) (\<lambda>n.
     bnd curproc (\<lambda>p.
     bnd (gets (\<lambda>s. ucast (p_sz (procs s p)) :: uint32)) (\<lambda>addr.
     bnd (growproc n) (\<lambda>r.
     ret (if r < 0 then - 1 else scast addr)))))"

text \<open>\<^verbatim>\<open>ticks - ticks0 < n\<close> compares unsigned numbers.\<close>

partial_function (option) sys_sleep_loop ::
  "uint32 \<Rightarrow> uint32 \<Rightarrow> (lockid, 'z proc_state_scheme) env \<Rightarrow> 'z proc_state_scheme \<Rightarrow>
     ('z proc_state_scheme, uint64) outcome option" where
  "sys_sleep_loop ticks0 n E s =
     bnd (gets ticks) (\<lambda>t.
     if t - ticks0 < n
     then bnd curproc (\<lambda>p.
          bnd (gets (\<lambda>s. p_killed (procs s p))) (\<lambda>killed.
          if killed then thn (release TicksLock) (ret (- 1))
          else thn (sleep ChTicks TicksLock) (sys_sleep_loop ticks0 n)))
     else thn (release TicksLock) (ret 0)) E s"

definition sys_sleep :: "('z proc_state_scheme, uint64) K" where
  "sys_sleep =
     bnd (argint 0) (\<lambda>n.
     thn (acquire TicksLock) (
     bnd (gets ticks) (\<lambda>ticks0.
     sys_sleep_loop ticks0 n)))"

definition sys_kill :: "('z proc_state_scheme, uint64) K" where
  "sys_kill = bnd (argint 0) (\<lambda>pid. bnd (kill pid) (\<lambda>r. ret (of_int r)))"

definition sys_uptime :: "('z proc_state_scheme, uint64) K" where
  "sys_uptime =
     thn (acquire TicksLock) (
     bnd (gets ticks) (\<lambda>xticks.
     thn (release TicksLock) (
     ret (ucast xticks))))"

section \<open>Dispatch\<close>

definition syscalls :: "('z file_state_scheme, uint64) K option list" where
  "syscalls = [None, Some sys_fork, Some sys_exit, Some sys_wait, Some sys_pipe, Some sys_read,
     Some sys_kill, Some sys_exec, Some sys_fstat, Some sys_chdir, Some sys_dup, Some sys_getpid,
     Some sys_sbrk, Some sys_sleep, Some sys_uptime, Some sys_open, Some sys_write, Some sys_mknod,
     Some sys_unlink, Some sys_link, Some sys_mkdir, Some sys_close]"

definition syscall :: "('z file_state_scheme, unit) K" where
  "syscall =
     bnd curproc (\<lambda>p.
     bnd (tf_get p TF_A7) (\<lambda>a7.
     let num = sint (ucast a7 :: uint32);
         table = (syscalls :: ('z file_state_scheme, uint64) K option list);
         handler = (if num > 0 \<and> num < int (length table) then table ! nat num else None) in
     case handler of
       Some h \<Rightarrow> bnd h (\<lambda>r. tf_set p TF_A0 r)
     | None \<Rightarrow>
         bnd (gets (\<lambda>s. procs s p)) (\<lambda>pr.
         thn (printf (lit (''%d %s: unknown sys call %d'' @ [CHR 0x0A]))
                [AInt (p_pid pr), AStr (Some (cstr (p_name pr) 0 16)), AInt (ucast a7)]) (
         tf_set p TF_A0 (- 1)))))"

section \<open>Interrupts\<close>

record trap_state = file_state +
  plic :: "uint64 \<Rightarrow> uint32"

definition plic_read :: "uint64 \<Rightarrow> ('z trap_state_scheme, uint32) K" where
  [kdefs]: "plic_read a = thn (interfere (AtDev a)) (gets (\<lambda>s. plic s a))"

definition plic_write :: "uint64 \<Rightarrow> uint32 \<Rightarrow> ('z trap_state_scheme, unit) K" where
  [kdefs]: "plic_write a v = modify (\<lambda>s. s\<lparr>plic := (plic s)(a := v)\<rparr>)"

abbreviation (input) UART0_IRQ :: uint32 where "UART0_IRQ \<equiv> 10"
abbreviation (input) VIRTIO0_IRQ :: uint32 where "VIRTIO0_IRQ \<equiv> 1"

definition PLIC_SENABLE :: "nat \<Rightarrow> uint64" where "PLIC_SENABLE hart = PLIC + 0x2080 + of_nat hart * 0x100"
definition PLIC_SPRIORITY :: "nat \<Rightarrow> uint64" where "PLIC_SPRIORITY hart = PLIC + 0x201000 + of_nat hart * 0x2000"
definition PLIC_SCLAIM :: "nat \<Rightarrow> uint64" where "PLIC_SCLAIM hart = PLIC + 0x201004 + of_nat hart * 0x2000"

definition plicinit :: "('z trap_state_scheme, unit) K" where
  "plicinit =
     thn (plic_write (PLIC + ucast UART0_IRQ * 4) 1) (
     plic_write (PLIC + ucast VIRTIO0_IRQ * 4) 1)"

definition plicinithart :: "('z trap_state_scheme, unit) K" where
  "plicinithart =
     bnd cpuid (\<lambda>hart.
     thn (plic_write (PLIC_SENABLE hart) (push_bit 10 1 OR push_bit 1 1)) (
     plic_write (PLIC_SPRIORITY hart) 0))"

definition plic_claim :: "('z trap_state_scheme, uint32) K" where
  "plic_claim = bnd cpuid (\<lambda>hart. plic_read (PLIC_SCLAIM hart))"

definition plic_complete :: "uint32 \<Rightarrow> ('z trap_state_scheme, unit) K" where
  "plic_complete irq = bnd cpuid (\<lambda>hart. plic_write (PLIC_SCLAIM hart) irq)"

definition clockintr :: "('z proc_state_scheme, unit) K" where
  "clockintr =
     thn (acquire TicksLock) (
     thn (modify (\<lambda>s. s\<lparr>ticks := ticks s + 1\<rparr>)) (
     thn (wakeup (Some ChTicks)) (
     release TicksLock)))"

text \<open>2 for a timer interrupt, 1 for another device, 0 if not recognized.\<close>

definition devintr :: "('z trap_state_scheme, nat) K" where
  "devintr =
     bnd r_scause (\<lambda>cause.
     if cause AND 0x8000000000000000 \<noteq> 0 \<and> cause AND 0xff = 9
     then bnd plic_claim (\<lambda>irq.
          thn (if irq = UART0_IRQ then uartintr
               else if irq = VIRTIO0_IRQ then virtio_disk_intr
               else whenK (irq \<noteq> 0) (printf (lit (''unexpected interrupt irq=%d'' @ [CHR 0x0A])) [AInt irq])) (
          thn (whenK (irq \<noteq> 0) (plic_complete irq)) (
          ret 1)))
     else if cause = 0x8000000000000001
     then bnd cpuid (\<lambda>hart.
          thn (whenK (hart = 0) clockintr) (
          bnd r_sip (\<lambda>x.
          thn (w_sip (x AND NOT 2)) (
          ret 2))))
     else ret 0)"

section \<open>Traps\<close>

definition trapinit :: "('z machine_scheme, unit) K" where
  "trapinit = initlock TicksLock ''time''"

definition trapinithart :: "('z proc_state_scheme, unit) K" where
  "trapinithart = bnd (gets (\<lambda>s. sym_kernelvec (syms s))) w_stvec"

definition usertrapret :: "('z proc_state_scheme, uint64 \<times> uint64) K" where
  "usertrapret =
     bnd curproc (\<lambda>p.
     thn intr_off (
     bnd (gets syms) (\<lambda>sy.
     thn (w_stvec (TRAMPOLINE + (sym_uservec sy - sym_trampoline sy))) (
     bnd r_satp (\<lambda>ksatp.
     thn (tf_set p TF_KERNEL_SATP ksatp) (
     bnd (gets (\<lambda>s. p_kstack (procs s p))) (\<lambda>kstack.
     thn (tf_set p TF_KERNEL_SP (kstack + PGSIZE)) (
     thn (tf_set p TF_KERNEL_TRAP (sym_usertrap sy)) (
     bnd r_tp (\<lambda>hart.
     thn (tf_set p TF_KERNEL_HARTID (of_nat hart)) (
     bnd r_sstatus (\<lambda>x.
     thn (w_sstatus ((x AND NOT SSTATUS_SPP) OR SSTATUS_SPIE)) (
     bnd (tf_get p TF_EPC) (\<lambda>epc.
     thn (w_sepc epc) (
     bnd (gets (\<lambda>s. p_pagetable (procs s p))) (\<lambda>pt.
     ret (TRAPFRAME, MAKE_SATP pt)))))))))))))))))"

text \<open>The calls of \<^verbatim>\<open>exit\<close> do not return.\<close>

definition exit_if_killed :: "nat \<Rightarrow> ('z file_state_scheme, unit) K" where
  "exit_if_killed p =
     bnd (gets (\<lambda>s. p_killed (procs s p))) (\<lambda>killed.
     whenK killed (exit (- 1)))"

definition usertrap :: "('z trap_state_scheme, uint64 \<times> uint64) K" where
  "usertrap =
     bnd r_sstatus (\<lambda>x.
     thn (whenK (x AND SSTATUS_SPP \<noteq> 0) (panic ''usertrap: not from user mode'')) (
     bnd (gets (\<lambda>s. sym_kernelvec (syms s))) (\<lambda>kv.
     thn (w_stvec kv) (
     bnd curproc (\<lambda>p.
     bnd r_sepc (\<lambda>epc.
     thn (tf_set p TF_EPC epc) (
     bnd r_scause (\<lambda>cause.
     bnd (if cause = 8
          then thn (exit_if_killed p) (
               bnd (tf_get p TF_EPC) (\<lambda>pc.
               thn (tf_set p TF_EPC (pc + 4)) (
               thn intr_on (
               thn syscall (
               ret 0)))))
          else bnd devintr (\<lambda>dev.
               if dev \<noteq> 0 then ret dev
               else bnd (gets (\<lambda>s. p_pid (procs s p))) (\<lambda>pid.
                    bnd r_sepc (\<lambda>sepc.
                    bnd r_stval (\<lambda>stval.
                    thn (printf (lit (''usertrap(): unexpected scause %p pid=%d'' @ [CHR 0x0A])) [APtr cause, AInt pid]) (
                    thn (printf (lit (''            sepc=%p stval=%p'' @ [CHR 0x0A])) [APtr sepc, APtr stval]) (
                    thn (upd_proc p (\<lambda>pr. pr\<lparr>p_killed := True\<rparr>)) (
                    ret 0)))))))) (\<lambda>which_dev.
     thn (exit_if_killed p) (
     thn (whenK (which_dev = 2) yield) (
     usertrapret)))))))))))"

definition kerneltrap :: "('z trap_state_scheme, unit) K" where
  "kerneltrap =
     bnd r_sepc (\<lambda>sepc0.
     bnd r_sstatus (\<lambda>sstatus0.
     bnd r_scause (\<lambda>cause.
     thn (whenK (sstatus0 AND SSTATUS_SPP = 0) (panic ''kerneltrap: not from supervisor mode'')) (
     bnd intr_get (\<lambda>i.
     thn (whenK i (panic ''kerneltrap: interrupts enabled'')) (
     bnd devintr (\<lambda>which_dev.
     thn (whenK (which_dev = 0)
            (thn (printf (lit (''scause %p'' @ [CHR 0x0A])) [APtr cause]) (
             bnd r_sepc (\<lambda>sepc.
             bnd r_stval (\<lambda>stval.
             thn (printf (lit (''sepc=%p stval=%p'' @ [CHR 0x0A])) [APtr sepc, APtr stval]) (
             panic ''kerneltrap'')))))) (
     bnd (if which_dev = 2
          then bnd myproc (\<lambda>me.
               case me of
                 None \<Rightarrow> ret False
               | Some _ \<Rightarrow> bnd curproc (\<lambda>p. gets (\<lambda>s. p_state (procs s p) = RUNNING)))
          else ret False) (\<lambda>giveup.
     thn (whenK giveup yield) (
     thn (w_sepc sepc0) (
     w_sstatus sstatus0)))))))))))"

text \<open>The first scheduling of a process ends here.\<close>

definition forkret :: "('z fs_state_scheme, uint64 \<times> uint64) K" where
  "forkret =
     bnd curproc (\<lambda>p.
     thn (release (ProcLock p)) (
     bnd (gets forkret_first) (\<lambda>first.
     thn (whenK first
            (thn (modify (\<lambda>s. s\<lparr>forkret_first := False\<rparr>)) (
             fsinit ROOTDEV))) (
     usertrapret))))"

end
