(* ===== verification/Boot.thy ===== *)
theory Boot
  imports Trap
begin

text \<open>
  Booting: \<^verbatim>\<open>kernel/start.c\<close> in machine mode and \<^verbatim>\<open>kernel/main.c\<close>. \<^verbatim>\<open>mret\<close> ends
  \<^verbatim>\<open>start\<close>; addresses the linker fixes are fields of the state.
\<close>

record boot_state = trap_state +
  clint :: "uint64 \<Rightarrow> uint64"
  timer_scratch :: "nat \<Rightarrow> nat \<Rightarrow> uint64"
  timer_scratch_addr :: uint64
  sym_main :: uint64
  sym_timervec :: uint64
  started :: bool

definition CLINT_MTIMECMP :: "nat \<Rightarrow> uint64" where "CLINT_MTIMECMP hart = CLINT + 0x4000 + 8 * of_nat hart"
definition CLINT_MTIME :: uint64 where "CLINT_MTIME = CLINT + 0xBFF8"

abbreviation (input) MSTATUS_MPP_MASK :: uint64 where "MSTATUS_MPP_MASK \<equiv> 0x1800"
abbreviation (input) MSTATUS_MPP_S :: uint64 where "MSTATUS_MPP_S \<equiv> 0x800"
abbreviation (input) MSTATUS_MIE :: uint64 where "MSTATUS_MIE \<equiv> 0x8"
abbreviation (input) SIE_SEIE :: uint64 where "SIE_SEIE \<equiv> 0x200"
abbreviation (input) SIE_STIE :: uint64 where "SIE_STIE \<equiv> 0x20"
abbreviation (input) SIE_SSIE :: uint64 where "SIE_SSIE \<equiv> 0x2"
abbreviation (input) MIE_MTIE :: uint64 where "MIE_MTIE \<equiv> 0x80"

section \<open>Machine mode\<close>

definition w_tp :: "uint64 \<Rightarrow> ('z machine_scheme, unit) K" where
  [kdefs]: "w_tp x = modify (\<lambda>s. s\<lparr>tp := unat x\<rparr>)"

definition set_scratch :: "nat \<Rightarrow> nat \<Rightarrow> uint64 \<Rightarrow> ('z boot_state_scheme, unit) K" where
  [kdefs]: "set_scratch hart i v =
     modify (\<lambda>s. s\<lparr>timer_scratch := (timer_scratch s)(hart := (timer_scratch s hart)(i := v))\<rparr>)"

definition timerinit :: "('z boot_state_scheme, unit) K" where
  "timerinit =
     bnd r_mhartid (\<lambda>id0.
     let hart = unat id0 in
     thn (interfere (AtDev CLINT_MTIME)) (
     bnd (gets (\<lambda>s. clint s CLINT_MTIME)) (\<lambda>now.
     thn (modify (\<lambda>s. s\<lparr>clint := (clint s)(CLINT_MTIMECMP hart := now + 1000000)\<rparr>)) (
     thn (set_scratch hart 3 (CLINT_MTIMECMP hart)) (
     thn (set_scratch hart 4 1000000) (
     bnd (gets timer_scratch_addr) (\<lambda>base.
     thn (w_mscratch (base + of_nat hart * 40)) (
     bnd (gets sym_timervec) (\<lambda>tv.
     thn (w_mtvec tv) (
     bnd r_mstatus (\<lambda>x.
     thn (w_mstatus (x OR MSTATUS_MIE)) (
     bnd r_mie (\<lambda>y.
     w_mie (y OR MIE_MTIE))))))))))))))"

definition start :: "('z boot_state_scheme, unit) K" where
  "start =
     bnd r_mstatus (\<lambda>x.
     thn (w_mstatus ((x AND NOT MSTATUS_MPP_MASK) OR MSTATUS_MPP_S)) (
     bnd (gets sym_main) (\<lambda>main.
     thn (w_mepc main) (
     thn (w_satp 0) (
     thn (w_medeleg 0xffff) (
     thn (w_mideleg 0xffff) (
     bnd r_sie (\<lambda>y.
     thn (w_sie (y OR SIE_SEIE OR SIE_STIE OR SIE_SSIE)) (
     thn (w_pmpaddr0 0x3fffffffffffff) (
     thn (w_pmpcfg0 0xf) (
     thn timerinit (
     bnd r_mhartid (\<lambda>id0.
     w_tp id0)))))))))))))"

section \<open>Supervisor mode\<close>

partial_function (option) wait_started ::
  "(lockid, 'z boot_state_scheme) env \<Rightarrow> 'z boot_state_scheme \<Rightarrow>
     ('z boot_state_scheme, unit) outcome option" where
  "wait_started E s =
     thn (interfere AtSpin) (
     bnd (gets started) (\<lambda>st. if st then ret () else wait_started)) E s"

definition main_first :: "('z boot_state_scheme, unit) K" where
  "main_first =
     thn consoleinit (
     thn statsinit (
     thn printfinit (
     thn (printf (Some [10]) []) (
     thn (printf (lit (''xv6 kernel is booting'' @ [CHR 0x0A])) []) (
     thn (printf (Some [10]) []) (
     thn kinit (
     bnd (gets syms) (\<lambda>sy.
     thn (kvminit (sym_etext sy) (sym_trampoline sy)) (
     thn kvminithart (
     thn procinit (
     thn trapinit (
     thn trapinithart (
     thn plicinit (
     thn plicinithart (
     thn binit (
     thn iinit (
     thn fileinit (
     thn virtio_disk_init (
     thn userinit (
     modify (\<lambda>s. s\<lparr>started := True\<rparr>)))))))))))))))))))))"

definition main_other :: "nat \<Rightarrow> ('z boot_state_scheme, unit) K" where
  "main_other hart =
     thn wait_started (
     thn (printf (lit (''hart %d starting'' @ [CHR 0x0A])) [AInt (of_nat hart)]) (
     thn kvminithart (
     thn trapinithart (
     plicinithart))))"

definition main :: "('z boot_state_scheme, unit) K" where
  "main =
     bnd cpuid (\<lambda>hart.
     thn (if hart = 0 then main_first else main_other hart) (
     scheduler))"

end
