(* ===== verification/Grep.thy ===== *)
theory Grep
  imports Kernel_Prelude
begin

text \<open>
  The user program \<^verbatim>\<open>user/grep.c\<close>: the regular expression matcher, compared with the language of a
  pattern, and the loop over the input, compared with filtering its lines. A C string is the list of
  its bytes in front of the terminating NUL.
\<close>

section \<open>The matcher\<close>

function matchhere :: "uint8 list \<Rightarrow> uint8 list \<Rightarrow> bool"
  and matchstar :: "uint8 \<Rightarrow> uint8 list \<Rightarrow> uint8 list \<Rightarrow> bool" where
  "matchhere re tx =
     (case re of
        [] \<Rightarrow> True
      | c # re1 \<Rightarrow>
          if re1 \<noteq> [] \<and> hd re1 = 42 then matchstar c (tl re1) tx
          else if c = 36 \<and> re1 = [] then tx = []
          else if tx \<noteq> [] \<and> (c = 46 \<or> c = hd tx) then matchhere re1 (tl tx)
          else False)"
| "matchstar c re tx =
     (if matchhere re tx then True
      else if tx \<noteq> [] \<and> (hd tx = c \<or> c = 46) then matchstar c re (tl tx)
      else False)"
  by pat_completeness auto
termination
  by (relation "measures [\<lambda>x. case x of Inl (re, tx) \<Rightarrow> 2 * length re | Inr (c, re, tx) \<Rightarrow> 2 * length re + 1,
    \<lambda>x. case x of Inl (re, tx) \<Rightarrow> length tx | Inr (c, re, tx) \<Rightarrow> length tx]")
    (auto simp: neq_Nil_conv)

declare matchhere.simps [simp del] matchstar.simps [simp del]

text \<open>The loop of \<^verbatim>\<open>match\<close>, which also looks at the empty rest of the text.\<close>

fun match_any :: "uint8 list \<Rightarrow> uint8 list \<Rightarrow> bool" where
  "match_any re [] = matchhere re []"
| "match_any re (c # tx) = (if matchhere re (c # tx) then True else match_any re tx)"

definition match :: "uint8 list \<Rightarrow> uint8 list \<Rightarrow> bool" where
  "match re tx = (if re \<noteq> [] \<and> hd re = 94 then matchhere (tl re) tx else match_any re tx)"

section \<open>The loop over the input\<close>

text \<open>The position of a byte in the C string at the start of a buffer (\<^verbatim>\<open>strchr\<close> of \<^verbatim>\<open>ulib.c\<close>).\<close>

fun strchr :: "uint8 list \<Rightarrow> uint8 \<Rightarrow> nat option" where
  "strchr [] c = None"
| "strchr (x # s) c = (if x = 0 then None else if x = c then Some 0 else map_option Suc (strchr s c))"

lemma strchr_less: "strchr p c = Some q \<Longrightarrow> q < length p"
  by (induction p c arbitrary: q rule: strchr.induct) (auto split: if_splits)

text \<open>The inner loop over the complete lines of the buffer: what is written, and the rest \<^verbatim>\<open>p\<close>.\<close>

function grep_lines :: "uint8 list \<Rightarrow> uint8 list \<Rightarrow> uint8 list \<times> uint8 list" where
  "grep_lines pattern p =
     (case strchr p 10 of
        None \<Rightarrow> ([], p)
      | Some q \<Rightarrow>
          let (out, r) = grep_lines pattern (drop (q + 1) p)
          in ((if match pattern (take q p) then take (q + 1) p else []) @ out, r))"
  by pat_completeness auto
termination
  by (relation "measure (\<lambda>(pattern, p). length p)") (auto dest: strchr_less)

declare grep_lines.simps [simp del]

text \<open>
  The outer loop. \<open>rd n rest\<close> is how many of the remaining bytes \<open>rest\<close> of the file the call
  \<^verbatim>\<open>read(fd, buf+m, n)\<close> delivers; \<open>pend\<close> are the \<^verbatim>\<open>m\<close> bytes kept from the last turn.
\<close>

function grep_loop :: "(nat \<Rightarrow> uint8 list \<Rightarrow> nat) \<Rightarrow> uint8 list \<Rightarrow> uint8 list \<Rightarrow> uint8 list \<Rightarrow> uint8 list" where
  "grep_loop rd pattern pend rest =
     (let got = take (rd (1024 - length pend - 1) rest) rest
      in if got = [] then []
         else let (out, p) = grep_lines pattern (pend @ got)
              in out @ grep_loop rd pattern p (drop (length got) rest))"
  by pat_completeness auto
termination
  by (relation "measure (\<lambda>(rd, pattern, pend, rest). length rest)") (auto simp: neq_Nil_conv)

declare grep_loop.simps [simp del]

definition grep :: "(nat \<Rightarrow> uint8 list \<Rightarrow> nat) \<Rightarrow> uint8 list \<Rightarrow> uint8 list \<Rightarrow> uint8 list" where
  "grep rd pattern file = grep_loop rd pattern [] file"

text \<open>
  \<^verbatim>\<open>main\<close>: what it writes to descriptors 1 and 2, and the exit status. \<open>fs\<close> gives the contents of a file that
  can be opened; \<open>inp\<close> is the standard input.
\<close>

fun grep_files :: "(nat \<Rightarrow> uint8 list \<Rightarrow> nat) \<Rightarrow> (uint8 list \<Rightarrow> uint8 list option) \<Rightarrow> uint8 list \<Rightarrow> uint8 list list \<Rightarrow>
    uint8 list \<times> int" where
  "grep_files rd fs pattern [] = ([], 0)"
| "grep_files rd fs pattern (f # files) =
     (case fs f of
        None \<Rightarrow> (map of_char ''grep: cannot open '' @ f @ [10], 1)
      | Some file \<Rightarrow> apfst (append (grep rd pattern file)) (grep_files rd fs pattern files))"

definition grep_main :: "(nat \<Rightarrow> uint8 list \<Rightarrow> nat) \<Rightarrow> (uint8 list \<Rightarrow> uint8 list option) \<Rightarrow> uint8 list \<Rightarrow> uint8 list list \<Rightarrow>
    uint8 list \<times> uint8 list \<times> int" where
  "grep_main rd fs inp argv =
     (case argv of
        [] \<Rightarrow> ([], map of_char ''usage: grep pattern [file ...]'' @ [10], 1)
      | [_] \<Rightarrow> ([], map of_char ''usage: grep pattern [file ...]'' @ [10], 1)
      | [_, pattern] \<Rightarrow> (grep rd pattern inp, [], 0)
      | _ # pattern # files \<Rightarrow> (case grep_files rd fs pattern files of (out, status) \<Rightarrow> (out, [], status)))"

section \<open>The language of a pattern\<close>

datatype item = One uint8 | Star uint8

text \<open>The items of a pattern, and whether it ends with \<^verbatim>\<open>$\<close>.\<close>

fun items :: "uint8 list \<Rightarrow> item list \<times> bool" where
  "items [] = ([], False)"
| "items [c] = (if c = 36 then ([], True) else ([One c], False))"
| "items (c # d # re) =
     (if d = 42 then apfst (Cons (Star c)) (items re) else apfst (Cons (One c)) (items (d # re)))"

definition single :: "uint8 \<Rightarrow> uint8 \<Rightarrow> bool" where
  "single c x \<longleftrightarrow> c = 46 \<or> x = c"

fun lang :: "item list \<Rightarrow> uint8 list set" where
  "lang [] = {[]}"
| "lang (One c # is) = {x # w | x w. single c x \<and> w \<in> lang is}"
| "lang (Star c # is) = {u @ w | u w. (\<forall>x \<in> set u. single c x) \<and> w \<in> lang is}"

text \<open>A text with a prefix in the language, where the pattern may ask for the whole text.\<close>

definition prefix_in :: "item list \<times> bool \<Rightarrow> uint8 list \<Rightarrow> bool" where
  "prefix_in r tx \<longleftrightarrow> (\<exists>v w. tx = v @ w \<and> v \<in> lang (fst r) \<and> (snd r \<longrightarrow> w = []))"

lemma prefix_in_Nil: "prefix_in ([], e) tx \<longleftrightarrow> (e \<longrightarrow> tx = [])"
  by (auto simp: prefix_in_def)

lemma prefix_in_One:
  "prefix_in (apfst (Cons (One c)) r) tx \<longleftrightarrow> tx \<noteq> [] \<and> single c (hd tx) \<and> prefix_in r (tl tx)"
  by (cases tx) (auto simp: prefix_in_def Cons_eq_append_conv)

lemma prefix_in_Star_iff:
  "prefix_in (apfst (Cons (Star c)) r) tx \<longleftrightarrow> (\<exists>u s. tx = u @ s \<and> (\<forall>x \<in> set u. single c x) \<and> prefix_in r s)"
proof
  assume "prefix_in (apfst (Cons (Star c)) r) tx"
  then obtain v' w where "tx = v' @ w" "v' \<in> lang (Star c # fst r)" "snd r \<longrightarrow> w = []"
    by (auto simp: prefix_in_def)
  then obtain u v where "tx = u @ v @ w" "\<forall>x \<in> set u. single c x" "v \<in> lang (fst r)" "snd r \<longrightarrow> w = []"
    by auto
  then show "\<exists>u s. tx = u @ s \<and> (\<forall>x \<in> set u. single c x) \<and> prefix_in r s"
    unfolding prefix_in_def by blast
next
  assume "\<exists>u s. tx = u @ s \<and> (\<forall>x \<in> set u. single c x) \<and> prefix_in r s"
  then obtain u s where u: "tx = u @ s" "\<forall>x \<in> set u. single c x" "prefix_in r s" by blast
  then obtain v w where "s = v @ w" "v \<in> lang (fst r)" "snd r \<longrightarrow> w = []"
    unfolding prefix_in_def by blast
  then show "prefix_in (apfst (Cons (Star c)) r) tx"
    unfolding prefix_in_def using u by (intro exI [of _ "u @ v"] exI [of _ w]) auto
qed

lemma prefix_in_Star:
  "prefix_in (apfst (Cons (Star c)) r) tx \<longleftrightarrow>
     prefix_in r tx \<or> tx \<noteq> [] \<and> single c (hd tx) \<and> prefix_in (apfst (Cons (Star c)) r) (tl tx)"
  (is "?L \<longleftrightarrow> ?R")
proof
  assume ?L
  then obtain u s where tx: "tx = u @ s" "\<forall>x \<in> set u. single c x" "prefix_in r s"
    by (auto simp: prefix_in_Star_iff)
  then show ?R by (cases u) (auto simp: prefix_in_Star_iff)
next
  assume ?R
  then show ?L
  proof
    assume "prefix_in r tx"
    then show ?L by (auto simp: prefix_in_Star_iff intro: exI [of _ "[]"])
  next
    assume *: "tx \<noteq> [] \<and> single c (hd tx) \<and> prefix_in (apfst (Cons (Star c)) r) (tl tx)"
    then obtain u s where u: "tl tx = u @ s" "\<forall>x \<in> set u. single c x" "prefix_in r s"
      by (auto simp: prefix_in_Star_iff)
    then have "tx = (hd tx # u) @ s" using * by (cases tx) auto
    then show ?L using * u unfolding prefix_in_Star_iff by (intro exI [of _ "hd tx # u"] exI [of _ s]) simp
  qed
qed

lemma matchhere_eqs:
  "matchhere [] tx"
  "matchhere [c] tx \<longleftrightarrow> (if c = 36 then tx = [] else tx \<noteq> [] \<and> single c (hd tx))"
  "matchhere (c # d # re) tx \<longleftrightarrow>
     (if d = 42 then matchstar c re tx else tx \<noteq> [] \<and> single c (hd tx) \<and> matchhere (d # re) (tl tx))"
proof -
  show nil: "matchhere [] tx" for tx by (subst matchhere.simps) simp
  show "matchhere [c] tx \<longleftrightarrow> (if c = 36 then tx = [] else tx \<noteq> [] \<and> single c (hd tx))"
    by (subst matchhere.simps) (auto simp: nil single_def)
  show "matchhere (c # d # re) tx \<longleftrightarrow>
     (if d = 42 then matchstar c re tx else tx \<noteq> [] \<and> single c (hd tx) \<and> matchhere (d # re) (tl tx))"
    by (subst matchhere.simps) (auto simp: single_def)
qed

lemma matchhere_matchstar:
  "matchhere re tx \<longleftrightarrow> prefix_in (items re) tx"
  "matchstar c re tx \<longleftrightarrow> prefix_in (apfst (Cons (Star c)) (items re)) tx"
proof (induction re tx and c re tx rule: matchhere_matchstar.induct)
  case (1 re tx)
  show ?case
  proof (cases re rule: items.cases)
    case 1
    then show ?thesis by (simp add: matchhere_eqs prefix_in_Nil)
  next
    case (2 c)
    then show ?thesis
      using prefix_in_One [of c "([], False)" tx] by (simp add: matchhere_eqs prefix_in_Nil)
  next
    case (3 c d re')
    then show ?thesis using "1.IH" by (auto simp: matchhere_eqs prefix_in_One single_def)
  qed
next
  case (2 c re tx)
  show ?case
    by (subst matchstar.simps, subst prefix_in_Star) (use 2 in \<open>auto simp: single_def\<close>)
qed

lemma match_any_iff: "match_any re tx \<longleftrightarrow> (\<exists>u s. tx = u @ s \<and> matchhere re s)"
proof (induction tx)
  case (Cons x tx)
  then show ?case by (auto simp: Cons_eq_append_conv)
qed simp

section \<open>Lines\<close>

text \<open>The text of a list of lines, each with its newline.\<close>

definition unlines :: "uint8 list list \<Rightarrow> uint8 list" where
  "unlines ls = concat (map (\<lambda>l. l @ [10]) ls)"

lemma unlines_simps [simp]:
  "unlines [] = []" "unlines (l # ls) = l @ 10 # unlines ls" "unlines (ls @ ls') = unlines ls @ unlines ls'"
  by (simp_all add: unlines_def)

lemma strchr_None: "c \<notin> set p \<Longrightarrow> strchr p c = None"
  by (induction p) auto

lemma strchr_Some: "c \<notin> set l \<Longrightarrow> 0 \<notin> set l \<Longrightarrow> c \<noteq> 0 \<Longrightarrow> strchr (l @ c # p) c = Some (length l)"
  by (induction l) auto

lemmas strchr_newline = strchr_None strchr_Some

lemma grep_lines_unlines:
  assumes "\<forall>l \<in> set ls. 10 \<notin> set l \<and> 0 \<notin> set l" "10 \<notin> set p"
  shows "grep_lines pat (unlines ls @ p) = (unlines (filter (match pat) ls), p)"
  using assms(1)
proof (induction ls)
  case Nil
  then show ?case using assms(2) by (simp add: grep_lines.simps strchr_newline)
next
  case (Cons l ls)
  then show ?case by (subst grep_lines.simps) (simp add: strchr_newline)
qed

lemma unlines_prefix:
  assumes "b @ rest = unlines ls @ r" "\<forall>l \<in> set ls. 10 \<notin> set l" "10 \<notin> set r"
  obtains ls1 ls2 p where "ls = ls1 @ ls2" "b = unlines ls1 @ p" "p @ rest = unlines ls2 @ r" "10 \<notin> set p"
proof -
  have "\<exists>ls1 ls2 p. ls = ls1 @ ls2 \<and> b = unlines ls1 @ p \<and> p @ rest = unlines ls2 @ r \<and> 10 \<notin> set p"
    using assms
  proof (induction ls arbitrary: b)
    case Nil
    then have "10 \<notin> set b" by (metis Un_iff append_Nil set_append unlines_simps(1))
    then show ?case using Nil by (intro exI [of _ "[]"] exI [of _ "[]"] exI [of _ b]) simp
  next
    case (Cons l ls)
    then have "b @ rest = l @ (10 # unlines ls @ r)" by simp
    then consider us where "b = l @ us" "us @ rest = 10 # unlines ls @ r" | us where "b @ us = l"
      unfolding append_eq_append_conv2 by blast
    then show ?case
    proof cases
      case (1 us)
      show ?thesis
      proof (cases us)
        case Nil
        then show ?thesis using 1 Cons.prems
          by (intro exI [of _ "[]"] exI [of _ "l # ls"] exI [of _ b]) simp
      next
        case (Cons x us')
        then have "us' @ rest = unlines ls @ r" "x = 10" using 1 by simp_all
        have "\<exists>ls1 ls2 p. ls = ls1 @ ls2 \<and> us' = unlines ls1 @ p \<and> p @ rest = unlines ls2 @ r \<and> 10 \<notin> set p"
          by (rule Cons.IH) (use \<open>us' @ rest = unlines ls @ r\<close> Cons.prems in auto)
        then obtain ls1 ls2 p where "ls = ls1 @ ls2" "us' = unlines ls1 @ p" "p @ rest = unlines ls2 @ r" "10 \<notin> set p"
          by blast
        then show ?thesis using 1 Cons \<open>x = 10\<close>
          by (intro exI [of _ "l # ls1"] exI [of _ ls2] exI [of _ p]) simp
      qed
    next
      case (2 us)
      then show ?thesis using Cons.prems
        by (intro exI [of _ "[]"] exI [of _ "l # ls"] exI [of _ b]) auto
    qed
  qed
  then show ?thesis using that by blast
qed

lemma grep_loop_spec:
  assumes rd: "\<And>n xs. rd n xs \<le> n" "\<And>n xs. 0 < n \<Longrightarrow> xs \<noteq> [] \<Longrightarrow> 0 < rd n xs"
    and "pend @ rest = unlines ls @ r" "10 \<notin> set pend" "10 \<notin> set r"
    and "\<forall>l \<in> set ls. 10 \<notin> set l \<and> 0 \<notin> set l \<and> length l \<le> 1022"
  shows "grep_loop rd pat pend rest = unlines (filter (match pat) ls)"
  using assms(3-6)
proof (induction "length rest" arbitrary: pend rest ls rule: less_induct)
  case less
  define got where "got = take (rd (1024 - length pend - 1) rest) rest"
  have step: "grep_loop rd pat pend rest = (if got = [] then []
      else let (out, p) = grep_lines pat (pend @ got) in out @ grep_loop rd pat p (drop (length got) rest))"
    by (subst grep_loop.simps) (simp only: Let_def got_def)
  show ?case
  proof (cases "got = []")
    case True
    have "ls = []"
    proof (rule ccontr)
      assume "ls \<noteq> []"
      then obtain l ls' where ls: "ls = l # ls'" by (cases ls) auto
      then have eq: "pend @ rest = l @ (10 # unlines ls' @ r)" using less.prems by simp
      have "length pend \<le> length l"
      proof (rule ccontr)
        assume "\<not> length pend \<le> length l"
        then have "pend ! length l = 10" using eq by (metis leI nth_append nth_append_length)
        then show False using less.prems(2) \<open>\<not> length pend \<le> length l\<close> by (metis leI nth_mem)
      qed
      then have "0 < 1024 - length pend - 1" using less.prems(4) ls by auto
      moreover have "rest \<noteq> []" using eq less.prems(2) by auto
      ultimately have "0 < rd (1024 - length pend - 1) rest" by (rule rd(2))
      then show False using True \<open>rest \<noteq> []\<close> by (simp add: got_def)
    qed
    then show ?thesis using True by (simp add: step)
  next
    case False
    let ?rest = "drop (length got) rest"
    have rest: "rest = got @ ?rest" by (metis append_take_drop_id got_def length_take min.absorb_iff2 nat_le_linear take_all)
    have "(pend @ got) @ ?rest = unlines ls @ r" using less.prems(1) rest by simp
    then obtain ls1 ls2 p where p: "ls = ls1 @ ls2" "pend @ got = unlines ls1 @ p" "p @ ?rest = unlines ls2 @ r" "10 \<notin> set p"
      by (rule unlines_prefix) (use less.prems(3,4) in blast)+
    have lines: "grep_lines pat (pend @ got) = (unlines (filter (match pat) ls1), p)"
      unfolding p(2) using less.prems(4) p(1,4) by (intro grep_lines_unlines) auto
    have "length ?rest < length rest" using False rest by (metis length_append less_add_same_cancel2 length_greater_0_conv)
    then have "grep_loop rd pat p ?rest = unlines (filter (match pat) ls2)"
      using less.hyps p less.prems(3,4) by auto
    then show ?thesis
      using False lines p(1) by (simp add: step)
  qed
qed

section \<open>Properties\<close>

text \<open>C31. The matcher of \<^verbatim>\<open>grep\<close> decides the language of its pattern: \<^verbatim>\<open>match(re, text)\<close> is true exactly when
  some stretch of the text belongs to the language of the pattern's items (a byte, \<^verbatim>\<open>.\<close> for any byte, and
  either of them repeated by \<^verbatim>\<open>*\<close>), where a leading \<^verbatim>\<open>^\<close> ties the stretch to the start of the text and a
  final \<^verbatim>\<open>$\<close> to its end.\<close>

theorem match_decides_language:
  "match re tx \<longleftrightarrow>
     (let anchored = re \<noteq> [] \<and> hd re = 94; r = items (if anchored then tl re else re)
      in \<exists>u v w. tx = u @ v @ w \<and> v \<in> lang (fst r) \<and> (anchored \<longrightarrow> u = []) \<and> (snd r \<longrightarrow> w = []))"
  by (auto simp: match_def match_any_iff matchhere_matchstar(1) prefix_in_def Let_def)

text \<open>C32. \<^verbatim>\<open>grep\<close> prints exactly the complete lines of its input that match, in order, however the calls of
  \<^verbatim>\<open>read\<close> cut the input into pieces, provided the lines contain no NUL and fit into the buffer (1022 bytes
  and the newline). \<^verbatim>\<open>read\<close> delivers at most the bytes it is asked for, and at least one as long as
  there are any. Bytes behind the last newline are never printed.\<close>

theorem grep_filters_lines:
  assumes "\<forall>n xs. rd n xs \<le> n" "\<forall>n xs. 0 < n \<longrightarrow> xs \<noteq> [] \<longrightarrow> 0 < rd n xs"
    and "\<forall>l \<in> set ls. 10 \<notin> set l \<and> 0 \<notin> set l \<and> length l \<le> 1022" "10 \<notin> set r"
  shows "grep rd pat (unlines ls @ r) = unlines (filter (match pat) ls)"
  unfolding grep_def by (rule grep_loop_spec) (use assms in auto)

section \<open>Witnesses\<close>

theorem match_decides_language_witness:
  "match [97, 42, 98, 36] [120, 97, 97, 98] \<and> \<not> match [94, 98] [97, 98]"
proof -
  have "[97, 97, 98] \<in> lang [Star 97, One 98]"
    by (auto simp: single_def intro!: exI [of _ "[97, 97]"])
  then have "match [97, 42, 98, 36] [120, 97, 97, 98]"
    unfolding match_decides_language Let_def
    by (intro exI [of _ "[120]"] exI [of _ "[97, 97, 98]"] exI [of _ "[]"]) (simp del: lang.simps)
  moreover have "\<not> match [94, 98] [97, 98]"
    unfolding match_decides_language by (auto simp: Let_def single_def)
  ultimately show ?thesis by blast
qed

theorem grep_filters_lines_witness:
  "grep (\<lambda>n xs. min n 2) [98] (unlines [[97], [97, 98, 99], [120]] @ [98]) = [97, 98, 99, 10]"
proof -
  have "match [98] [97, 98, 99]" "\<not> match [98] [97]" "\<not> match [98] [120]"
    by (simp_all add: match_def matchhere_eqs single_def)
  then show ?thesis
    by (subst grep_filters_lines) simp_all
qed

end
