(* ===== verification/Shell.thy ===== *)
theory Shell
  imports Kernel_Prelude
begin

text \<open>
  The shell, \<^verbatim>\<open>user/sh.c\<close>. A pointer into the line buffer is an index; the buffer is a list of
  characters, and what lies behind it reads as NUL. The parser is a recursive descent over the pointer \<^verbatim>\<open>*ps\<close>,
  with the message of \<^verbatim>\<open>panic\<close> as its error. A process that runs a command is the tree of its system calls.
\<close>

section \<open>Commands\<close>

text \<open>
  The structures \<^verbatim>\<open>execcmd\<close>, \<^verbatim>\<open>redircmd\<close>, \<^verbatim>\<open>pipecmd\<close>, \<^verbatim>\<open>listcmd\<close> and \<^verbatim>\<open>backcmd\<close>. A word is given by
  its two pointers (\<^verbatim>\<open>argv\<close> and \<^verbatim>\<open>eargv\<close>, \<^verbatim>\<open>file\<close> and \<^verbatim>\<open>efile\<close>), or, once terminated, by its characters.
\<close>

datatype 'w cmd =
    EXEC "'w list"
  | REDIR "'w cmd" 'w int int
  | PIPE "'w cmd" "'w cmd"
  | LIST "'w cmd" "'w cmd"
  | BACK "'w cmd"

type_synonym span = "nat \<times> nat"

abbreviation (input) MAXARGS :: nat where "MAXARGS \<equiv> 10"
abbreviation (input) O_RDONLY :: int where "O_RDONLY \<equiv> 0"
abbreviation (input) O_WRONLY :: int where "O_WRONLY \<equiv> 1"
abbreviation (input) O_CREATE :: int where "O_CREATE \<equiv> 0x200"
abbreviation (input) O_TRUNC :: int where "O_TRUNC \<equiv> 0x400"

definition execcmd :: "'w cmd" where
  "execcmd = EXEC []"

definition redircmd :: "'w cmd \<Rightarrow> 'w \<Rightarrow> int \<Rightarrow> int \<Rightarrow> 'w cmd" where
  "redircmd subcmd file mode fd = REDIR subcmd file mode fd"

definition pipecmd :: "'w cmd \<Rightarrow> 'w cmd \<Rightarrow> 'w cmd" where
  "pipecmd left right = PIPE left right"

definition listcmd :: "'w cmd \<Rightarrow> 'w cmd \<Rightarrow> 'w cmd" where
  "listcmd left right = LIST left right"

definition backcmd :: "'w cmd \<Rightarrow> 'w cmd" where
  "backcmd subcmd = BACK subcmd"

text \<open>
  \<^verbatim>\<open>parseexec\<close> adds arguments to the \<^verbatim>\<open>execcmd\<close> that its result \<^verbatim>\<open>ret\<close> has wrapped in redirections.
\<close>

fun add_arg :: "'w \<Rightarrow> 'w cmd \<Rightarrow> 'w cmd" where
  "add_arg w (EXEC ws) = EXEC (ws @ [w])"
| "add_arg w (REDIR c f mode fd) = REDIR (add_arg w c) f mode fd"
| "add_arg w c = c"

section \<open>Tokens\<close>

abbreviation (input) NUL :: char where "NUL \<equiv> CHR 0x00"

definition chr_at :: "string \<Rightarrow> nat \<Rightarrow> char" where
  "chr_at b i = (if i < length b then b ! i else NUL)"

text \<open>\<^verbatim>\<open>whitespace\<close> and \<^verbatim>\<open>symbols\<close>; \<^verbatim>\<open>strchr\<close> does not find the terminating NUL.\<close>

definition whitespace :: string where
  "whitespace = [CHR '' '', CHR 0x09, CHR 0x0D, CHR 0x0A, CHR 0x0B]"

definition symbols :: string where
  "symbols = ''<|>&;()''"

definition wordchar :: "char \<Rightarrow> bool" where
  "wordchar c \<longleftrightarrow> c \<notin> set whitespace \<and> c \<notin> set symbols"

text \<open>The pointer after the loop \<^verbatim>\<open>while(s < es && ...) s++\<close>.\<close>

function skip :: "(char \<Rightarrow> bool) \<Rightarrow> string \<Rightarrow> nat \<Rightarrow> nat \<Rightarrow> nat" where
  "skip P b es s = (if s < es \<and> P (chr_at b s) then skip P b es (Suc s) else s)"
  by pat_completeness auto
termination by (relation "measure (\<lambda>(P, b, es, s). es - s)") auto

declare skip.simps [simp del]

abbreviation (input) skip_ws :: "string \<Rightarrow> nat \<Rightarrow> nat \<Rightarrow> nat" where
  "skip_ws b es s \<equiv> skip (\<lambda>c. c \<in> set whitespace) b es s"

text \<open>
  The type of a parser: the pointer to a panic or a result and the pointer behind it; \<open>None\<close> when the recursion
  is cut off.
\<close>

type_synonym 'a parser = "nat \<Rightarrow> (string + 'a \<times> nat) option"

definition pret :: "'a \<Rightarrow> 'a parser" where
  "pret a s = Some (Inr (a, s))"

definition ppanic :: "string \<Rightarrow> 'a parser" where
  "ppanic msg s = Some (Inl msg)"

definition pbnd :: "'a parser \<Rightarrow> ('a \<Rightarrow> 'b parser) \<Rightarrow> 'b parser" where
  "pbnd p f s = (case p s of None \<Rightarrow> None | Some (Inl msg) \<Rightarrow> Some (Inl msg) | Some (Inr (a, s')) \<Rightarrow> f a s')"

text \<open>The token, where it starts (\<^verbatim>\<open>*q\<close>) and where it ends (\<^verbatim>\<open>*eq\<close>).\<close>

definition gettoken :: "string \<Rightarrow> nat \<Rightarrow> (char \<times> span) parser" where
  "gettoken b es s =
     (let q = skip_ws b es s;
          c = chr_at b q;
          (r, eq) =
            (if c = NUL then (c, q)
             else if c \<in> set ''|();&<'' then (c, q + 1)
             else if c = CHR ''>'' then
               (if chr_at b (q + 1) = CHR ''>'' then (CHR ''+'', q + 2) else (c, q + 1))
             else (CHR ''a'', skip wordchar b es q))
      in Some (Inr ((r, q, eq), skip_ws b es eq)))"

definition peek :: "string \<Rightarrow> nat \<Rightarrow> string \<Rightarrow> bool parser" where
  "peek b es toks s =
     (let s' = skip_ws b es s in Some (Inr (chr_at b s' \<noteq> NUL \<and> chr_at b s' \<in> set toks, s')))"

section \<open>The parser\<close>

definition redir_switch :: "char \<Rightarrow> 'w cmd \<Rightarrow> 'w \<Rightarrow> 'w cmd" where
  "redir_switch tok cmd file =
     (if tok = CHR ''<'' then redircmd cmd file O_RDONLY 0
      else if tok = CHR ''>'' then redircmd cmd file (O_WRONLY + O_CREATE + O_TRUNC) 1
      else if tok = CHR ''+'' then redircmd cmd file (O_WRONLY + O_CREATE) 1
      else cmd)"

fun redirs_loop :: "string \<Rightarrow> nat \<Rightarrow> nat \<Rightarrow> span cmd \<Rightarrow> span cmd parser" where
  "redirs_loop b es 0 cmd = (\<lambda>s. None)"
| "redirs_loop b es (Suc n) cmd =
     pbnd (peek b es ''<>'') (\<lambda>more.
     if \<not> more then pret cmd
     else pbnd (gettoken b es) (\<lambda>(tok, _).
          pbnd (gettoken b es) (\<lambda>(a, file).
          if a \<noteq> CHR ''a'' then ppanic ''missing file for redirection''
          else redirs_loop b es n (redir_switch tok cmd file))))"

text \<open>A loop over a line of \<open>es\<close> characters that reads at least one in every round has \<open>es + 1\<close> rounds at most.\<close>

definition parseredirs :: "string \<Rightarrow> nat \<Rightarrow> span cmd \<Rightarrow> span cmd parser" where
  "parseredirs b es cmd = redirs_loop b es (Suc es) cmd"

text \<open>\<open>pl\<close> stands for the recursive call of \<^verbatim>\<open>parseline\<close>.\<close>

definition parseblock :: "span cmd parser \<Rightarrow> string \<Rightarrow> nat \<Rightarrow> span cmd parser" where
  "parseblock pl b es =
     pbnd (peek b es ''('') (\<lambda>opened.
     if \<not> opened then ppanic ''parseblock''
     else pbnd (gettoken b es) (\<lambda>_.
          pbnd pl (\<lambda>cmd.
          pbnd (peek b es '')'') (\<lambda>closed.
          if \<not> closed then ppanic ''syntax - missing )''
          else pbnd (gettoken b es) (\<lambda>_.
               parseredirs b es cmd)))))"

fun exec_loop :: "string \<Rightarrow> nat \<Rightarrow> nat \<Rightarrow> nat \<Rightarrow> span cmd \<Rightarrow> span cmd parser" where
  "exec_loop b es 0 argc r = (\<lambda>s. None)"
| "exec_loop b es (Suc n) argc r =
     pbnd (peek b es ''|)&;'') (\<lambda>stop.
     if stop then pret r
     else pbnd (gettoken b es) (\<lambda>(tok, w).
          if tok = NUL then pret r
          else if tok \<noteq> CHR ''a'' then ppanic ''syntax''
          else if argc + 1 \<ge> MAXARGS then ppanic ''too many args''
          else pbnd (parseredirs b es (add_arg w r)) (\<lambda>r'.
               exec_loop b es n (argc + 1) r')))"

definition parseexec :: "span cmd parser \<Rightarrow> string \<Rightarrow> nat \<Rightarrow> span cmd parser" where
  "parseexec pl b es =
     pbnd (peek b es ''('') (\<lambda>opened.
     if opened then parseblock pl b es
     else pbnd (parseredirs b es execcmd) (\<lambda>r.
          exec_loop b es (Suc es) 0 r))"

fun pipe_loop :: "span cmd parser \<Rightarrow> string \<Rightarrow> nat \<Rightarrow> nat \<Rightarrow> span cmd parser" where
  "pipe_loop pl b es 0 = (\<lambda>s. None)"
| "pipe_loop pl b es (Suc n) =
     pbnd (parseexec pl b es) (\<lambda>cmd.
     pbnd (peek b es ''|'') (\<lambda>more.
     if more
     then pbnd (gettoken b es) (\<lambda>_.
          pbnd (pipe_loop pl b es n) (\<lambda>right.
          pret (pipecmd cmd right)))
     else pret cmd))"

definition parsepipe :: "span cmd parser \<Rightarrow> string \<Rightarrow> nat \<Rightarrow> span cmd parser" where
  "parsepipe pl b es = pipe_loop pl b es (Suc es)"

fun back_loop :: "string \<Rightarrow> nat \<Rightarrow> nat \<Rightarrow> span cmd \<Rightarrow> span cmd parser" where
  "back_loop b es 0 cmd = (\<lambda>s. None)"
| "back_loop b es (Suc n) cmd =
     pbnd (peek b es ''&'') (\<lambda>more.
     if more then pbnd (gettoken b es) (\<lambda>_. back_loop b es n (backcmd cmd))
     else pret cmd)"

fun parseline :: "string \<Rightarrow> nat \<Rightarrow> nat \<Rightarrow> span cmd parser" where
  "parseline b es 0 = (\<lambda>s. None)"
| "parseline b es (Suc n) =
     pbnd (parsepipe (parseline b es n) b es) (\<lambda>cmd.
     pbnd (back_loop b es (Suc es) cmd) (\<lambda>cmd.
     pbnd (peek b es '';'') (\<lambda>more.
     if more
     then pbnd (gettoken b es) (\<lambda>_.
          pbnd (parseline b es n) (\<lambda>right.
          pret (listcmd cmd right)))
     else pret cmd)))"

text \<open>The buffer with a NUL behind every word.\<close>

fun nulterminate :: "span cmd \<Rightarrow> string \<Rightarrow> string" where
  "nulterminate (EXEC ws) b = fold (\<lambda>(q, eq) b. b[eq := NUL]) ws b"
| "nulterminate (REDIR c (q, eq) mode fd) b = (nulterminate c b)[eq := NUL]"
| "nulterminate (PIPE l r) b = nulterminate r (nulterminate l b)"
| "nulterminate (LIST l r) b = nulterminate r (nulterminate l b)"
| "nulterminate (BACK c) b = nulterminate c b"

definition cstring :: "string \<Rightarrow> nat \<Rightarrow> string" where
  "cstring b q = takeWhile (\<lambda>c. c \<noteq> NUL) (drop q b)"

text \<open>\<^verbatim>\<open>parsecmd\<close>: the command and the buffer its pointers point into.\<close>

definition parsecmd :: "string \<Rightarrow> (string + span cmd \<times> string) option" where
  "parsecmd b =
     (let es = length (cstring b 0) in
      case pbnd (parseline b es (Suc es)) (\<lambda>cmd. pbnd (peek b es []) (\<lambda>_. pret cmd)) 0 of
        None \<Rightarrow> None
      | Some (Inl msg) \<Rightarrow> Some (Inl msg)
      | Some (Inr (cmd, s)) \<Rightarrow>
          if s \<noteq> es then Some (Inl ''syntax'') else Some (Inr (cmd, nulterminate cmd b)))"

section \<open>Pointers\<close>

text \<open>The line ends at \<open>es\<close>.\<close>

definition line :: "string \<Rightarrow> nat \<Rightarrow> bool" where
  "line b es \<longleftrightarrow> es \<le> length b \<and> chr_at b es = NUL \<and> (\<forall>i < es. chr_at b i \<noteq> NUL)"

lemma line_cstring: "line b (length (cstring b 0))"
proof -
  let ?n = "length (takeWhile (\<lambda>c. c \<noteq> NUL) b)"
  have "chr_at b ?n = NUL" using nth_length_takeWhile [of "\<lambda>c. c \<noteq> NUL" b] by (auto simp: chr_at_def)
  moreover have "chr_at b i \<noteq> NUL" if "i < ?n" for i
    using that takeWhile_nth [OF that] nth_mem [OF that] length_takeWhile_le [of "\<lambda>c. c \<noteq> NUL" b]
    by (auto simp: chr_at_def dest: set_takeWhileD)
  ultimately show ?thesis by (simp add: line_def cstring_def length_takeWhile_le)
qed

lemma skip_spec:
  assumes "s \<le> es"
  shows "s \<le> skip P b es s \<and> skip P b es s \<le> es \<and> (skip P b es s < es \<longrightarrow> \<not> P (chr_at b (skip P b es s)))
    \<and> (\<forall>i. s \<le> i \<and> i < skip P b es s \<longrightarrow> P (chr_at b i))"
  using assms
proof (induction P b es s rule: skip.induct)
  case (1 P b es s)
  show ?case
  proof (cases "s < es \<and> P (chr_at b s)")
    case True
    then have e: "skip P b es s = skip P b es (Suc s)" by (simp add: skip.simps [of P b es s])
    have "P (chr_at b i)" if "s \<le> i" "i < skip P b es (Suc s)" for i
      using 1 True that by (cases "i = s") auto
    then show ?thesis unfolding e using 1 True by auto
  next
    case False
    then have "skip P b es s = s" by (auto simp: skip.simps [of P b es s])
    then show ?thesis using 1 False by auto
  qed
qed

lemma skip_bounds:
  assumes "s \<le> es"
  shows "s \<le> skip P b es s" "skip P b es s \<le> es" "skip P b es s < es \<Longrightarrow> \<not> P (chr_at b (skip P b es s))"
    "s \<le> i \<Longrightarrow> i < skip P b es s \<Longrightarrow> P (chr_at b i)"
  using skip_spec [OF assms, of P b] by auto

lemma skip_moves: "s < es \<Longrightarrow> P (chr_at b s) \<Longrightarrow> s < skip P b es s"
  using skip_bounds(1) [of "Suc s" es P b] by (subst skip.simps) auto

text \<open>A word of the line, as large as possible.\<close>

fun word_at :: "string \<Rightarrow> nat \<Rightarrow> span \<Rightarrow> bool" where
  "word_at b es (q, eq) \<longleftrightarrow> q < eq \<and> eq \<le> es \<and> (\<forall>i. q \<le> i \<and> i < eq \<longrightarrow> wordchar (chr_at b i))
     \<and> (eq < es \<longrightarrow> \<not> wordchar (chr_at b eq))"

declare word_at.simps [simp del]

lemma wordchar_default:
  assumes "c \<notin> set whitespace" "c \<notin> set ''|();&<''" "c \<noteq> CHR ''>''"
  shows "wordchar c"
  using assms by (auto simp: wordchar_def symbols_def)

text \<open>A parser that ends with a panic or behind \<open>s\<close> with \<open>Q\<close>.\<close>

definition parses :: "nat \<Rightarrow> 'a parser \<Rightarrow> nat \<Rightarrow> ('a \<Rightarrow> nat \<Rightarrow> bool) \<Rightarrow> bool" where
  "parses es p s Q \<longleftrightarrow> (case p s of None \<Rightarrow> False | Some (Inl _) \<Rightarrow> True | Some (Inr (a, s')) \<Rightarrow> s \<le> s' \<and> s' \<le> es \<and> Q a s')"

lemma parsesE:
  assumes "parses es p s Q"
  obtains msg where "p s = Some (Inl msg)" | a s' where "p s = Some (Inr (a, s'))" "s \<le> s'" "s' \<le> es" "Q a s'"
  using assms by (auto simp: parses_def split: option.splits sum.splits)

named_theorems prules \<open>rules for the statements of the parser\<close>

lemma parses_pret [prules]: "s \<le> es \<Longrightarrow> Q a s \<Longrightarrow> parses es (pret a) s Q"
  by (simp add: parses_def pret_def)

lemma parses_ppanic [prules]: "parses es (ppanic msg) s Q"
  by (simp add: parses_def ppanic_def)

lemma parses_pbnd [prules]:
  assumes "parses es p s (\<lambda>a s'. parses es (f a) s' Q)"
  shows "parses es (pbnd p f) s Q"
proof -
  from assms show ?thesis
  proof (rule parsesE)
    fix a s'
    assume "p s = Some (Inr (a, s'))" "s \<le> s'" "parses es (f a) s' Q"
    then show ?thesis by (auto simp: parses_def [of _ "pbnd p f"] pbnd_def elim!: parsesE)
  qed (simp add: parses_def pbnd_def)
qed

lemma parses_mono: "parses es p s Q \<Longrightarrow> (\<And>a s'. s \<le> s' \<Longrightarrow> s' \<le> es \<Longrightarrow> Q a s' \<Longrightarrow> R a s') \<Longrightarrow> parses es p s R"
  by (auto simp: parses_def split: option.splits sum.splits)

lemma parses_if [prules]: "(c \<Longrightarrow> parses es p s Q) \<Longrightarrow> (\<not> c \<Longrightarrow> parses es q s Q) \<Longrightarrow> parses es (if c then p else q) s Q"
  by simp

lemma parses_case [prules]: "(\<And>x y. z = (x, y) \<Longrightarrow> parses es (f x y) s Q) \<Longrightarrow> parses es (case z of (x, y) \<Rightarrow> f x y) s Q"
  by (cases z) simp

lemma parses_peek [prules]:
  assumes "line b es" "s \<le> es" "\<And>c s'. s \<le> s' \<Longrightarrow> s' \<le> es \<Longrightarrow> (c \<Longrightarrow> s' < es) \<Longrightarrow> Q c s'"
  shows "parses es (peek b es toks) s Q"
  using assms skip_bounds(1,2) [OF assms(2), of "\<lambda>c. c \<in> set whitespace" b]
  by (auto simp: parses_def peek_def Let_def line_def le_less intro!: assms(3))

lemma parses_gettoken [prules]:
  assumes "line b es" "s \<le> es"
    and Q: "\<And>tok q eq s'. s \<le> s' \<Longrightarrow> s' \<le> es \<Longrightarrow> (s < es \<Longrightarrow> s < s') \<Longrightarrow> (tok \<noteq> NUL \<Longrightarrow> s < s') \<Longrightarrow> (tok = CHR ''a'' \<Longrightarrow> word_at b es (q, eq))
      \<Longrightarrow> Q (tok, q, eq) s'"
  shows "parses es (gettoken b es) s Q"
proof -
  let ?ws = "\<lambda>c. c \<in> set whitespace"
  define q where "q = skip ?ws b es s"
  define c where "c = chr_at b q"
  define tok where "tok = (if c = NUL \<or> c \<in> set ''|();&<'' then c
    else if c = CHR ''>'' then if chr_at b (q + 1) = CHR ''>'' then CHR ''+'' else c else CHR ''a'')"
  define eq where "eq = (if c = NUL then q else if c \<in> set ''|();&<'' then q + 1
    else if c = CHR ''>'' then if chr_at b (q + 1) = CHR ''>'' then q + 2 else q + 1 else skip wordchar b es q)"
  have run: "gettoken b es s = Some (Inr ((tok, q, eq), skip ?ws b es eq))"
    by (simp add: gettoken_def Let_def q_def c_def tok_def eq_def split: if_splits)
  have q: "s \<le> q" "q \<le> es" using skip_bounds [OF assms(2)] by (auto simp: q_def)
  have at_end: "c = NUL" if "q = es" using assms(1) that by (simp add: line_def c_def)
  have inside: "c \<noteq> NUL" if "q < es" using assms(1) that by (simp add: line_def c_def)
  have second: "q + 2 \<le> es" if "q < es" "chr_at b (q + 1) = CHR ''>''"
  proof (rule ccontr)
    assume "\<not> q + 2 \<le> es"
    then have "q + 1 = es" using that(1) by simp
    then show False using that(2) assms(1) by (simp add: line_def)
  qed
  have word: "wordchar c" if "q < es" "c \<notin> set ''|();&<''" "c \<noteq> CHR ''>''"
    using that skip_bounds(3) [OF assms(2), of ?ws b] by (intro wordchar_default) (auto simp: q_def c_def)
  have eq: "q \<le> eq" "eq \<le> es" "q < es \<Longrightarrow> q < eq"
    using q(2) at_end inside second skip_bounds(1,2) [OF q(2), of wordchar b] skip_moves [of q es wordchar b] word
    by (auto simp: eq_def c_def [symmetric] le_less)
  have s': "eq \<le> skip ?ws b es eq" "skip ?ws b es eq \<le> es" using skip_bounds [OF eq(2)] by auto
  have "word_at b es (q, eq)" if "tok = CHR ''a''"
  proof -
    have c: "c \<noteq> NUL" "c \<notin> set ''|();&<''" "c \<noteq> CHR ''>''"
      using that by (auto simp: tok_def split: if_splits)
    then have "q < es" using at_end q(2) by (cases "q = es") auto
    moreover have "eq = skip wordchar b es q" using c by (simp add: eq_def)
    ultimately show ?thesis using eq skip_bounds(3,4) [OF q(2), where P = wordchar and b = b] by (auto simp: word_at.simps)
  qed
  moreover have "s < skip ?ws b es eq" if "s < es"
    using that q eq s' by (cases "q < es") simp_all
  moreover have "s < skip ?ws b es eq" if "tok \<noteq> NUL"
    using that q eq s' at_end by (cases "q < es") (auto simp: tok_def)
  ultimately show ?thesis unfolding parses_def run using q eq s' by (auto intro!: Q)
qed

section \<open>Every line\<close>

text \<open>The arrays of an \<^verbatim>\<open>execcmd\<close> have room for the arguments and the terminating null pointer.\<close>

fun fits :: "'w cmd \<Rightarrow> bool" where
  "fits (EXEC ws) \<longleftrightarrow> length ws < MAXARGS"
| "fits (REDIR c f mode fd) \<longleftrightarrow> fits c"
| "fits (PIPE l r) \<longleftrightarrow> fits l \<and> fits r"
| "fits (LIST l r) \<longleftrightarrow> fits l \<and> fits r"
| "fits (BACK c) \<longleftrightarrow> fits c"

fun nargs :: "'w cmd \<Rightarrow> nat" where
  "nargs (EXEC ws) = length ws"
| "nargs (REDIR c f mode fd) = nargs c"
| "nargs c = 0"

lemma nargs_add_arg: "nargs (add_arg w c) \<le> nargs c + 1"
  by (induction w c rule: add_arg.induct) auto

lemma fits_add_arg: "fits c \<Longrightarrow> nargs c + 1 < MAXARGS \<Longrightarrow> fits (add_arg w c)"
  by (induction w c rule: add_arg.induct) auto

lemma words_add_arg: "set_cmd (add_arg w c) \<subseteq> insert w (set_cmd c)"
  by (induction w c rule: add_arg.induct) auto

definition tree_ok :: "string \<Rightarrow> nat \<Rightarrow> span cmd \<Rightarrow> bool" where
  "tree_ok b es c \<longleftrightarrow> (\<forall>w \<in> set_cmd c. word_at b es w) \<and> fits c"

lemmas cmd_constructors = execcmd_def redircmd_def pipecmd_def listcmd_def backcmd_def

lemma tree_ok_constructors [simp]:
  "tree_ok b es execcmd"
  "tree_ok b es (redircmd c w mode fd) \<longleftrightarrow> tree_ok b es c \<and> word_at b es w"
  "tree_ok b es (pipecmd l r) \<longleftrightarrow> tree_ok b es l \<and> tree_ok b es r"
  "tree_ok b es (listcmd l r) \<longleftrightarrow> tree_ok b es l \<and> tree_ok b es r"
  "tree_ok b es (backcmd c) \<longleftrightarrow> tree_ok b es c"
  by (auto simp: tree_ok_def cmd_constructors)

lemma tree_ok_add_arg:
  "tree_ok b es c \<Longrightarrow> word_at b es w \<Longrightarrow> nargs c + 1 < MAXARGS \<Longrightarrow> tree_ok b es (add_arg w c)"
  using words_add_arg [of w c] by (auto simp: tree_ok_def fits_add_arg)

lemma nargs_constructors [simp]:
  "nargs execcmd = 0" "nargs (redircmd c w mode fd) = nargs c"
  by (simp_all add: cmd_constructors)

lemma redir_switch_ok:
  "tree_ok b es c \<Longrightarrow> word_at b es w \<Longrightarrow> tree_ok b es (redir_switch tok c w)" "nargs (redir_switch tok c w) = nargs c"
  by (simp_all add: redir_switch_def)

lemma parses_redirs_loop:
  assumes "line b es" "s \<le> es" "es - s < n" "tree_ok b es c" "nargs c = k"
  shows "parses es (redirs_loop b es n c) s (\<lambda>c' s'. tree_ok b es c' \<and> nargs c' = k)"
  using assms(2-)
proof (induction n arbitrary: c s)
  case (Suc n)
  show ?case
    unfolding redirs_loop.simps
    using Suc.prems by (intro prules assms(1) Suc.IH) (auto simp: redir_switch_ok)
qed simp

lemma parses_parseredirs [prules]:
  assumes "line b es" "s \<le> es" "tree_ok b es c" "\<And>c' s'. s \<le> s' \<Longrightarrow> s' \<le> es \<Longrightarrow> tree_ok b es c' \<Longrightarrow> nargs c' = nargs c \<Longrightarrow> Q c' s'"
  shows "parses es (parseredirs b es c) s Q"
  unfolding parseredirs_def
  by (rule parses_mono [OF parses_redirs_loop [OF assms(1,2) _ assms(3) refl]]) (use assms(4) in auto)

lemma parses_exec_loop:
  assumes "line b es" "s \<le> es" "es - s < n" "tree_ok b es c" "nargs c \<le> argc"
  shows "parses es (exec_loop b es n argc c) s (\<lambda>c' s'. tree_ok b es c')"
  using assms(2-)
proof (induction n arbitrary: argc c s)
  case (Suc n)
  show ?case
    unfolding exec_loop.simps
    using Suc.prems by (intro prules assms(1) Suc.IH tree_ok_add_arg) (auto intro: order_trans [OF nargs_add_arg])
qed simp

lemma parses_back_loop:
  assumes "line b es" "s \<le> es" "es - s < n" "tree_ok b es c"
  shows "parses es (back_loop b es n c) s (\<lambda>c' s'. tree_ok b es c')"
  using assms(2-)
proof (induction n arbitrary: c s)
  case (Suc n)
  show ?case
    unfolding back_loop.simps
    using Suc.prems by (intro prules assms(1) Suc.IH) auto
qed simp

text \<open>The parsers that call \<^verbatim>\<open>parseline\<close> again do so behind a character they have read.\<close>

lemma parses_parseexec [prules]:
  assumes "line b es" "s \<le> es"
    and "\<And>s'. s < s' \<Longrightarrow> s' \<le> es \<Longrightarrow> parses es pl s' (\<lambda>c s'. tree_ok b es c)"
    and "\<And>c' s'. s \<le> s' \<Longrightarrow> s' \<le> es \<Longrightarrow> tree_ok b es c' \<Longrightarrow> Q c' s'"
  shows "parses es (parseexec pl b es) s Q"
proof -
  have "parses es (parseexec pl b es) s (\<lambda>c s'. tree_ok b es c)"
    unfolding parseexec_def parseblock_def
    by (intro prules assms(1,2) parses_exec_loop parses_mono [OF assms(3)]) (use assms(2) in auto)
  then show ?thesis by (rule parses_mono) (use assms(4) in auto)
qed

lemma parses_pipe_loop:
  assumes "line b es" "s \<le> es" "es - s < n"
    and "\<And>s'. s < s' \<Longrightarrow> s' \<le> es \<Longrightarrow> parses es pl s' (\<lambda>c s'. tree_ok b es c)"
  shows "parses es (pipe_loop pl b es n) s (\<lambda>c s'. tree_ok b es c)"
  using assms(2-)
proof (induction n arbitrary: s)
  case (Suc n)
  show ?case
    unfolding pipe_loop.simps
    using Suc.prems by (intro prules assms(1) parses_mono [OF Suc.IH]) auto
qed simp

lemma parses_parseline:
  assumes "line b es" "s \<le> es" "es - s < n"
  shows "parses es (parseline b es n) s (\<lambda>c s'. tree_ok b es c)"
  using assms(2-)
proof (induction n arbitrary: s)
  case (Suc n)
  show ?case
    unfolding parseline.simps parsepipe_def
    using Suc.prems
    by (intro prules assms(1) parses_mono [OF Suc.IH] parses_mono [OF parses_pipe_loop] parses_mono [OF parses_back_loop]) auto
qed simp

section \<open>Terminated words\<close>

definition span_text :: "string \<Rightarrow> span \<Rightarrow> string" where
  "span_text b = (\<lambda>(q, eq). map (chr_at b) [q..<eq])"

definition terminated :: "string \<Rightarrow> span \<Rightarrow> string" where
  "terminated b = (\<lambda>(q, eq). cstring b q)"

lemma cstring_eq:
  assumes "\<forall>i. q \<le> i \<and> i < e \<longrightarrow> chr_at b i \<noteq> NUL" "chr_at b e = NUL" "q \<le> e"
  shows "cstring b q = map (chr_at b) [q..<e]"
  using assms(1,3)
proof (induction "e - q" arbitrary: q)
  case 0
  then have "q = e" by simp
  then show ?case using assms(2) by (cases "q < length b") (auto simp: cstring_def chr_at_def Cons_nth_drop_Suc [symmetric])
next
  case (Suc n)
  then have c: "q < e" "chr_at b q \<noteq> NUL" by simp_all
  then have "q < length b" by (auto simp: chr_at_def split: if_splits)
  then have "cstring b q = chr_at b q # cstring b (Suc q)"
    using c(2) by (simp add: cstring_def chr_at_def Cons_nth_drop_Suc [symmetric])
  moreover have "cstring b (Suc q) = map (chr_at b) [Suc q..<e]" using Suc c(1) by simp
  ultimately show ?case using c(1) by (simp add: upt_conv_Cons)
qed

lemma chr_at_update: "chr_at (b[i := NUL]) j = (if i = j then NUL else chr_at b j)"
  by (simp add: chr_at_def nth_list_update)

lemma chr_at_nulterminate:
  "chr_at (nulterminate c b) i = (if i \<in> snd ` set_cmd c then NUL else chr_at b i)"
proof (induction c b rule: nulterminate.induct)
  case (1 ws b)
  then show ?case by (induction ws arbitrary: b) (auto simp: chr_at_update)
qed (auto simp: chr_at_update image_Un)

lemma terminated_words:
  assumes "line b es" "tree_ok b es c" "w \<in> set_cmd c"
  shows "terminated (nulterminate c b) w = span_text b w"
proof -
  obtain q eq where w: "w = (q, eq)" by fastforce
  have word: "word_at b es (q, eq)" and words: "\<forall>v \<in> set_cmd c. word_at b es v"
    using assms(2,3) w by (auto simp: tree_ok_def)
  have keep: "chr_at (nulterminate c b) i = chr_at b i" if "q \<le> i" "i < eq" for i
  proof -
    have "i < es" "wordchar (chr_at b i)" using word that by (auto simp: word_at.simps)
    then have "i \<notin> snd ` set_cmd c" using words by (fastforce simp: word_at.simps le_less)
    then show ?thesis by (simp add: chr_at_nulterminate)
  qed
  have "chr_at b i \<noteq> NUL" if "q \<le> i" "i < eq" for i
    using assms(1) word that by (auto simp: line_def word_at.simps)
  then have "cstring (nulterminate c b) q = map (chr_at (nulterminate c b)) [q..<eq]"
    using keep word assms(3) w by (intro cstring_eq) (auto simp: word_at.simps chr_at_nulterminate rev_image_eqI)
  also have "\<dots> = map (chr_at b) [q..<eq]" using keep by simp
  finally show ?thesis by (simp add: w terminated_def span_text_def)
qed

text \<open>C38. For every content of the line buffer \<^verbatim>\<open>parsecmd\<close> ends, with a syntax error or with a command; in a
  command every \<^verbatim>\<open>argv\<close> has room for its null pointer, every pair of pointers delimits a word of the line that is as
  long as possible, and after \<^verbatim>\<open>nulterminate\<close> the C strings are those words: no terminating NUL has cut another word.\<close>

theorem parsecmd_every_line:
  "case parsecmd b of
     None \<Rightarrow> False
   | Some (Inl msg) \<Rightarrow> True
   | Some (Inr (c, b')) \<Rightarrow> fits c \<and> set_cmd c \<subseteq> {w. word_at b (length (cstring b 0)) w}
       \<and> map_cmd (terminated b') c = map_cmd (span_text b) c"
proof -
  let ?es = "length (cstring b 0)"
  let ?p = "pbnd (parseline b ?es (Suc ?es)) (\<lambda>cmd. pbnd (peek b ?es []) (\<lambda>_. pret cmd))"
  have "parses ?es ?p 0 (\<lambda>c s'. tree_ok b ?es c)"
    by (intro parses_pbnd parses_mono [OF parses_parseline [OF line_cstring]] parses_peek line_cstring parses_pret) auto
  then show ?thesis
  proof (rule parsesE)
    fix c s'
    assume "?p 0 = Some (Inr (c, s'))" "tree_ok b ?es c"
    moreover from this have "map_cmd (terminated (nulterminate c b)) c = map_cmd (span_text b) c"
      using terminated_words [OF line_cstring] by (intro cmd.map_cong) auto
    ultimately show ?thesis by (auto simp: parsecmd_def Let_def tree_ok_def)
  qed (simp add: parsecmd_def Let_def)
qed

section \<open>The grammar\<close>

text \<open>
  The text of a command, with parentheses only where the grammar needs them: \<^verbatim>\<open>;\<close> binds weaker than \<^verbatim>\<open>&\<close>, and
  that weaker than \<^verbatim>\<open>|\<close>; lists and pipes associate to the right.
\<close>

definition paren :: "bool \<Rightarrow> string \<Rightarrow> string" where
  "paren p xs = (if p then ''('' @ xs @ '')'' else xs)"

definition arrow :: "int \<Rightarrow> string" where
  "arrow mode = (if mode = O_RDONLY then ''<'' else if mode = O_WRONLY + O_CREATE + O_TRUNC then ''>'' else ''>>'')"

fun show_cmd :: "nat \<Rightarrow> string cmd \<Rightarrow> string" where
  "show_cmd p (EXEC ws) = concat (map (\<lambda>w. w @ '' '') ws)"
| "show_cmd p (REDIR c f mode fd) = show_cmd 3 c @ arrow mode @ f @ '' ''"
| "show_cmd p (PIPE l r) = paren (p > 2) (show_cmd 3 l @ ''|'' @ show_cmd 2 r)"
| "show_cmd p (BACK c) = paren (p > 1) (show_cmd 1 c @ ''&'')"
| "show_cmd p (LIST l r) = paren (p > 0) (show_cmd 1 l @ '';'' @ show_cmd 0 r)"

text \<open>The commands that can be written: words without special characters, and the three kinds of redirection.\<close>

definition is_word :: "string \<Rightarrow> bool" where
  "is_word w \<longleftrightarrow> w \<noteq> [] \<and> (\<forall>c \<in> set w. wordchar c \<and> c \<noteq> NUL)"

fun modes_ok :: "'w cmd \<Rightarrow> bool" where
  "modes_ok (EXEC ws) \<longleftrightarrow> True"
| "modes_ok (REDIR c f mode fd) \<longleftrightarrow> modes_ok c
     \<and> (mode, fd) \<in> {(O_RDONLY, 0), (O_WRONLY + O_CREATE + O_TRUNC, 1), (O_WRONLY + O_CREATE, 1)}"
| "modes_ok (PIPE l r) \<longleftrightarrow> modes_ok l \<and> modes_ok r"
| "modes_ok (LIST l r) \<longleftrightarrow> modes_ok l \<and> modes_ok r"
| "modes_ok (BACK c) \<longleftrightarrow> modes_ok c"

definition writable :: "string cmd \<Rightarrow> bool" where
  "writable c \<longleftrightarrow> fits c \<and> modes_ok c \<and> (\<forall>w \<in> set_cmd c. is_word w)"

section \<open>Reading text\<close>

definition rest :: "string \<Rightarrow> nat \<Rightarrow> nat \<Rightarrow> string" where
  "rest b es s = map (chr_at b) [s..<es]"

abbreviation (input) trim :: "string \<Rightarrow> string" where
  "trim xs \<equiv> dropWhile (\<lambda>c. c \<in> set whitespace) xs"

lemma rest_Nil [simp]: "rest b es s = [] \<longleftrightarrow> es \<le> s"
  by (auto simp: rest_def)

lemma rest_end [simp]: "rest b es es = []"
  by (simp add: rest_def)

lemma rest_step: "s < es \<Longrightarrow> rest b es s = chr_at b s # rest b es (Suc s)"
  by (simp add: rest_def upt_conv_Cons)

lemma rest_ConsD: "rest b es s = c # xs \<Longrightarrow> s < es \<and> chr_at b s = c \<and> rest b es (Suc s) = xs"
  by (cases "s < es") (auto simp: rest_step, simp add: rest_def)

lemma rest_appendD:
  assumes "rest b es s = xs @ ys" "s \<le> es"
  shows "s + length xs \<le> es" "rest b es (s + length xs) = ys" "map (chr_at b) [s..<s + length xs] = xs"
proof -
  have "length (rest b es s) = es - s" by (simp add: rest_def)
  then show le: "s + length xs \<le> es" using assms by simp
  then have "[s..<es] = [s..<s + length xs] @ [s + length xs..<es]"
    using upt_add_eq_append [of s "s + length xs" "es - (s + length xs)"] by simp
  then have "rest b es s = map (chr_at b) [s..<s + length xs] @ rest b es (s + length xs)"
    unfolding rest_def by (simp only: map_append)
  then show "rest b es (s + length xs) = ys" "map (chr_at b) [s..<s + length xs] = xs"
    using assms(1) by (auto simp: append_eq_append_conv)
qed

lemma rest_skip: "s \<le> es \<Longrightarrow> rest b es (skip P b es s) = dropWhile P (rest b es s)"
proof (induction P b es s rule: skip.induct)
  case (1 P b es s)
  show ?case
  proof (cases "s < es \<and> P (chr_at b s)")
    case True
    then have "skip P b es s = skip P b es (Suc s)" by (simp add: skip.simps [of P b es s])
    then show ?thesis using 1 True by (simp add: rest_step [of s])
  next
    case False
    then have "skip P b es s = s" by (auto simp: skip.simps [of P b es s])
    then show ?thesis using 1 False by (cases "s < es") (simp_all add: rest_step [of s])
  qed
qed

lemma skip_word:
  assumes "rest b es s = w @ ys" "s \<le> es" "\<forall>c \<in> set w. P c" "ys = [] \<or> \<not> P (hd ys)"
  shows "skip P b es s = s + length w"
proof -
  have "dropWhile P (w @ ys) = ys" using assms(3,4) by (cases ys) auto
  then have "rest b es (skip P b es s) = ys" using rest_skip [OF assms(2), of b P] assms(1) by simp
  moreover have "length (rest b es (skip P b es s)) = es - skip P b es s" "length (rest b es s) = es - s" by (simp_all add: rest_def)
  ultimately show ?thesis using assms(1) rest_appendD(1) [OF assms(1,2)] skip_bounds(2) [OF assms(2), of P b] by simp
qed

text \<open>A parser that does not panic, and satisfies \<open>Q\<close> where it is not cut off.\<close>

definition reads :: "'a parser \<Rightarrow> nat \<Rightarrow> ('a \<Rightarrow> nat \<Rightarrow> bool) \<Rightarrow> bool" where
  "reads p s Q \<longleftrightarrow> (case p s of None \<Rightarrow> True | Some (Inl _) \<Rightarrow> False | Some (Inr (a, s')) \<Rightarrow> Q a s')"

lemma reads_pret: "Q a s \<Longrightarrow> reads (pret a) s Q"
  by (simp add: reads_def pret_def)

lemma reads_pbnd: "reads p s (\<lambda>a s'. reads (f a) s' Q) \<Longrightarrow> reads (pbnd p f) s Q"
  by (auto simp: reads_def pbnd_def split: option.splits sum.splits)

lemma reads_mono: "reads p s Q \<Longrightarrow> (\<And>a s'. Q a s' \<Longrightarrow> R a s') \<Longrightarrow> reads p s R"
  by (auto simp: reads_def split: option.splits sum.splits)

lemma reads_none: "reads (\<lambda>s. None) s Q"
  by (simp add: reads_def)

lemma reads_peek:
  assumes "line b es" "s \<le> es" "trim (rest b es s) = ys"
    and "\<And>s'. s' \<le> es \<Longrightarrow> rest b es s' = ys \<Longrightarrow> Q (ys \<noteq> [] \<and> hd ys \<in> set toks) s'"
  shows "reads (peek b es toks) s Q"
proof -
  let ?s = "skip (\<lambda>c. c \<in> set whitespace) b es s"
  have s: "?s \<le> es" "rest b es ?s = ys" using skip_bounds [OF assms(2)] rest_skip [OF assms(2)] assms(3) by auto
  have "(chr_at b ?s \<noteq> NUL \<and> chr_at b ?s \<in> set toks) = (ys \<noteq> [] \<and> hd ys \<in> set toks)"
  proof (cases "?s < es")
    case True
    then show ?thesis using s assms(1) by (auto simp: rest_step line_def)
  next
    case False
    then show ?thesis using s assms(1) by (auto simp: line_def)
  qed
  then show ?thesis using assms(4) [OF s] by (simp add: reads_def peek_def Let_def)
qed

text \<open>The tokens.\<close>

lemma token_start:
  assumes "line b es" "s \<le> es" "trim (rest b es s) = c # k" "q = skip (\<lambda>c. c \<in> set whitespace) b es s"
  shows "q < es" "chr_at b q = c" "rest b es q = c # k" "rest b es (Suc q) = k" "c \<notin> set whitespace" "c \<noteq> NUL"
proof -
  have r: "rest b es q = c # k" using rest_skip [OF assms(2)] assms(3,4) by simp
  from rest_ConsD [OF r] show q: "q < es" "chr_at b q = c" "rest b es (Suc q) = k" by auto
  show "rest b es q = c # k" by (rule r)
  show "c \<notin> set whitespace" using assms(3) by (auto simp: dropWhile_eq_Cons_conv)
  show "c \<noteq> NUL" using q assms(1) by (auto simp: line_def)
qed

lemma reads_end:
  assumes "line b es" "s \<le> es" "trim (rest b es s) = []" "\<And>w s'. s' \<le> es \<Longrightarrow> rest b es s' = [] \<Longrightarrow> Q (NUL, w) s'"
  shows "reads (gettoken b es) s Q"
proof -
  let ?q = "skip (\<lambda>c. c \<in> set whitespace) b es s"
  have "es \<le> ?q" using rest_skip [OF assms(2), of b "\<lambda>c. c \<in> set whitespace"] assms(3) by simp
  then have q: "?q = es" using skip_bounds(2) [OF assms(2), of "\<lambda>c. c \<in> set whitespace" b] by simp
  then have "gettoken b es s = Some (Inr ((NUL, es, es), es))"
    using assms(1) by (simp add: gettoken_def Let_def line_def) (simp add: skip.simps)
  then show ?thesis by (simp add: reads_def assms(4))
qed

lemma reads_symbol:
  assumes "line b es" "s \<le> es" "trim (rest b es s) = c # k" "c \<in> set ''|();&<''"
    and "\<And>w s'. s' \<le> es \<Longrightarrow> rest b es s' = trim k \<Longrightarrow> Q (c, w) s'"
  shows "reads (gettoken b es) s Q"
proof -
  let ?ws = "\<lambda>c. c \<in> set whitespace"
  define q where "q = skip ?ws b es s"
  note q = token_start [OF assms(1,2,3) q_def]
  have "gettoken b es s = Some (Inr ((c, q, q + 1), skip ?ws b es (q + 1)))"
    using q assms(4) by (simp add: gettoken_def Let_def q_def [symmetric])
  moreover have "rest b es (skip ?ws b es (q + 1)) = trim k" "skip ?ws b es (q + 1) \<le> es"
    using q rest_skip [of "q + 1" es b] skip_bounds(2) [of "q + 1" es] by simp_all
  ultimately show ?thesis by (simp add: reads_def assms(5))
qed

lemma reads_gt:
  assumes "line b es" "s \<le> es" "trim (rest b es s) = CHR ''>'' # k" "k = [] \<or> hd k \<noteq> CHR ''>''"
    and "\<And>w s'. s' \<le> es \<Longrightarrow> rest b es s' = trim k \<Longrightarrow> Q (CHR ''>'', w) s'"
  shows "reads (gettoken b es) s Q"
proof -
  let ?ws = "\<lambda>c. c \<in> set whitespace"
  define q where "q = skip ?ws b es s"
  note q = token_start [OF assms(1,2,3) q_def]
  have "chr_at b (q + 1) \<noteq> CHR ''>''"
  proof (cases "q + 1 < es")
    case True
    then show ?thesis using q(4) assms(4) by (auto simp: rest_step)
  next
    case False
    then have "q + 1 = es" using q(1) by simp
    then show ?thesis using assms(1) by (simp add: line_def)
  qed
  then have "gettoken b es s = Some (Inr ((CHR ''>'', q, q + 1), skip ?ws b es (q + 1)))"
    using q by (simp add: gettoken_def Let_def q_def [symmetric])
  moreover have "rest b es (skip ?ws b es (q + 1)) = trim k" "skip ?ws b es (q + 1) \<le> es"
    using q rest_skip [of "q + 1" es b] skip_bounds(2) [of "q + 1" es] by simp_all
  ultimately show ?thesis by (simp add: reads_def assms(5))
qed

lemma reads_gtgt:
  assumes "line b es" "s \<le> es" "trim (rest b es s) = CHR ''>'' # CHR ''>'' # k"
    and "\<And>w s'. s' \<le> es \<Longrightarrow> rest b es s' = trim k \<Longrightarrow> Q (CHR ''+'', w) s'"
  shows "reads (gettoken b es) s Q"
proof -
  let ?ws = "\<lambda>c. c \<in> set whitespace"
  define q where "q = skip ?ws b es s"
  note q = token_start [OF assms(1,2,3) q_def]
  have two: "Suc q < es" "chr_at b (Suc q) = CHR ''>''" "rest b es (q + 2) = k" using rest_ConsD [OF q(4)] by simp_all
  then have "gettoken b es s = Some (Inr ((CHR ''+'', q, q + 2), skip ?ws b es (q + 2)))"
    using q by (simp add: gettoken_def Let_def q_def [symmetric])
  moreover have "rest b es (skip ?ws b es (q + 2)) = trim k" "skip ?ws b es (q + 2) \<le> es"
    using two rest_skip [of "q + 2" es b] skip_bounds(2) [of "q + 2" es] by simp_all
  ultimately show ?thesis by (simp add: reads_def assms(4))
qed

lemma reads_word:
  assumes "line b es" "s \<le> es" "trim (rest b es s) = w @ k" "is_word w" "k = [] \<or> \<not> wordchar (hd k)"
    and "\<And>q eq s'. s' \<le> es \<Longrightarrow> rest b es s' = trim k \<Longrightarrow> span_text b (q, eq) = w \<Longrightarrow> Q (CHR ''a'', q, eq) s'"
  shows "reads (gettoken b es) s Q"
proof -
  let ?ws = "\<lambda>c. c \<in> set whitespace"
  define q where "q = skip ?ws b es s"
  obtain c v where w: "w = c # v" using assms(4) by (cases w) (auto simp: is_word_def)
  note q = token_start [OF assms(1,2) _ q_def, of c "v @ k"]
  have c: "wordchar c" using assms(4) w by (simp add: is_word_def)
  have e: "skip wordchar b es q = q + length w"
    using assms(3-5) q w by (intro skip_word) (auto simp: is_word_def)
  have le: "q + length w \<le> es" and k: "rest b es (q + length w) = k" and t: "map (chr_at b) [q..<q + length w] = w"
    using rest_appendD [of b es q w k] q assms(3) w by auto
  have "gettoken b es s = Some (Inr ((CHR ''a'', q, q + length w), skip ?ws b es (q + length w)))"
    using q assms(3) w c e unfolding gettoken_def Let_def q_def [symmetric]
    by (auto simp: wordchar_def symbols_def)
  moreover have "rest b es (skip ?ws b es (q + length w)) = trim k" "skip ?ws b es (q + length w) \<le> es"
    using k rest_skip [OF le] skip_bounds(2) [OF le] by simp_all
  moreover have "span_text b (q, q + length w) = w" using t by (simp add: span_text_def)
  ultimately show ?thesis by (simp add: reads_def assms(6))
qed

section \<open>Parsing what was written\<close>

abbreviation (input) view :: "string \<Rightarrow> span cmd \<Rightarrow> string cmd" where
  "view b \<equiv> map_cmd (span_text b)"

text \<open>A text that is empty up to whitespace or goes on with one of the characters \<open>F\<close>.\<close>

definition follow :: "string \<Rightarrow> string \<Rightarrow> bool" where
  "follow F k \<longleftrightarrow> trim k = [] \<or> hd (trim k) \<in> set F"

definition accepts :: "string \<Rightarrow> nat \<Rightarrow> string \<Rightarrow> span cmd parser \<Rightarrow> string \<Rightarrow> string cmd \<Rightarrow> bool" where
  "accepts b es F p X c \<longleftrightarrow> (\<forall>s k. s \<le> es \<longrightarrow> trim (rest b es s) = trim (X @ k) \<longrightarrow> follow F k \<longrightarrow>
     reads p s (\<lambda>t s'. s' \<le> es \<and> rest b es s' = trim k \<and> view b t = c))"

fun redir_text :: "string \<times> int \<times> int \<Rightarrow> string" where
  "redir_text (f, mode, fd) = arrow mode @ f @ '' ''"

fun redir_ok :: "string \<times> int \<times> int \<Rightarrow> bool" where
  "redir_ok (f, mode, fd) \<longleftrightarrow> is_word f
     \<and> (mode, fd) \<in> {(O_RDONLY, 0), (O_WRONLY + O_CREATE + O_TRUNC, 1), (O_WRONLY + O_CREATE, 1)}"

definition wrap :: "(string \<times> int \<times> int) list \<Rightarrow> string cmd \<Rightarrow> string cmd" where
  "wrap rs c = foldl (\<lambda>c (f, mode, fd). REDIR c f mode fd) c rs"

lemma wrap_simps [simp]: "wrap [] c = c" "wrap ((f, mode, fd) # rs) c = wrap rs (REDIR c f mode fd)"
  by (simp_all add: wrap_def)

lemma word_head: "is_word w \<Longrightarrow> w \<noteq> [] \<and> wordchar (hd w) \<and> hd w \<notin> set whitespace \<and> hd w \<notin> set symbols"
  by (cases w) (auto simp: is_word_def wordchar_def)

lemma trim_word: "is_word w \<Longrightarrow> trim (w @ k) = w @ k"
  using word_head [of w] by (cases w) auto

lemma sp_ws [simp]: "CHR '' '' \<in> set whitespace"
  by (simp add: whitespace_def)

lemma not_wordchar [simp]: "\<not> wordchar (CHR '' '')"
  by (simp add: wordchar_def whitespace_def)

lemma sym_not_ws [simp]:
  "CHR ''<'' \<notin> set whitespace" "CHR ''>'' \<notin> set whitespace" "CHR ''|'' \<notin> set whitespace" "CHR ''&'' \<notin> set whitespace"
  "CHR '';'' \<notin> set whitespace" "CHR ''('' \<notin> set whitespace" "CHR '')'' \<notin> set whitespace"
  by (simp_all add: whitespace_def)

lemma trim_arrow: "trim (arrow mode @ k) = arrow mode @ k"
  by (simp add: arrow_def)

lemma reads_redirs_loop:
  assumes "line b es" "s \<le> es" "trim (rest b es s) = trim (concat (map redir_text rs) @ k)" "\<forall>r \<in> set rs. redir_ok r"
    and "trim k = [] \<or> hd (trim k) \<notin> set ''<>''"
    and "\<And>t' s'. s' \<le> es \<Longrightarrow> rest b es s' = trim k \<Longrightarrow> view b t' = wrap rs (view b t) \<Longrightarrow> Q t' s'"
  shows "reads (redirs_loop b es n t) s Q"
  using assms(2-4,6)
proof (induction rs arbitrary: n s t)
  case Nil
  show ?case
  proof (cases n)
    case (Suc m)
    show ?thesis
      unfolding Suc redirs_loop.simps
      by (rule reads_pbnd, rule reads_peek [OF assms(1) Nil.prems(1,2)]) (use assms(5) Nil.prems(4) in \<open>auto intro: reads_pret\<close>)
  qed (simp add: reads_none)
next
  case (Cons r rs)
  obtain f mode fd where r: "r = (f, mode, fd)" by (cases r)
  have f: "is_word f" and mode: "(mode, fd) \<in> {(0, 0), (1 + 512 + 1024, 1), (1 + 512, 1)}" and ok: "\<forall>r \<in> set rs. redir_ok r"
    using Cons.prems(3) r by auto
  let ?more = "concat (map redir_text rs) @ k"
  have txt0: "trim (rest b es s) = arrow mode @ f @ '' '' @ ?more"
    using Cons.prems(2) r by (simp add: trim_arrow)
  define tok where "tok = (if mode = 0 then CHR ''<'' else if mode = 1 + 512 + 1024 then CHR ''>'' else CHR ''+'')"
  have sym: "reads (gettoken b es) s' R"
    if "s' \<le> es" "rest b es s' = arrow mode @ f @ '' '' @ ?more"
      "\<And>w s''. s'' \<le> es \<Longrightarrow> rest b es s'' = f @ '' '' @ ?more \<Longrightarrow> R (tok, w) s''" for s' R
  proof -
    have tr: "trim (rest b es s') = rest b es s'" unfolding that(2) by (rule trim_arrow)
    have ff: "trim (f @ '' '' @ ?more) = f @ '' '' @ ?more" by (rule trim_word [OF f])
    have gt: "f @ '' '' @ ?more = [] \<or> hd (f @ '' '' @ ?more) \<noteq> CHR ''>''"
      using word_head [OF f] by (cases f) (auto simp: symbols_def)
    consider "mode = 0" | "mode = 1 + 512 + 1024" | "mode = 1 + 512" using mode by auto
    then show ?thesis
    proof cases
      case 1
      then show ?thesis
        by (intro reads_symbol [OF assms(1) that(1), of "CHR ''<''" "f @ '' '' @ ?more"])
          (use that tr ff in \<open>simp_all add: arrow_def tok_def\<close>)
    next
      case 2
      then show ?thesis
        by (intro reads_gt [OF assms(1) that(1) _ gt]) (use that tr ff in \<open>simp_all add: arrow_def tok_def\<close>)
    next
      case 3
      then show ?thesis
        by (intro reads_gtgt [OF assms(1) that(1), of "f @ '' '' @ ?more"])
          (use that tr ff in \<open>simp_all add: arrow_def tok_def\<close>)
    qed
  qed
  show ?case
  proof (cases n)
    case (Suc m)
    let ?t = "redir_switch tok t"
    have t: "view b (?t w) = REDIR (view b t) (span_text b w) mode fd" for w
      using mode by (auto simp: redir_switch_def tok_def redircmd_def)
    have rec: "reads (redirs_loop b es m (?t w)) s' Q"
      if "s' \<le> es" "rest b es s' = trim ?more" "span_text b w = f" for w s'
      using that by (intro Cons.IH ok Cons.prems(4)) (auto simp: t r)
    have name: "reads (gettoken b es) s' (\<lambda>x s'. reads (case x of (a, file) \<Rightarrow>
        if a \<noteq> CHR ''a'' then ppanic ''missing file for redirection'' else redirs_loop b es m (?t file)) s' Q)"
      if "s' \<le> es" "rest b es s' = f @ '' '' @ ?more" for s'
      using that trim_word [OF f, of "'' '' @ ?more"]
      by (intro reads_word [OF assms(1) that(1) _ f, where k = "'' '' @ ?more"]) (auto intro: rec)
    have "trim (rest b es s) \<noteq> []" "hd (trim (rest b es s)) \<in> set ''<>''" unfolding txt0 by (simp_all add: arrow_def)
    then show ?thesis
      unfolding Suc redirs_loop.simps
      by (intro reads_pbnd reads_peek [OF assms(1) Cons.prems(1) refl])
        (auto simp: txt0 intro!: reads_pbnd sym name)
  qed (simp add: reads_none)
qed

abbreviation (input) args_text :: "string list \<Rightarrow> string" where
  "args_text ws \<equiv> concat (map (\<lambda>w. w @ '' '') ws)"

lemma reads_parseredirs:
  assumes "line b es" "s \<le> es" "trim (rest b es s) = trim (concat (map redir_text rs) @ k)" "\<forall>r \<in> set rs. redir_ok r"
    and "trim k = [] \<or> hd (trim k) \<notin> set ''<>''"
    and "\<And>t' s'. s' \<le> es \<Longrightarrow> rest b es s' = trim k \<Longrightarrow> view b t' = wrap rs (view b t) \<Longrightarrow> Q t' s'"
  shows "reads (parseredirs b es t) s Q"
  unfolding parseredirs_def by (rule reads_redirs_loop [OF assms])

lemma reads_exec_end:
  assumes "line b es" "s \<le> es" "trim (rest b es s) = trim k" "follow ''|)&;'' k"
    and "\<And>s'. s' \<le> es \<Longrightarrow> rest b es s' = trim k \<Longrightarrow> Q t s'"
  shows "reads (exec_loop b es n argc t) s Q"
proof (cases n)
  case (Suc m)
  have stop: "reads (gettoken b es) s' (\<lambda>a s'. reads (case a of (tok, w) \<Rightarrow>
      if tok = NUL then pret t else if tok \<noteq> CHR ''a'' then ppanic ''syntax''
      else if argc + 1 \<ge> 10 then ppanic ''too many args''
      else pbnd (parseredirs b es (add_arg w t)) (\<lambda>r'. exec_loop b es m (argc + 1) r')) s' Q)"
    if "s' \<le> es" "rest b es s' = trim k" "trim k = []" for s'
    using that by (intro reads_end [OF assms(1)]) (auto simp del: dropWhile_eq_Nil_conv rest_Nil intro!: reads_pret assms(5))
  show ?thesis
    unfolding Suc exec_loop.simps
    by (rule reads_pbnd, rule reads_peek [OF assms(1-3)])
      (use assms(4) in \<open>auto simp: follow_def simp del: dropWhile_eq_Nil_conv rest_Nil intro!: reads_pret assms(5) reads_pbnd stop\<close>)
qed (simp add: reads_none)

lemma reads_exec_loop:
  assumes "line b es" "s \<le> es" "trim (rest b es s) = trim (args_text ws @ concat (map redir_text rs) @ k)" "ws \<noteq> []"
    and "\<forall>w \<in> set ws. is_word w" "\<forall>r \<in> set rs. redir_ok r" "follow ''|)&;'' k" "argc + length ws < MAXARGS"
    and "view b t = EXEC vs"
    and "\<And>t' s'. s' \<le> es \<Longrightarrow> rest b es s' = trim k \<Longrightarrow> view b t' = wrap rs (EXEC (vs @ ws)) \<Longrightarrow> Q t' s'"
  shows "reads (exec_loop b es n argc t) s Q"
  using assms(2-5,8-)
proof (induction ws arbitrary: n s argc t vs)
  case (Cons w ws)
  let ?more = "args_text ws @ concat (map redir_text rs) @ k"
  have w: "is_word w" using Cons.prems by simp
  have txt0: "trim (rest b es s) = w @ '' '' @ ?more" using Cons.prems(2) trim_word [OF w] by simp
  have no: "hd (w @ '' '' @ ?more) \<notin> set ''|)&;''"
    using word_head [OF w] by (cases w) (auto simp: symbols_def)
  have add: "view b (add_arg (q, eq) t) = EXEC (vs @ [w])" if "span_text b (q, eq) = w" for q eq
    using Cons.prems(6) that by (cases t) auto
  have red: "reads (parseredirs b es (add_arg (q, eq) t)) s' (\<lambda>r' s'. reads (exec_loop b es m (Suc argc) r') s' Q)"
    if "s' \<le> es" "rest b es s' = trim ?more" "span_text b (q, eq) = w" for q eq s' m
  proof (cases "ws = []")
    case True
    have "trim k = [] \<or> hd (trim k) \<notin> set ''<>''" using assms(7) by (auto simp: follow_def)
    then show ?thesis
      using that True
      by (intro reads_parseredirs [OF assms(1) that(1) _ assms(6)] reads_exec_end [OF assms(1) _ _ assms(7)])
        (auto simp: add intro: Cons.prems(7))
  next
    case False
    then obtain v vs' where ws: "ws = v # vs'" by (cases ws) auto
    then have v: "is_word v" using Cons.prems(4) by simp
    have "hd (trim ?more) \<notin> set ''<>''"
      using word_head [OF v] trim_word [OF v] ws by (cases v) (auto simp: symbols_def)
    then show ?thesis
      using that False Cons.prems(4,5)
      by (intro reads_parseredirs [where rs = "[]" and k = ?more, OF assms(1) that(1)] Cons.IH [where vs = "vs @ [w]"])
        (auto simp: add intro: Cons.prems(7))
  qed
  show ?case
  proof (cases n)
    case (Suc m)
    have word: "reads (gettoken b es) s' (\<lambda>a s'. reads (case a of (tok, w) \<Rightarrow>
        if tok = NUL then pret t else if tok \<noteq> CHR ''a'' then ppanic ''syntax''
        else if argc + 1 \<ge> 10 then ppanic ''too many args''
        else pbnd (parseredirs b es (add_arg w t)) (\<lambda>r'. exec_loop b es m (argc + 1) r')) s' Q)"
      if "s' \<le> es" "rest b es s' = w @ '' '' @ ?more" for s'
      using that trim_word [OF w, of "'' '' @ ?more"] Cons.prems(5)
      by (intro reads_word [OF assms(1) that(1) _ w, where k = "'' '' @ ?more"]) (auto intro!: reads_pbnd red)
    show ?thesis
      unfolding Suc exec_loop.simps
      by (rule reads_pbnd, rule reads_peek [OF assms(1) Cons.prems(1) txt0])
        (use no in \<open>auto intro!: reads_pbnd word\<close>)
  qed (simp add: reads_none)
qed simp

text \<open>The levels of the grammar.\<close>

lemma head_args:
  assumes "\<forall>w \<in> set ws. is_word w" "ws \<noteq> []"
  shows "trim (args_text ws @ k) \<noteq> []" "wordchar (hd (trim (args_text ws @ k)))"
proof -
  obtain w vs where ws: "ws = w # vs" using assms(2) by (cases ws) auto
  then have w: "is_word w" using assms(1) by simp
  then obtain c v where c: "w = c # v" by (cases w) (auto simp: is_word_def)
  have "trim (args_text ws @ k) = w @ '' '' @ args_text vs @ k" using trim_word [OF w] by (simp add: ws)
  then show "trim (args_text ws @ k) \<noteq> []" "wordchar (hd (trim (args_text ws @ k)))"
    using word_head [OF w] by (simp_all only: c) simp_all
qed

lemma head_redirs:
  assumes "rs \<noteq> []"
  shows "trim (concat (map redir_text rs) @ k) \<noteq> []" "hd (trim (concat (map redir_text rs) @ k)) \<in> set ''<>''"
proof -
  obtain f mode fd qs where rs: "rs = (f, mode, fd) # qs" using assms by (cases rs) auto
  have "trim (concat (map redir_text rs) @ k) = arrow mode @ f @ '' '' @ concat (map redir_text qs) @ k"
    using trim_arrow by (simp add: rs)
  then show "trim (concat (map redir_text rs) @ k) \<noteq> []" "hd (trim (concat (map redir_text rs) @ k)) \<in> set ''<>''"
    by (simp_all only:) (simp_all add: arrow_def)
qed

lemma accepts_simple:
  assumes "line b es" "\<forall>w \<in> set ws. is_word w" "\<forall>r \<in> set rs. redir_ok r" "length ws < MAXARGS"
  shows "accepts b es ''|)&;'' (parseexec pl b es) (args_text ws @ concat (map redir_text rs)) (wrap rs (EXEC ws))"
  unfolding accepts_def
proof (intro allI impI)
  fix s k
  let ?X = "args_text ws @ concat (map redir_text rs)"
  let ?P = "\<lambda>t s'. s' \<le> es \<and> rest b es s' = trim k \<and> view b t = wrap rs (EXEC ws)"
  assume s: "s \<le> es" and txt0: "trim (rest b es s) = trim (?X @ k)" and k: "follow ''|)&;'' k"
  have stop: "trim k = [] \<or> hd (trim k) \<notin> set ''<>''" "trim k = [] \<or> hd (trim k) \<noteq> CHR ''(''"
    using k by (auto simp: follow_def)
  have head: "ws \<noteq> [] \<Longrightarrow> wordchar (hd (trim (?X @ k)))" "ws = [] \<Longrightarrow> rs \<noteq> [] \<Longrightarrow> hd (trim (?X @ k)) \<in> set ''<>''"
    "ws \<noteq> [] \<or> rs \<noteq> [] \<Longrightarrow> trim (?X @ k) \<noteq> []"
    using head_args [OF assms(2), of "concat (map redir_text rs) @ k"] head_redirs [of rs k] by auto
  have open1: "\<not> (trim (?X @ k) \<noteq> [] \<and> hd (trim (?X @ k)) \<in> set ''('')"
    using head stop(2) by (cases "ws = []"; cases "rs = []") (auto simp: wordchar_def symbols_def)
  show "reads (parseexec pl b es) s ?P"
  proof (cases "ws = []")
    case True
    have "reads (parseredirs b es execcmd) s' (\<lambda>r s'. reads (exec_loop b es (Suc es) 0 r) s' ?P)"
      if "s' \<le> es" "rest b es s' = trim (?X @ k)" for s'
      using that True stop
      by (intro reads_parseredirs [OF assms(1) that(1) _ assms(3)] reads_exec_end [OF assms(1) _ _ k]) (auto simp: execcmd_def)
    then show ?thesis
      unfolding parseexec_def using open1
      by (intro reads_pbnd reads_peek [OF assms(1) s txt0]) (auto intro!: reads_pbnd)
  next
    case False
    have nored: "hd (trim (?X @ k)) \<notin> set ''<>''" using head(1) [OF False] by (auto simp: wordchar_def symbols_def)
    have "reads (parseredirs b es execcmd) s' (\<lambda>r s'. reads (exec_loop b es (Suc es) 0 r) s' ?P)"
      if "s' \<le> es" "rest b es s' = trim (?X @ k)" for s'
      using that nored False assms(4)
      by (intro reads_parseredirs [where rs = "[]" and k = "?X @ k", OF assms(1) that(1)]
          reads_exec_loop [where vs = "[]", OF assms(1) _ _ False assms(2,3) k]) (auto simp: execcmd_def)
    then show ?thesis
      unfolding parseexec_def using open1
      by (intro reads_pbnd reads_peek [OF assms(1) s txt0]) (auto intro!: reads_pbnd)
  qed
qed

lemma acceptsD:
  assumes "accepts b es F p X c" "s \<le> es" "trim (rest b es s) = trim (X @ k)" "follow F k"
    and "\<And>t s'. s' \<le> es \<Longrightarrow> rest b es s' = trim k \<Longrightarrow> view b t = c \<Longrightarrow> Q t s'"
  shows "reads p s Q"
  by (rule reads_mono [OF assms(1) [unfolded accepts_def, rule_format, OF assms(2-4)]], elim conjE, rule assms(5))

lemma follow_symbol: "c \<in> set F \<Longrightarrow> c \<in> set symbols \<Longrightarrow> follow F (c # k)"
  by (auto simp: follow_def symbols_def)

lemma accepts_block:
  assumes "line b es" "accepts b es '')'' pl X c" "\<forall>r \<in> set rs. redir_ok r"
  shows "accepts b es ''|)&;'' (parseexec pl b es) (''('' @ X @ '')'' @ concat (map redir_text rs)) (wrap rs c)"
  unfolding accepts_def
proof (intro allI impI)
  fix s k
  let ?R = "concat (map redir_text rs) @ k"
  let ?P = "\<lambda>t s'. s' \<le> es \<and> rest b es s' = trim k \<and> view b t = wrap rs c"
  assume s: "s \<le> es" and txt0: "trim (rest b es s) = trim ((''('' @ X @ '')'' @ concat (map redir_text rs)) @ k)"
    and k: "follow ''|)&;'' k"
  have stop: "trim k = [] \<or> hd (trim k) \<notin> set ''<>''" using k by (auto simp: follow_def)
  have open1: "trim (rest b es s) = CHR ''('' # X @ '')'' @ ?R" using txt0 by simp
  have redirs: "reads (gettoken b es) s' (\<lambda>_ s'. reads (parseredirs b es t) s' ?P)"
    if "s' \<le> es" "rest b es s' = trim ('')'' @ ?R)" "view b t = c" for s' t
    using that by (intro reads_symbol [OF assms(1) that(1), of "CHR '')''" ?R] reads_parseredirs [OF assms(1) _ _ assms(3) stop]) simp_all
  have inner: "reads pl s' (\<lambda>cmd s'. reads (pbnd (peek b es '')'') (\<lambda>closed. if \<not> closed then ppanic ''syntax - missing )''
      else pbnd (gettoken b es) (\<lambda>_. parseredirs b es cmd))) s' ?P)"
    if "s' \<le> es" "rest b es s' = trim (X @ '')'' @ ?R)" for s'
  proof (rule acceptsD [OF assms(2) that(1)])
    show "trim (rest b es s') = trim (X @ '')'' @ ?R)" using that(2) by simp
    show "follow '')'' ('')'' @ ?R)" by (simp add: follow_def)
    fix t s''
    assume "s'' \<le> es" "rest b es s'' = trim ('')'' @ ?R)" "view b t = c"
    then show "reads (pbnd (peek b es '')'') (\<lambda>closed. if \<not> closed then ppanic ''syntax - missing )''
      else pbnd (gettoken b es) (\<lambda>_. parseredirs b es t))) s'' ?P"
      by (intro reads_pbnd reads_peek [OF assms(1), of _ "'')'' @ ?R"]) (simp_all, intro reads_pbnd redirs, simp_all)
  qed
  have "reads (parseblock pl b es) s' ?P" if "s' \<le> es" "rest b es s' = CHR ''('' # X @ '')'' @ ?R" for s'
  proof -
    have "reads (gettoken b es) s'' (\<lambda>_ s''. reads (pbnd pl (\<lambda>cmd. pbnd (peek b es '')'') (\<lambda>closed.
      if \<not> closed then ppanic ''syntax - missing )'' else pbnd (gettoken b es) (\<lambda>_. parseredirs b es cmd)))) s'' ?P)"
      if "s'' \<le> es" "rest b es s'' = CHR ''('' # X @ '')'' @ ?R" for s''
      using that by (intro reads_symbol [OF assms(1) that(1), of "CHR ''(''" "X @ '')'' @ ?R"] reads_pbnd inner) simp_all
    then show ?thesis
      unfolding parseblock_def
      by (intro reads_pbnd reads_peek [OF assms(1) that(1), of "CHR ''('' # X @ '')'' @ ?R"]) (use that in \<open>auto intro!: reads_pbnd\<close>)
  qed
  then show "reads (parseexec pl b es) s ?P"
    unfolding parseexec_def by (intro reads_pbnd reads_peek [OF assms(1) s open1]) auto
qed

lemma accepts_pipe_single:
  assumes "line b es" "accepts b es ''|)&;'' (parseexec pl b es) X c"
  shows "accepts b es '')&;'' (pipe_loop pl b es n) X c"
  unfolding accepts_def
proof (intro allI impI)
  fix s k
  assume s: "s \<le> es" and txt0: "trim (rest b es s) = trim (X @ k)" and k: "follow '')&;'' k"
  have k': "follow ''|)&;'' k" "\<not> (trim k \<noteq> [] \<and> hd (trim k) \<in> set ''|'')" using k by (auto simp: follow_def)
  show "reads (pipe_loop pl b es n) s (\<lambda>t s'. s' \<le> es \<and> rest b es s' = trim k \<and> view b t = c)"
  proof (cases n)
    case (Suc m)
    then show ?thesis
      using k' by (auto intro!: reads_pbnd reads_pret acceptsD [OF assms(2) s txt0 k'(1)] reads_peek [OF assms(1)]
          simp del: dropWhile_eq_Nil_conv)
  qed (simp add: reads_none)
qed

lemma accepts_pipe:
  assumes "line b es" "accepts b es ''|)&;'' (parseexec pl b es) X c" "\<And>n. accepts b es '')&;'' (pipe_loop pl b es n) Y d"
  shows "accepts b es '')&;'' (pipe_loop pl b es n) (X @ ''|'' @ Y) (PIPE c d)"
  unfolding accepts_def
proof (intro allI impI)
  fix s k
  let ?P = "\<lambda>t s'. s' \<le> es \<and> rest b es s' = trim k \<and> view b t = PIPE c d"
  assume s: "s \<le> es" and txt0: "trim (rest b es s) = trim ((X @ ''|'' @ Y) @ k)" and k: "follow '')&;'' k"
  have bar: "reads (gettoken b es) s' (\<lambda>_ s'. reads (pbnd (pipe_loop pl b es m) (\<lambda>right. pret (pipecmd t right))) s' ?P)"
    if "s' \<le> es" "rest b es s' = ''|'' @ Y @ k" "view b t = c" for s' t m
    using that
    by (intro reads_symbol [OF assms(1) that(1), of "CHR ''|''" "Y @ k"] reads_pbnd acceptsD [OF assms(3) _ _ k] reads_pret)
      (auto simp: pipecmd_def)
  show "reads (pipe_loop pl b es n) s ?P"
  proof (cases n)
    case (Suc m)
    have "reads (parseexec pl b es) s (\<lambda>cmd s'. reads (pbnd (peek b es ''|'') (\<lambda>more. if more
        then pbnd (gettoken b es) (\<lambda>_. pbnd (pipe_loop pl b es m) (\<lambda>right. pret (pipecmd cmd right))) else pret cmd)) s' ?P)"
    proof (rule acceptsD [OF assms(2) s, of "''|'' @ Y @ k"])
      fix t s'
      assume "s' \<le> es" "rest b es s' = trim (''|'' @ Y @ k)" "view b t = c"
      then show "reads (pbnd (peek b es ''|'') (\<lambda>more. if more
          then pbnd (gettoken b es) (\<lambda>_. pbnd (pipe_loop pl b es m) (\<lambda>right. pret (pipecmd t right))) else pret t)) s' ?P"
        by (intro reads_pbnd reads_peek [OF assms(1), of _ "''|'' @ Y @ k"]) (simp_all, intro reads_pbnd bar, simp_all)
    qed (use txt0 in \<open>simp_all add: follow_def\<close>)
    then show ?thesis unfolding Suc pipe_loop.simps by (rule reads_pbnd)
  qed (simp add: reads_none)
qed

text \<open>The commands that end with \<open>m\<close> times \<^verbatim>\<open>&\<close>.\<close>

lemma reads_back_loop:
  assumes "line b es" "s \<le> es" "trim (rest b es s) = trim (replicate m (CHR ''&'') @ k)" "follow '');'' k"
    and "\<And>t' s'. s' \<le> es \<Longrightarrow> rest b es s' = trim k \<Longrightarrow> view b t' = (BACK ^^ m) (view b t) \<Longrightarrow> Q t' s'"
  shows "reads (back_loop b es n t) s Q"
  using assms(2,3,5)
proof (induction m arbitrary: n s t)
  case 0
  have no: "\<not> (trim k \<noteq> [] \<and> hd (trim k) \<in> set ''&'')" using assms(4) by (auto simp: follow_def)
  show ?case
  proof (cases n)
    case (Suc i)
    then show ?thesis
      unfolding Suc back_loop.simps
      by (intro reads_pbnd reads_peek [OF assms(1) 0(1,2)]) (use no 0 in \<open>auto intro!: reads_pret\<close>)
  qed (simp add: reads_none)
next
  case (Suc m)
  let ?more = "replicate m (CHR ''&'') @ k"
  show ?case
  proof (cases n)
    case (Suc i)
    have rec: "reads (gettoken b es) s' (\<lambda>_ s'. reads (back_loop b es i (backcmd t)) s' Q)"
      if "s' \<le> es" "rest b es s' = CHR ''&'' # ?more" for s'
      using that
      by (intro reads_symbol [OF assms(1) that(1), of "CHR ''&''" ?more] Suc.IH)
        (auto simp: backcmd_def funpow_swap1 intro: Suc.prems(3))
    show ?thesis
      unfolding Suc back_loop.simps
      by (intro reads_pbnd reads_peek [OF assms(1) Suc.prems(1), of "CHR ''&'' # ?more"])
        (use Suc.prems(2) in \<open>auto intro!: reads_pbnd rec\<close>)
  qed (simp add: reads_none)
qed

lemma accepts_line:
  assumes "line b es" "\<And>n. accepts b es '')&;'' (parsepipe (parseline b es n) b es) X c"
  shows "accepts b es '')'' (parseline b es n) (X @ replicate m (CHR ''&'')) ((BACK ^^ m) c)"
  unfolding accepts_def
proof (intro allI impI)
  fix s k
  let ?P = "\<lambda>t s'. s' \<le> es \<and> rest b es s' = trim k \<and> view b t = (BACK ^^ m) c"
  assume s: "s \<le> es" and txt0: "trim (rest b es s) = trim ((X @ replicate m (CHR ''&'')) @ k)" and k: "follow '')'' k"
  have k': "follow '');'' k" "follow '')&;'' (replicate m (CHR ''&'') @ k)" "\<not> (trim k \<noteq> [] \<and> hd (trim k) \<in> set '';'')"
    using k by (cases m; auto simp: follow_def)+
  show "reads (parseline b es n) s ?P"
  proof (cases n)
    case (Suc i)
    show ?thesis
      unfolding Suc parseline.simps
      by (rule reads_pbnd, rule acceptsD [OF assms(2) s _ k'(2)], use txt0 in simp, rule reads_pbnd, rule reads_back_loop [OF assms(1) _ _ k'(1)])
        (use k'(3) in \<open>auto intro!: reads_pbnd reads_peek [OF assms(1)] reads_pret\<close>)
  qed (simp add: reads_none)
qed

lemma accepts_list:
  assumes "line b es" "\<And>n. accepts b es '')&;'' (parsepipe (parseline b es n) b es) X c"
    and "\<And>n. accepts b es '')'' (parseline b es n) Y d"
  shows "accepts b es '')'' (parseline b es n) ((X @ replicate m (CHR ''&'')) @ '';'' @ Y) (LIST ((BACK ^^ m) c) d)"
  unfolding accepts_def
proof (intro allI impI)
  fix s k
  let ?P = "\<lambda>t s'. s' \<le> es \<and> rest b es s' = trim k \<and> view b t = LIST ((BACK ^^ m) c) d"
  assume s: "s \<le> es" and txt0: "trim (rest b es s) = trim (((X @ replicate m (CHR ''&'')) @ '';'' @ Y) @ k)" and k: "follow '')'' k"
  have k': "follow '');'' ('';'' @ Y @ k)" "follow '')&;'' (replicate m (CHR ''&'') @ '';'' @ Y @ k)"
    by (cases m; simp add: follow_def)+
  show "reads (parseline b es n) s ?P"
  proof (cases n)
    case (Suc i)
    have semi: "reads (gettoken b es) s' (\<lambda>_ s'. reads (pbnd (parseline b es i) (\<lambda>right. pret (listcmd t right))) s' ?P)"
      if "s' \<le> es" "rest b es s' = '';'' @ Y @ k" "view b t = (BACK ^^ m) c" for s' t
      using that
      by (intro reads_symbol [OF assms(1) that(1), of "CHR '';''" "Y @ k"] reads_pbnd acceptsD [OF assms(3) _ _ k] reads_pret)
        (auto simp: listcmd_def)
    have more: "reads (pbnd (peek b es '';'') (\<lambda>more. if more
          then pbnd (gettoken b es) (\<lambda>_. pbnd (parseline b es i) (\<lambda>right. pret (listcmd t right))) else pret t)) s' ?P"
      if "s' \<le> es" "rest b es s' = trim ('';'' @ Y @ k)" "view b t = (BACK ^^ m) c" for s' t
      using that by (intro reads_pbnd reads_peek [OF assms(1), of _ "'';'' @ Y @ k"]) (simp_all, intro reads_pbnd semi, simp_all)
    show ?thesis
      unfolding Suc parseline.simps
      by (rule reads_pbnd, rule acceptsD [OF assms(2) s _ k'(2)], use txt0 in simp, rule reads_pbnd, rule reads_back_loop [OF assms(1) _ _ k'(1)])
        (simp_all only: dropWhile_idem, erule (1) more, simp)
  qed (simp add: reads_none)
qed

text \<open>Every command is a pipe with \<^verbatim>\<open>&\<close> behind it, and a simple command or a block with redirections.\<close>

lemma unfold_back:
  obtains m d where "c = (BACK ^^ m) d" "\<And>e. d \<noteq> BACK e" "show_cmd 1 c = show_cmd 2 d @ replicate m (CHR ''&'')"
proof (induction c arbitrary: thesis)
  case (BACK c)
  obtain m d where "c = (BACK ^^ m) d" "\<And>e. d \<noteq> BACK e" "show_cmd 1 c = show_cmd 2 d @ replicate m (CHR ''&'')"
    using BACK.IH by blast
  then show ?case by (intro BACK.prems [of "Suc m" d]) (simp_all add: paren_def replicate_append_same)
next
  case (EXEC ws)
  show ?case by (rule EXEC [of 0 "EXEC ws"]) simp_all
next
  case (REDIR c f mode fd)
  show ?case by (rule REDIR.prems [of 0 "REDIR c f mode fd"]) simp_all
next
  case (PIPE l r)
  show ?case by (rule PIPE.prems [of 0 "PIPE l r"]) (simp_all add: paren_def)
next
  case (LIST l r)
  show ?case by (rule LIST.prems [of 0 "LIST l r"]) (simp_all add: paren_def)
qed

lemma unfold_redirs:
  obtains rs d where "c = wrap rs d" "\<And>e f mode fd. d \<noteq> REDIR e f mode fd"
    "show_cmd 3 c = show_cmd 3 d @ concat (map redir_text rs)"
proof (induction c arbitrary: thesis)
  case (REDIR c f mode fd)
  obtain rs d where "c = wrap rs d" "\<And>e f mode fd. d \<noteq> REDIR e f mode fd"
      "show_cmd 3 c = show_cmd 3 d @ concat (map redir_text rs)"
    using REDIR.IH by blast
  then show ?case by (intro REDIR.prems [of "rs @ [(f, mode, fd)]" d]) (simp_all add: wrap_def)
next
  case (EXEC ws)
  show ?case by (rule EXEC [of "[]" "EXEC ws"]) simp_all
next
  case (PIPE l r)
  show ?case by (rule PIPE.prems [of "[]" "PIPE l r"]) simp_all
next
  case (LIST l r)
  show ?case by (rule LIST.prems [of "[]" "LIST l r"]) simp_all
next
  case (BACK c)
  show ?case by (rule BACK.prems [of "[]" "BACK c"]) simp_all
qed

lemma writable_simps [simp]:
  "writable (EXEC ws) \<longleftrightarrow> length ws < MAXARGS \<and> (\<forall>w \<in> set ws. is_word w)"
  "writable (REDIR c f mode fd) \<longleftrightarrow> writable c \<and> redir_ok (f, mode, fd)"
  "writable (PIPE l r) \<longleftrightarrow> writable l \<and> writable r"
  "writable (LIST l r) \<longleftrightarrow> writable l \<and> writable r"
  "writable (BACK c) \<longleftrightarrow> writable c"
  by (auto simp: writable_def)

lemma writable_wrap: "writable (wrap rs d) \<longleftrightarrow> writable d \<and> (\<forall>r \<in> set rs. redir_ok r)"
  by (induction rs arbitrary: d) (auto simp del: redir_ok.simps)

lemma writable_back: "writable ((BACK ^^ m) d) \<longleftrightarrow> writable d"
  by (induction m) auto

lemma size_wrap: "size d + length rs \<le> size (wrap rs d)"
proof (induction rs arbitrary: d)
  case (Cons r rs)
  obtain f mode fd where r: "r = (f, mode, fd)" by (cases r)
  show ?case using Cons [of "REDIR d f mode fd"] by (simp add: r)
qed simp

lemma size_back: "size ((BACK ^^ m) d) = size d + m"
  by (induction m) auto

lemma accepts_written:
  assumes "line b es" "writable c"
  shows "(\<forall>n. accepts b es ''|)&;'' (parseexec (parseline b es n) b es) (show_cmd 3 c) c)
    \<and> (\<forall>n m. accepts b es '')&;'' (pipe_loop (parseline b es n) b es m) (show_cmd 2 c) c)
    \<and> (\<forall>n. accepts b es '')'' (parseline b es n) (show_cmd 0 c) c)" (is "?E c \<and> ?P c \<and> ?L c")
  using assms(2)
proof (induction c rule: measure_induct_rule [of size])
  case (less c)
  have P: "?P d" if "?E d" "show_cmd 2 d = show_cmd 3 d" for d
    using that accepts_pipe_single [OF assms(1)] by simp
  have pipe: "accepts b es '')&;'' (parsepipe (parseline b es n) b es) (show_cmd 2 d) d" if "?P d" for n d
    using that unfolding parsepipe_def by blast
  have L: "?L d" if "?P d" "show_cmd 0 d = show_cmd 2 d" for d
    using accepts_line [OF assms(1) pipe [OF that(1)], where m = 0] that(2) by simp
  have E: "?E d" if "?L d" "show_cmd 3 d = ''('' @ show_cmd 0 d @ '')''" for d
    using that accepts_block [OF assms(1), of _ _ _ "[]"] by simp
  obtain rs d where c: "c = wrap rs d" and d: "\<And>e f mode fd. d \<noteq> REDIR e f mode fd"
    and s: "show_cmd 3 c = show_cmd 3 d @ concat (map redir_text rs)" by (rule unfold_redirs) blast
  have wd: "writable d" "\<forall>r \<in> set rs. redir_ok r" using less.prems by (simp_all add: c writable_wrap)
  show ?case
  proof (cases c)
    case (EXEC ws)
    then have "?E c" using less.prems accepts_simple [OF assms(1), of ws "[]"] by simp
    then show ?thesis using P [of c] L [of c] EXEC by simp
  next
    case (REDIR e f mode fd)
    then have rs: "rs \<noteq> []" using c d by auto
    have "size d < size c" using rs size_wrap [of d rs] by (cases rs) (simp_all add: c)
    then have IH: "?L d" using less.IH wd by blast
    have block: "?E c" if "show_cmd 3 d = ''('' @ show_cmd 0 d @ '')''"
      using accepts_block [OF assms(1) IH [rule_format] wd(2)] unfolding s that unfolding c by simp
    have "?E c"
    proof (cases d)
      case (EXEC ws)
      then show ?thesis using accepts_simple [OF assms(1), of ws rs] wd s c by simp
    next
      case (REDIR e f mode fd)
      then show ?thesis using d by simp
    qed (rule block, simp add: paren_def)+
    then show ?thesis using P [of c] L [of c] REDIR by simp
  next
    case (PIPE l r)
    then have "?E l" "?P r" using less.IH [of l] less.IH [of r] less.prems by simp_all
    then have "?P c" using accepts_pipe [OF assms(1)] PIPE by (simp add: paren_def)
    then show ?thesis using L [of c] E [of c] PIPE by (simp add: paren_def)
  next
    case (BACK e)
    obtain m d where cd: "c = (BACK ^^ m) d" and nb: "\<And>e. d \<noteq> BACK e"
      and sb: "show_cmd 1 c = show_cmd 2 d @ replicate m (CHR ''&'')" by (rule unfold_back) blast
    have "m \<noteq> 0" using BACK cd nb by (intro notI) simp
    then have "?P d" using less.IH [of d] less.prems cd by (simp add: size_back writable_back)
    moreover have "show_cmd 0 c = show_cmd 1 c" using BACK by (simp add: paren_def)
    ultimately have "?L c" using accepts_line [OF assms(1) pipe, of d _ m] sb cd by metis
    then show ?thesis using E [of c] P [of c] BACK by (simp add: paren_def)
  next
    case (LIST l r)
    obtain m d where cd: "l = (BACK ^^ m) d" and sb: "show_cmd 1 l = show_cmd 2 d @ replicate m (CHR ''&'')" by (rule unfold_back) blast
    have "?P d" "?L r" using less.IH [of d] less.IH [of r] less.prems LIST cd by (simp_all add: size_back writable_back)
    then have "?L c" using accepts_list [OF assms(1) pipe, of d _ _ _ m] LIST cd sb by (simp add: paren_def)
    then show ?thesis using E [of c] P [of c] LIST by (simp add: paren_def)
  qed
qed

lemma parsecmd_written:
  assumes "writable c" "cstring b 0 = show_cmd 0 c @ [CHR 0x0A]"
  shows "\<exists>t b'. parsecmd b = Some (Inr (t, b')) \<and> map_cmd (terminated b') t = c"
proof -
  let ?es = "length (cstring b 0)"
  let ?p = "pbnd (parseline b ?es (Suc ?es)) (\<lambda>cmd. pbnd (peek b ?es []) (\<lambda>_. pret cmd))"
  note line = line_cstring [of b]
  have "rest b ?es 0 = cstring b 0"
    using cstring_eq [of 0 ?es b] line by (simp add: rest_def line_def)
  then have txt0: "trim (rest b ?es 0) = trim (show_cmd 0 c @ [CHR 0x0A])" by (simp add: assms(2))
  have k: "follow '')'' [CHR 0x0A]" "trim [CHR 0x0A] = []" by (simp_all add: follow_def whitespace_def)
  have "accepts b ?es '')'' (parseline b ?es (Suc ?es)) (show_cmd 0 c) c" using accepts_written [OF line assms(1)] by blast
  then have reads: "reads ?p 0 (\<lambda>t s'. s' = ?es \<and> view b t = c)"
    using k by (intro reads_pbnd acceptsD [OF _ _ txt0]) (auto intro!: reads_peek [OF line] reads_pret)
  have "parses ?es ?p 0 (\<lambda>t s'. tree_ok b ?es t)"
    by (intro parses_pbnd parses_mono [OF parses_parseline [OF line]] parses_peek line parses_pret) auto
  then obtain t s' where run: "?p 0 = Some (Inr (t, s'))" and ok: "tree_ok b ?es t"
    using reads by (elim parsesE) (auto simp: reads_def)
  then have t: "s' = ?es" "view b t = c" using reads by (simp_all add: reads_def)
  have "map_cmd (terminated (nulterminate t b)) t = view b t"
    using terminated_words [OF line ok] by (intro cmd.map_cong) auto
  then show ?thesis using run t by (auto simp: parsecmd_def Let_def)
qed

text \<open>C39. The parser and the grammar: every command that can be written, with any nesting of redirections, pipes,
  background commands and lists, is what \<^verbatim>\<open>parsecmd\<close> makes of its text, written with parentheses only where \<^verbatim>\<open>|\<close>
  before \<^verbatim>\<open>&\<close> before \<^verbatim>\<open>;\<close> requires them and with the newline that \<^verbatim>\<open>gets\<close> leaves; the words are the C strings of the command.\<close>

theorem parsecmd_reads_written:
  assumes "writable c" "cstring b 0 = show_cmd 0 c @ [CHR 0x0A]"
  shows "\<exists>t b'. parsecmd b = Some (Inr (t, b')) \<and> map_cmd (terminated b') t = c"
  using assms by (rule parsecmd_written)

theorem parsecmd_reads_written_witness:
  "\<exists>t b'. parsecmd (''(a ;b &)|c >d '' @ [CHR 0x0A]) = Some (Inr (t, b'))
     \<and> map_cmd (terminated b') t = PIPE (LIST (EXEC [''a'']) (BACK (EXEC [''b'']))) (REDIR (EXEC [''c'']) ''d'' 0x601 1)"
  by (rule parsecmd_reads_written)
    (simp_all add: is_word_def wordchar_def whitespace_def symbols_def cstring_def paren_def arrow_def)

end
