(* ===== verification/Shell_Run.thy ===== *)
theory Shell_Run
  imports Shell
begin

text \<open>
  The processes of the shell, \<^verbatim>\<open>user/sh.c\<close>: \<^verbatim>\<open>runcmd\<close> and \<^verbatim>\<open>main\<close>. What a process does is the tree of its
  system calls, with a branch for every result of a call; running it on a table of file descriptors, beside a
  kernel that grants or refuses each call, gives what every process reports: the program it becomes, that it waits, what
  it writes and how it exits, each with the descriptors it has then.
\<close>

section \<open>System calls\<close>

text \<open>
  \<open>Exec\<close> goes on only when it fails. \<open>Pipe\<close> delivers its result and the two descriptors. The bytes that
  \<^verbatim>\<open>fprintf\<close> writes one by one are one \<open>Write\<close>.
\<close>

datatype uprog =
    Exit int
  | Fork "int \<Rightarrow> uprog"
  | Wait uprog
  | Exec string "string list" uprog
  | Open string int "int \<Rightarrow> uprog"
  | Close int uprog
  | Dup int uprog
  | Pipe "int \<Rightarrow> int \<Rightarrow> int \<Rightarrow> uprog"
  | Write int string uprog
  | Chdir string "int \<Rightarrow> uprog"

abbreviation (input) NL :: string where "NL \<equiv> [CHR 0x0A]"

definition upanic :: "string \<Rightarrow> uprog" where
  "upanic s = Write 2 (s @ NL) (Exit 1)"

definition fork1 :: "(int \<Rightarrow> uprog) \<Rightarrow> uprog" where
  "fork1 k = Fork (\<lambda>pid. if pid = - 1 then upanic ''fork'' else k pid)"

section \<open>The shell\<close>

primrec runcmd :: "string cmd \<Rightarrow> uprog" where
  "runcmd (EXEC argv) =
     (case argv of
        [] \<Rightarrow> Exit 1
      | a # _ \<Rightarrow> Exec a argv (Write 2 (''exec '' @ a @ '' failed'' @ NL) (Exit 0)))"
| "runcmd (REDIR cmd file mode fd) =
     Close fd (Open file mode (\<lambda>r.
     if r < 0 then Write 2 (''open '' @ file @ '' failed'' @ NL) (Exit 1)
     else runcmd cmd))"
| "runcmd (LIST left right) =
     fork1 (\<lambda>pid. if pid = 0 then runcmd left else Wait (runcmd right))"
| "runcmd (PIPE left right) =
     Pipe (\<lambda>r p0 p1.
     if r < 0 then upanic ''pipe''
     else fork1 (\<lambda>pid.
          if pid = 0 then Close 1 (Dup p1 (Close p0 (Close p1 (runcmd left))))
          else fork1 (\<lambda>pid.
               if pid = 0 then Close 0 (Dup p0 (Close p0 (Close p1 (runcmd right))))
               else Close p0 (Close p1 (Wait (Wait (Exit 0)))))))"
| "runcmd (BACK cmd) =
     fork1 (\<lambda>pid. if pid = 0 then runcmd cmd else Exit 0)"

text \<open>
  \<^verbatim>\<open>gets\<close> of \<^verbatim>\<open>user/ulib.c\<close> on the bytes that are still to be read, and the line buffer of 100 bytes that
  \<^verbatim>\<open>getcmd\<close> fills.
\<close>

fun gets_line :: "nat \<Rightarrow> string \<Rightarrow> string \<times> string" where
  "gets_line 0 inp = ([], inp)"
| "gets_line (Suc n) [] = ([], [])"
| "gets_line (Suc n) (c # inp) =
     (if c = CHR 0x0A \<or> c = CHR 0x0D then ([c], inp)
      else let (l, r) = gets_line n inp in (c # l, r))"

definition getcmd :: "string \<Rightarrow> string \<times> string" where
  "getcmd inp = (let (l, r) = gets_line 99 inp in (l @ replicate (100 - length l) NUL, r))"

lemma gets_line_Nil [simp]: "gets_line n [] = ([], [])"
  by (cases n) simp_all

lemma gets_line_length: "length (snd (gets_line n inp)) \<le> length inp"
  by (induction n inp rule: gets_line.induct) (auto split: prod.splits)

lemma gets_line_shorter: "fst (gets_line n inp) \<noteq> [] \<Longrightarrow> length (snd (gets_line n inp)) < length inp"
  using gets_line_length by (cases "(n, inp)" rule: gets_line.cases) (auto split: prod.splits simp: less_Suc_eq_le, metis snd_conv)

lemma getcmd_shorter: "getcmd inp = (b, r) \<Longrightarrow> chr_at b 0 \<noteq> NUL \<Longrightarrow> length r < length inp"
  using gets_line_shorter [of 99 inp]
  by (auto simp: getcmd_def Let_def chr_at_def split: prod.splits if_splits) (cases "fst (gets_line 99 inp)"; simp)

text \<open>The loop of \<^verbatim>\<open>main\<close>. Of \<^verbatim>\<open>parsecmd\<close>'s results \<open>None\<close> does not occur.\<close>

function main_loop :: "string \<Rightarrow> uprog" where
  "main_loop inp =
     (case getcmd inp of (buf, more) \<Rightarrow>
      Write 2 ''$ '' (
      if chr_at buf 0 = NUL then Exit 0
      else if take 3 buf = ''cd '' then
        (let dir = drop 3 (butlast (cstring buf 0)) in
         Chdir dir (\<lambda>r. if r < 0 then Write 2 (''cannot cd '' @ dir @ NL) (main_loop more) else main_loop more))
      else fork1 (\<lambda>pid.
        if pid = 0 then
          (case parsecmd buf of
             Some (Inr (cmd, b)) \<Rightarrow> runcmd (map_cmd (terminated b) cmd)
           | Some (Inl msg) \<Rightarrow> upanic msg
           | None \<Rightarrow> Exit 1)
        else Wait (main_loop more))))"
  by pat_completeness auto
termination
  by (relation "measure length") (auto dest: getcmd_shorter [OF sym])

declare main_loop.simps [simp del]

text \<open>
  The loop that makes sure that three descriptors are open ends after at most four rounds, since every call
  of \<^verbatim>\<open>open\<close> returns another descriptor.
\<close>

fun open_console :: "nat \<Rightarrow> uprog \<Rightarrow> uprog" where
  "open_console 0 k = k"
| "open_console (Suc n) k =
     Open ''console'' 2 (\<lambda>fd. if fd \<ge> 0 then if fd \<ge> 3 then Close fd k else open_console n k else k)"

definition sh_main :: "string \<Rightarrow> uprog" where
  "sh_main inp = open_console 4 (main_loop inp)"

section \<open>Programs and their descriptors\<close>

text \<open>What a descriptor stands for. A pipe is named after the process that made it: its way down the tree of forks.\<close>

datatype uobj = Console | UFile string int | PipeR "nat list" | PipeW "nat list"

type_synonym fdtable = "nat \<Rightarrow> uobj option"

abbreviation (input) NOFILE :: nat where "NOFILE \<equiv> 16"

text \<open>The lowest free descriptor, as in \<^verbatim>\<open>fdalloc\<close> of the kernel.\<close>

definition lowest :: "fdtable \<Rightarrow> nat option" where
  "lowest T = List.find (\<lambda>fd. T fd = None) [0..<NOFILE]"

text \<open>
  Which calls the kernel grants: whether a process can fork, open a file in a mode, make a pipe, execute a program, or
  change to a directory. A process is its way down the tree of forks, so every process may meet other answers.
\<close>

record grants =
  forks :: "nat list \<Rightarrow> bool"
  opens :: "nat list \<Rightarrow> string \<Rightarrow> int \<Rightarrow> bool"
  piped :: "nat list \<Rightarrow> bool"
  runs :: "nat list \<Rightarrow> string list \<Rightarrow> bool"
  chdirs :: "nat list \<Rightarrow> string \<Rightarrow> bool"

text \<open>What is seen of a process: the program it turns into, that it waits for a child, how it ends, what it writes.\<close>

datatype uevent = Runs "string list" | Waits | Exits int | Says int string

text \<open>
  Everything that the process \<open>u\<close> and its children do, each time with the descriptors that are open at that moment.
  \<^verbatim>\<open>fork\<close> returns 0 in the child \<open>0 # u\<close> and a positive number in the parent, from now on \<open>1 # u\<close>, or -1; a call
  that is not granted, or for which there is no free descriptor, returns -1 and changes nothing.
\<close>

primrec reports :: "uprog \<Rightarrow> grants \<Rightarrow> nat list \<Rightarrow> fdtable \<Rightarrow> (nat list \<times> uevent \<times> fdtable) set" where
  "reports (Exit n) K u T = {(u, Exits n, T)}"
| "reports (Fork k) K u T =
     (if forks K u then reports (k 0) K (0 # u) T \<union> reports (k 1) K (1 # u) T else reports (k (- 1)) K u T)"
| "reports (Wait p) K u T = insert (u, Waits, T) (reports p K u T)"
| "reports (Exec path args p) K u T = (if runs K u args then {(u, Runs args, T)} else reports p K u T)"
| "reports (Open f mode k) K u T =
     (case (opens K u f mode, lowest T) of
        (True, Some fd) \<Rightarrow> reports (k (int fd)) K u (T(fd \<mapsto> UFile f mode))
      | _ \<Rightarrow> reports (k (- 1)) K u T)"
| "reports (Close fd p) K u T = reports p K u (if fd < 0 then T else T(nat fd := None))"
| "reports (Dup fd p) K u T =
     (case (if fd < 0 then None else T (nat fd), lowest T) of
        (Some x, Some g) \<Rightarrow> reports p K u (T(g \<mapsto> x))
      | _ \<Rightarrow> reports p K u T)"
| "reports (Pipe k) K u T =
     (if \<not> piped K u then reports (k (- 1) 0 0) K u T else
      case lowest T of None \<Rightarrow> reports (k (- 1) 0 0) K u T | Some i \<Rightarrow>
      case lowest (T(i \<mapsto> PipeR u)) of None \<Rightarrow> reports (k (- 1) 0 0) K u T | Some j \<Rightarrow>
      reports (k 0 (int i) (int j)) K u (T(i \<mapsto> PipeR u, j \<mapsto> PipeW u)))"
| "reports (Write fd s p) K u T = insert (u, Says fd s, T) (reports p K u T)"
| "reports (Chdir dir k) K u T = reports (k (if chdirs K u dir then 0 else - 1)) K u T"

text \<open>A process with standard input, output and error, and nothing else.\<close>

definition std :: "uobj \<Rightarrow> uobj \<Rightarrow> uobj \<Rightarrow> fdtable" where
  "std i out e = (\<lambda>_. None)(0 \<mapsto> i, 1 \<mapsto> out, 2 \<mapsto> e)"

text \<open>A process that ends with a message.\<close>

definition dies :: "nat list \<Rightarrow> string \<Rightarrow> int \<Rightarrow> fdtable \<Rightarrow> (nat list \<times> uevent \<times> fdtable) set" where
  "dies u msg n T = {(u, Says 2 (msg @ NL), T), (u, Exits n, T)}"

text \<open>
  The meaning of a command with input \<open>i\<close> and output \<open>out\<close>, without descriptors: which programs run, connected to what;
  which processes wait, and with what in their hands; and what happens when something is not granted.
\<close>

fun meaning :: "string cmd \<Rightarrow> grants \<Rightarrow> nat list \<Rightarrow> uobj \<Rightarrow> uobj \<Rightarrow> uobj \<Rightarrow> (nat list \<times> uevent \<times> fdtable) set" where
  "meaning (EXEC []) K u i out e = {(u, Exits 1, std i out e)}"
| "meaning (EXEC (a # ws)) K u i out e =
     (if runs K u (a # ws) then {(u, Runs (a # ws), std i out e)}
      else dies u (''exec '' @ a @ '' failed'') 0 (std i out e))"
| "meaning (REDIR c f mode fd) K u i out e =
     (if opens K u f mode
      then if fd = 0 then meaning c K u (UFile f mode) out e else meaning c K u i (UFile f mode) e
      else dies u (''open '' @ f @ '' failed'') 1 ((std i out e)(nat fd := None)))"
| "meaning (PIPE l r) K u i out e =
     (let both = (std i out e)(3 \<mapsto> PipeR u, 4 \<mapsto> PipeW u) in
      if \<not> piped K u then dies u ''pipe'' 1 (std i out e)
      else if \<not> forks K u then dies u ''fork'' 1 both
      else meaning l K (0 # u) i (PipeW u) e \<union>
        (if \<not> forks K (1 # u) then dies (1 # u) ''fork'' 1 both
         else meaning r K (0 # 1 # u) (PipeR u) out e
           \<union> {(1 # 1 # u, Waits, std i out e), (1 # 1 # u, Exits 0, std i out e)}))"
| "meaning (LIST l r) K u i out e =
     (if \<not> forks K u then dies u ''fork'' 1 (std i out e)
      else meaning l K (0 # u) i out e \<union> {(1 # u, Waits, std i out e)} \<union> meaning r K (1 # u) i out e)"
| "meaning (BACK c) K u i out e =
     (if \<not> forks K u then dies u ''fork'' 1 (std i out e)
      else meaning c K (0 # u) i out e \<union> {(1 # u, Exits 0, std i out e)})"

lemma lowest_code: "lowest T = (if T 0 = None then Some 0 else if T 1 = None then Some 1 else if T 2 = None then Some 2
    else if T 3 = None then Some 3 else if T 4 = None then Some 4 else List.find (\<lambda>fd. T fd = None) [5..<NOFILE])"
proof -
  have upt: "[0..<16] = 0 # 1 # 2 # 3 # 4 # [5..<16]" by (simp add: upt_rec)
  show ?thesis unfolding lowest_def upt find.simps ..
qed

lemma lowest_std [simp]:
  "lowest ((std i out e)(0 := None)) = Some 0" "lowest ((std i out e)(Suc 0 := None)) = Some 1"
  "lowest (std i out e) = Some 3"
  "lowest ((std i out e)(3 \<mapsto> x)) = Some 4"
  "lowest ((std i out e)(3 \<mapsto> x, 4 \<mapsto> y, 0 := None)) = Some 0"
  "lowest ((std i out e)(3 \<mapsto> x, 4 \<mapsto> y, Suc 0 := None)) = Some 1"
  by (simp_all add: lowest_code std_def)

lemma std_update [simp]:
  "(std i out e)(0 \<mapsto> x) = std x out e" "(std i out e)(0 := None, 0 \<mapsto> x) = std x out e"
  "(std i out e)(Suc 0 \<mapsto> x) = std i x e" "(std i out e)(Suc 0 := None, Suc 0 \<mapsto> x) = std i x e"
  by (auto simp: std_def fun_eq_iff)

lemma reports_upanic [simp]: "reports (upanic msg) K u T = dies u msg 1 T"
  by (simp add: upanic_def dies_def)

lemma reports_fork1 [simp]:
  "reports (fork1 k) K u T =
     (if forks K u then reports (k 0) K (0 # u) T \<union> reports (k 1) K (1 # u) T else dies u ''fork'' 1 T)"
  by (simp add: fork1_def)

lemma reports_runcmd:
  assumes "modes_ok c"
  shows "reports (runcmd c) K u (std i out e) = meaning c K u i out e"
  using assms
proof (induction c arbitrary: u i out)
  case (EXEC ws)
  then show ?case by (cases ws) (simp_all add: dies_def)
next
  case (REDIR c f mode fd)
  then have "fd = 0 \<or> fd = 1" by auto
  then show ?case using REDIR by (elim disjE) (simp_all add: dies_def)
next
  case (PIPE l r)
  have left: "(std i out e)(3 \<mapsto> PipeR u, 4 \<mapsto> PipeW u, Suc 0 := None, Suc 0 \<mapsto> PipeW u, 3 := None, 4 := None) = std i (PipeW u) e"
    and right: "(std i out e)(3 \<mapsto> PipeR u, 4 \<mapsto> PipeW u, 0 := None, 0 \<mapsto> PipeR u, 3 := None, 4 := None) = std (PipeR u) out e"
    and parent: "(std i out e)(3 \<mapsto> PipeR u, 4 \<mapsto> PipeW u, 3 := None, 4 := None) = std i out e"
    by (auto simp: std_def fun_eq_iff)
  show ?case using PIPE left right parent by (simp add: Let_def)
qed (auto simp: Let_def)

section \<open>A line of input\<close>

text \<open>A text without line ends and NULs fits into the buffer, and \<^verbatim>\<open>gets\<close> reads up to the newline.\<close>

lemma gets_line_newline:
  assumes "length xs < n" "CHR 0x0A \<notin> set xs" "CHR 0x0D \<notin> set xs"
  shows "gets_line n (xs @ CHR 0x0A # ys) = (xs @ NL, ys)"
  using assms by (induction n "xs @ CHR 0x0A # ys" arbitrary: xs rule: gets_line.induct)
    (auto simp: append_eq_Cons_conv Cons_eq_append_conv)

lemma word_chars: "is_word w \<Longrightarrow> CHR 0x0A \<notin> set w \<and> CHR 0x0D \<notin> set w \<and> NUL \<notin> set w"
  by (auto simp: is_word_def wordchar_def whitespace_def)

lemma written_chars:
  assumes "writable c"
  shows "CHR 0x0A \<notin> set (show_cmd p c) \<and> CHR 0x0D \<notin> set (show_cmd p c) \<and> NUL \<notin> set (show_cmd p c)"
  using assms
proof (induction c arbitrary: p)
  case (EXEC ws)
  then have "\<forall>w \<in> set ws. CHR 0x0A \<notin> set w \<and> CHR 0x0D \<notin> set w \<and> NUL \<notin> set w" using word_chars by simp
  then show ?case by auto
next
  case (REDIR c f mode fd)
  then have "CHR 0x0A \<notin> set f \<and> CHR 0x0D \<notin> set f \<and> NUL \<notin> set f" using word_chars by simp
  then show ?case using REDIR by (simp add: arrow_def)
qed (simp_all add: paren_def)



end
