(* ===== verification/Spec2Isabelle.thy ===== *)
theory Spec2Isabelle
  imports Lock_Steps Assembly Bcache Log_Crash File_Table Boot Grep Shell_Run
begin

text \<open>
  A verification library for xv6 on RISC-V in the version of the locks lab (\<^verbatim>\<open>LAB_LOCK\<close> is defined): the kernel
  under \<^verbatim>\<open>src/kernel\<close>, with its assembly code, and the shell, \<^verbatim>\<open>grep\<close> and parts of the library under
  \<^verbatim>\<open>src/user\<close>.

  \<^bold>\<open>The program and its model.\<close> A C function of the kernel is a computation \<open>('s, 'a) K\<close> of \<open>Kernel_Prelude\<close>: it is
  given an environment, which says what other harts and devices do to the state at certain events, and a state, and
  ends with \<open>Ret\<close> and a new state, or with \<open>Panic\<close> and its message, or (\<open>None\<close>) it never returns. Events are the
  places where others can interfere: waiting for a spin lock (\<open>AtLock\<close>), giving up the CPU (\<open>AtSwtch\<close>), reading a
  device register (\<open>AtDev\<close>), a busy wait (\<open>AtSpin\<close>). The statements \<open>bnd\<close>, \<open>thn\<close>, \<open>whenK\<close>, \<open>forK\<close>, \<open>findK\<close>
  stand for sequences, conditionals and counted loops of C; a loop that may not end is a
  \<^theory_text>\<open>partial_function (option)\<close>. State is a chain of extensible records, one layer for each component, in the order in
  which the components build on each other:

  \<^item> \<open>Machine\<close>, \<open>Spinlock\<close>: harts, control registers, \<^verbatim>\<open>struct cpu\<close>, the locks (\<^verbatim>\<open>riscv.h\<close>, \<^verbatim>\<open>param.h\<close>,
    \<^verbatim>\<open>memlayout.h\<close>, \<^verbatim>\<open>spinlock.c\<close>); \<open>Lock_Steps\<close> has the same lock as a transition system of single memory
    accesses; \<open>Lock_Frame\<close> is a program logic for code that uses locks (\<open>ends\<close>, \<open>fails\<close>).
  \<^item> \<open>Memory\<close>, \<open>Kstring\<close>: bytes and words in memory, \<^verbatim>\<open>string.c\<close>.
  \<^item> \<open>Kalloc\<close>, \<open>Vm\<close>, \<open>Page_Table\<close>: the page allocator with a free list for each CPU (\<^verbatim>\<open>kalloc.c\<close>) and page tables
    (\<^verbatim>\<open>vm.c\<close>), both inside the modelled physical memory.
  \<^item> \<open>Proc\<close>, \<open>Sleeplock\<close>, \<open>Proc_Life\<close>: the process table, scheduling, \<^verbatim>\<open>sleep\<close> and \<^verbatim>\<open>wakeup\<close>, sleep locks,
    \<^verbatim>\<open>fork\<close> and \<^verbatim>\<open>exit\<close> (\<^verbatim>\<open>proc.c\<close>, \<^verbatim>\<open>sleeplock.c\<close>).
  \<^item> \<open>Virtio\<close>, \<open>Bio\<close>, \<open>Bcache\<close>, \<open>Klog\<close>, \<open>Log_Crash\<close>, \<open>Fs\<close>: the disk driver, the buffer cache with hashed buckets,
    the log, the file system (\<^verbatim>\<open>virtio_disk.c\<close>, \<^verbatim>\<open>bio.c\<close>, \<^verbatim>\<open>log.c\<close>, \<^verbatim>\<open>fs.c\<close>).
  \<^item> \<open>Sprintf\<close>, \<open>Ring\<close>, \<open>Console\<close>, \<open>Stats\<close>: formatted output, ring buffers, the serial port and the console, the lock
    statistics device (\<^verbatim>\<open>sprintf.c\<close>, \<^verbatim>\<open>printf.c\<close>, \<^verbatim>\<open>uart.c\<close>, \<^verbatim>\<open>console.c\<close>, \<^verbatim>\<open>stats.c\<close>).
  \<^item> \<open>File\<close>, \<open>Pipe\<close>, \<open>File_Table\<close>, \<open>Sysfile\<close>, \<open>Exec\<close>: open files, pipes, descriptors, the file system calls, program
    loading (\<^verbatim>\<open>file.c\<close>, \<^verbatim>\<open>pipe.c\<close>, \<^verbatim>\<open>sysfile.c\<close>, \<^verbatim>\<open>exec.c\<close>).
  \<^item> \<open>Trap\<close>, \<open>Boot\<close>, \<open>Assembly\<close>: system calls, traps and interrupts, booting, and the assembly files as lists of
    instructions executed on the registers of a hart (\<^verbatim>\<open>syscall.c\<close>, \<^verbatim>\<open>sysproc.c\<close>, \<^verbatim>\<open>trap.c\<close>, \<^verbatim>\<open>plic.c\<close>,
    \<^verbatim>\<open>start.c\<close>, \<^verbatim>\<open>main.c\<close>, \<^verbatim>\<open>entry.S\<close>, \<^verbatim>\<open>swtch.S\<close>, \<^verbatim>\<open>trampoline.S\<close>, \<^verbatim>\<open>kernelvec.S\<close>).
  \<^item> \<open>Grep\<close>, \<open>Shell\<close>, \<open>Shell_Run\<close>: \<^verbatim>\<open>user/grep.c\<close> and \<^verbatim>\<open>user/sh.c\<close>, as functions on byte lists and as trees of
    system calls.

  The constants and functions keep the names of the source; a name ending in \<open>_loop\<close> or the like is a loop of the
  function it is used in. Machine integers are words of their width; \<^verbatim>\<open>int\<close> variables that stay small are \<open>int\<close>. The
  depth \<open>noff\<close> of \<^verbatim>\<open>push_off\<close>, which is a C \<^verbatim>\<open>int\<close>, is a 32-bit word that is read with its sign.

  \<^bold>\<open>What is shown.\<close>

  \<^item> Locks: in every state that harts reach by any interleaving of the memory accesses of \<^verbatim>\<open>acquire\<close> and \<^verbatim>\<open>release\<close> no check
    has panicked, at most one hart is between the two, and it can leave (C1, \<open>Lock_Steps\<close>); what \<^verbatim>\<open>acquire\<close>, \<^verbatim>\<open>release\<close>,
    \<^verbatim>\<open>push_off\<close>, \<^verbatim>\<open>pop_off\<close> do to locks, interrupts and the depth, exactly when they panic and when they wait for ever
    (\<open>Spinlock\<close>); \<^verbatim>\<open>acquiresleep\<close> on a taken sleep lock sleeps until it is resumed in a state where the lock is free, and
    never returns if there is none (\<open>Sleeplock\<close>).
  \<^item> Allocator: \<^verbatim>\<open>kalloc\<close> and \<^verbatim>\<open>kfree\<close> implement a pool of pages, with stealing between CPUs; no page is handed out
    twice; \<^verbatim>\<open>kinit\<close> ends and frees exactly the memory behind the kernel (\<open>Kalloc\<close>, over the interface \<open>page_pool\<close>).
  \<^item> Memory: \<^verbatim>\<open>memmove\<close>, \<^verbatim>\<open>strncpy\<close>, \<^verbatim>\<open>strncmp\<close>, \<^verbatim>\<open>safestrcpy\<close> (\<open>Kstring\<close>); \<^verbatim>\<open>copyout\<close>, \<^verbatim>\<open>copyin\<close>, \<^verbatim>\<open>copyinstr\<close> as
    operations on a map from user addresses to bytes (\<open>Page_Table\<close>).
  \<^item> Processes: \<^verbatim>\<open>wakeup\<close> and \<^verbatim>\<open>kill\<close>; \<^verbatim>\<open>sleep\<close> waits for the lock of the process while it still holds its own lock, so what
    that lock protects is unchanged when the others next run, and they then find the process asleep on its channel
    (\<open>sleep_hands_over_lock\<close> of \<open>Proc\<close>). That the \<^verbatim>\<open>wakeup\<close> of another process then reaches it is \<open>wakeup_wakes_sleepers\<close>.
  \<^item> Disk: the buckets are doubly linked lists, every block is cached at most once, \<^verbatim>\<open>bget\<close> returns the block that was
    asked for and \<^verbatim>\<open>brelse\<close> gives it back (\<open>Bcache\<close>, over the interface \<open>list_array\<close>); a transaction is on disk
    completely or not at all, whenever and however often the machine crashes, and \<^verbatim>\<open>log_write\<close> keeps a transaction
    ready to commit (\<open>Log_Crash\<close>).
  \<^item> Files: pipes are queues of bytes, through which a writer passes any number of bytes, sleeping while the pipe is full
    (\<open>Pipe\<close>; pipes, serial port and console are instances of the interface \<open>ring\<close>);
    descriptors, reference counts, \<^verbatim>\<open>dup\<close> and \<^verbatim>\<open>close\<close> (\<open>File_Table\<close>).
  \<^item> Output: numbers read back as they were, and how far \<^verbatim>\<open>snprintf\<close> can write (\<open>Sprintf\<close>).
  \<^item> Assembly: the trampoline, \<^verbatim>\<open>swtch\<close>, \<^verbatim>\<open>kernelvec\<close> and \<^verbatim>\<open>timervec\<close> save and restore the registers they should
    (\<open>Assembly\<close>).
  \<^item> User programs: the matcher of \<^verbatim>\<open>grep\<close> decides the language of its pattern, and \<^verbatim>\<open>grep\<close> prints the matching lines
    (\<open>Grep\<close>); the parser of the shell ends on every line, reads back every command from its text, and the processes of a
    command run, wait, fail and are connected as it says, with no descriptor left over, whatever the kernel answers to
    \<^verbatim>\<open>fork\<close>, \<^verbatim>\<open>open\<close>, \<^verbatim>\<open>pipe\<close> and \<^verbatim>\<open>exec\<close> (\<open>Shell\<close>, \<open>Shell_Run\<close>).

  The statements about kernel functions say that the function returns, and with which state (\<open>returns\<close>); the lemmas
  behind them are about states up to lock statistics (\<open>lk_eq\<close>). What other harts do is a hypothesis about the
  environment:

  \<^item> \<open>uncontended\<close>: the state does not change while this CPU waits for a lock. Most statements about kernel
    functions assume it.
  \<^item> \<open>waiting\<close> and \<open>resumes\<close> say in which states a wait for a lock and a switch to another thread can end.
    \<open>sleep_hands_over_lock\<close> lets the others change anything but the data of a lock that is held, this CPU and this
    process; \<open>slk_wait\<close> of \<open>sleeplock_protocol\<close> follows a sleeping process through any number of wakeups; \<open>reader\<close> of
    \<open>pipewrite_appends\<close> lets a reader take any bytes out of the full pipe while the writer sleeps.
  \<^item> \<open>acquire_waits\<close> and \<open>lock_misuse_panics\<close> hold beside any environment, and \<open>Lock_Steps\<close> has all interleavings.
  \<^item> \<open>grants\<close> of \<open>Shell_Run\<close> gives the answers of the kernel to the system calls of the shell; they are arbitrary but for
    the rule that a new descriptor is the lowest free one.

  Every hypothesis is met by the example state of its witness.

  \<^bold>\<open>Bounds and fuel.\<close> The recursive functions of the shell's parser count down from the length of the line: every
  round and every recursive call reads a character, so the bound is never reached (\<open>parsecmd_every_line\<close>). The first
  loop of the shell's \<^verbatim>\<open>main\<close> has four rounds, since each call of \<^verbatim>\<open>open\<close> returns another descriptor. The kernel code
  has no fuel. \<open>cpu_ok\<close> asks that the depth of \<^verbatim>\<open>push_off\<close> has room for eight more calls within 32 bits, more than any
  chain of locks in the kernel takes.

  \<^bold>\<open>Assumptions about hardware.\<close> Memory is sequentially consistent; \<^verbatim>\<open>__sync_lock_test_and_set\<close> is atomic; a disk block is
  written as a whole; \<^verbatim>\<open>sfence_vma\<close> has no effect because there is no TLB in the model.

  \<^bold>\<open>Not modelled.\<close>

  \<^item> The test programs \<^verbatim>\<open>usertests.c\<close>, \<^verbatim>\<open>bcachetest.c\<close>, \<^verbatim>\<open>kalloctest.c\<close>, \<^verbatim>\<open>forktest.c\<close>, \<^verbatim>\<open>stressfs.c\<close>, \<^verbatim>\<open>grind.c\<close>: they
    only exercise the kernel.
  \<^item> The other user programs \<^verbatim>\<open>cat.c\<close>, \<^verbatim>\<open>echo.c\<close>, \<^verbatim>\<open>init.c\<close>, \<^verbatim>\<open>kill.c\<close>, \<^verbatim>\<open>ln.c\<close>, \<^verbatim>\<open>ls.c\<close>, \<^verbatim>\<open>mkdir.c\<close>, \<^verbatim>\<open>rm.c\<close>, \<^verbatim>\<open>stats.c\<close>,
    \<^verbatim>\<open>statistics.c\<close>, \<^verbatim>\<open>wc.c\<close>, \<^verbatim>\<open>zombie.c\<close>, which are short sequences of system calls, the stand-alone exercise \<^verbatim>\<open>hashtable.c\<close>,
    \<^verbatim>\<open>initcode.S\<close>, which the kernel contains as bytes, and of the user library \<^verbatim>\<open>umalloc.c\<close>, \<^verbatim>\<open>printf.c\<close> and all of
    \<^verbatim>\<open>ulib.c\<close> but \<^verbatim>\<open>strlen\<close>, \<^verbatim>\<open>strchr\<close> and \<^verbatim>\<open>gets\<close>.
  \<^item> \<^verbatim>\<open>mkfs/mkfs.c\<close>: a program of the host system that writes the disk image.
  \<^item> Headers with declarations only (\<^verbatim>\<open>defs.h\<close>, \<^verbatim>\<open>user.h\<close>, \<^verbatim>\<open>date.h\<close>, \<^verbatim>\<open>syscall.h\<close>), the build files, the linker script,
    the generated system call stubs (\<^verbatim>\<open>usys.pl\<close>), the grading scripts.
  \<^item> \<^verbatim>\<open>ramdisk.c\<close>: it is not compiled, and refers to fields of \<^verbatim>\<open>struct buf\<close> that do not exist.
  \<^item> What \<^verbatim>\<open>panic\<close> prints, the device side of the disk and of the serial port, and the unused functions \<^verbatim>\<open>r_sp\<close>,
    \<^verbatim>\<open>r_ra\<close>, \<^verbatim>\<open>lockfree_read8\<close>.
\<close>

end
